(* ===== verification/Silta_Prelude.thy ===== *)
theory Silta_Prelude
  imports Main "HOL-Library.Word"
begin

text \<open>
  The shared ground of the development: the machine integers of the Rust sources as
  words (\<open>u64\<close>, \<open>u32\<close>), the saturating operations of Rust's standard library with their
  reading through \<open>unat\<close>, and the generic facts on lists, options and maps that the
  component theories use. \<open>Instant\<close> and \<open>Duration\<close> of \<open>std::time\<close> are natural numbers
  of milliseconds on one monotonic clock (see the header of the root theory).
\<close>

section \<open>Machine integers\<close>

type_synonym u64 = "64 word"
type_synonym u32 = "32 word"

named_theorems u64_nat \<open>readings of the machine integer operations as natural numbers\<close>

text \<open>Rust's \<open>saturating_add\<close>, \<open>saturating_sub\<close> and \<open>saturating_mul\<close> on an unsigned integer.\<close>

definition saturating_add :: "'a::len word \<Rightarrow> 'a word \<Rightarrow> 'a word" where
  "saturating_add a b = (if unat a + unat b < 2 ^ LENGTH('a) then a + b else - 1)"

definition saturating_sub :: "'a::len word \<Rightarrow> 'a word \<Rightarrow> 'a word" where
  "saturating_sub a b = (if b \<le> a then a - b else 0)"

definition saturating_mul :: "'a::len word \<Rightarrow> 'a word \<Rightarrow> 'a word" where
  "saturating_mul a b = (if unat a * unat b < 2 ^ LENGTH('a) then a * b else - 1)"

type_synonym instant = nat
type_synonym duration = nat

section \<open>Words read as natural numbers\<close>

lemma unat_max_word: "unat (- 1 :: 'a::len word) = 2 ^ LENGTH('a) - 1"
  by (simp add: unsigned_minus_1_eq_mask mask_eq_exp_minus_1)

lemma unat_lt_pow: "unat (a :: 'a::len word) < 2 ^ LENGTH('a)"
  by (rule unsigned_less)

lemma unat_saturating_add [u64_nat]:
  fixes a b :: "'a::len word"
  shows "unat (saturating_add a b) = min (unat a + unat b) (2 ^ LENGTH('a) - 1)"
proof (cases "unat a + unat b < 2 ^ LENGTH('a)")
  case True
  then have "unat (a + b) = unat a + unat b"
    by (simp add: unat_word_ariths)
  with True show ?thesis
    by (simp add: saturating_add_def)
next
  case False
  then show ?thesis
    by (simp add: saturating_add_def unat_max_word)
qed

lemma unat_saturating_sub [u64_nat]:
  fixes a b :: "'a::len word"
  shows "unat (saturating_sub a b) = unat a - unat b"
  by (simp add: saturating_sub_def unat_sub word_le_nat_alt)

lemma unat_saturating_mul [u64_nat]:
  fixes a b :: "'a::len word"
  shows "unat (saturating_mul a b) = min (unat a * unat b) (2 ^ LENGTH('a) - 1)"
proof (cases "unat a * unat b < 2 ^ LENGTH('a)")
  case True
  then have "unat (a * b) = unat a * unat b"
    by (simp add: unat_word_ariths)
  with True show ?thesis
    by (simp add: saturating_mul_def)
next
  case False
  then show ?thesis
    by (simp add: saturating_mul_def unat_max_word)
qed

lemmas word_nat_order [u64_nat] = word_less_nat_alt word_le_nat_alt

lemma unat_add_exact:
  fixes a b :: "'a::len word"
  assumes "unat a + unat b < 2 ^ LENGTH('a)"
  shows "unat (a + b) = unat a + unat b"
  using assms by (simp add: unat_word_ariths)

section \<open>Lists\<close>

lemma dropWhile_eq_drop_prefix:
  "dropWhile P xs = drop (length (takeWhile P xs)) xs"
  by (rule dropWhile_eq_drop)

lemma length_takeWhile_dropWhile:
  "length (takeWhile P xs) + length (dropWhile P xs) = length xs"
  using length_append [of "takeWhile P xs" "dropWhile P xs"] by simp

lemma sorted_le_last: "sorted xs \<Longrightarrow> x \<in> set xs \<Longrightarrow> x \<le> last xs"
  by (induction xs) (auto simp: last_in_set)

end
