(* ===== verification/Backlog.thy ===== *)
theory Backlog
  imports Silta_Prelude "HOL-Library.Multiset"
begin

text \<open>
  The bounded FIFO of items waiting for a session that is not connected
  (\<open>crates/silta/src/backlog.rs\<close>). \<open>VecDeque<(u64, T)>\<close> is a list of stamped items,
  oldest first; a \<open>&mut self\<close> operation takes the backlog and returns it updated next
  to its result. The loops that pop from the front are structural recursions that carry
  the eviction count. The interface the daemon's registry relies on is the locale
  \<open>stamped_fifo\<close>, interpreted here on the model of the code.
\<close>

section \<open>The data and the operations\<close>

record 'a backlog =
  items :: "(u64 \<times> 'a) list"
  max_len :: nat
  max_age_ms :: u64

definition backlog_new :: "nat \<Rightarrow> u64 \<Rightarrow> 'a backlog" where
  "backlog_new len age = \<lparr>items = [], max_len = len, max_age_ms = age\<rparr>"

definition expired :: "u64 \<Rightarrow> u64 \<Rightarrow> u64 \<times> 'a \<Rightarrow> bool" where
  "expired age now e = (saturating_add (fst e) age < now)"

fun evict_loop :: "u64 \<Rightarrow> u64 \<Rightarrow> (u64 \<times> 'a) list \<Rightarrow> nat \<Rightarrow> (u64 \<times> 'a) list \<times> nat" where
  "evict_loop age now [] evicted = ([], evicted)"
| "evict_loop age now (e # es) evicted =
     (if expired age now e then evict_loop age now es (evicted + 1) else (e # es, evicted))"

definition evict_expired :: "u64 \<Rightarrow> 'a backlog \<Rightarrow> 'a backlog \<times> nat" where
  "evict_expired now b =
     (let (es, evicted) = evict_loop (max_age_ms b) now (items b) 0
      in (b\<lparr>items := es\<rparr>, evicted))"

text \<open>\<open>while items.len() >= bound { pop_front; evicted += 1 }\<close>, for a positive bound.\<close>

fun pop_while_ge :: "nat \<Rightarrow> (u64 \<times> 'a) list \<Rightarrow> nat \<Rightarrow> (u64 \<times> 'a) list \<times> nat" where
  "pop_while_ge bound [] evicted = ([], evicted)"
| "pop_while_ge bound (e # es) evicted =
     (if length (e # es) \<ge> bound then pop_while_ge bound es (evicted + 1)
      else (e # es, evicted))"

definition backlog_push :: "u64 \<Rightarrow> 'a \<Rightarrow> u64 \<Rightarrow> 'a backlog \<Rightarrow> 'a backlog \<times> nat" where
  "backlog_push ts item now b =
     (let (b1, evicted) = evict_expired now b;
          (es, evicted') = pop_while_ge (max (max_len b1) 1) (items b1) evicted
      in (b1\<lparr>items := es @ [(ts, item)]\<rparr>, evicted'))"

definition backlog_drain :: "u64 \<Rightarrow> 'a backlog \<Rightarrow> 'a backlog \<times> (u64 \<times> 'a) list \<times> nat" where
  "backlog_drain now b =
     (let (b1, evicted) = evict_expired now b
      in (b1\<lparr>items := []\<rparr>, items b1, evicted))"

text \<open>\<open>while items.len() > bound\<close> is \<open>while items.len() >= bound + 1\<close>.\<close>

definition backlog_restore :: "(u64 \<times> 'a) list \<Rightarrow> u64 \<Rightarrow> 'a backlog \<Rightarrow> 'a backlog \<times> nat" where
  "backlog_restore older now b =
     (let b0 = b\<lparr>items := foldl (\<lambda>q e. e # q) (items b) (rev older)\<rparr>;
          (b1, evicted) = evict_expired now b0;
          (es, evicted') = pop_while_ge (max (max_len b1) 1 + 1) (items b1) evicted
      in (b1\<lparr>items := es\<rparr>, evicted'))"

definition backlog_len :: "'a backlog \<Rightarrow> nat" where
  "backlog_len b = length (items b)"

definition backlog_is_empty :: "'a backlog \<Rightarrow> bool" where
  "backlog_is_empty b = (items b = [])"

text \<open>The well-formedness invariant: never more items than the (positive) cap.\<close>

definition backlog_wf :: "'a backlog \<Rightarrow> bool" where
  "backlog_wf b = (length (items b) \<le> max (max_len b) 1)"

section \<open>The abstract specification\<close>

text \<open>
  What survives the age limit, and the newest \<open>n\<close> items of a queue: the abstract
  operations are "forget the expired head, add, keep the newest".
\<close>

definition live :: "u64 \<Rightarrow> u64 \<Rightarrow> (u64 \<times> 'a) list \<Rightarrow> (u64 \<times> 'a) list" where
  "live age now es = dropWhile (expired age now) es"

definition newest :: "nat \<Rightarrow> 'b list \<Rightarrow> 'b list" where
  "newest n xs = drop (length xs - n) xs"

text \<open>A history of operations with the items it put in, the items it gave out and the number evicted.\<close>

datatype 'a backlog_op =
    Push u64 'a u64
  | Drain u64
  | Restore "(u64 \<times> 'a) list" u64

fun backlog_step :: "'a backlog_op \<Rightarrow> 'a backlog \<Rightarrow>
    'a backlog \<times> (u64 \<times> 'a) list \<times> (u64 \<times> 'a) list \<times> nat" where
  "backlog_step (Push ts x now) b =
     (let (b1, n) = backlog_push ts x now b in (b1, [(ts, x)], [], n))"
| "backlog_step (Drain now) b = (let (b1, xs, n) = backlog_drain now b in (b1, [], xs, n))"
| "backlog_step (Restore older now) b =
     (let (b1, n) = backlog_restore older now b in (b1, older, [], n))"

fun backlog_run :: "'a backlog_op list \<Rightarrow> 'a backlog \<Rightarrow>
    'a backlog \<times> (u64 \<times> 'a) list \<times> (u64 \<times> 'a) list \<times> nat" where
  "backlog_run [] b = (b, [], [], 0)"
| "backlog_run (op # ops) b =
     (let (b1, ins1, outs1, n1) = backlog_step op b; (b2, ins2, outs2, n2) = backlog_run ops b1
      in (b2, ins1 @ ins2, outs1 @ outs2, n1 + n2))"

section \<open>The interface of a stamped FIFO\<close>

text \<open>
  What a client may rely on: an operation evicts a prefix of what is queued, reports its
  length, keeps the order of the rest, never evicts the item just pushed, and a drain
  leaves nothing behind.
\<close>

locale stamped_fifo =
  fixes contents :: "'q \<Rightarrow> (u64 \<times> 'a) list"
    and bound :: "'q \<Rightarrow> nat"
    and push :: "u64 \<Rightarrow> 'a \<Rightarrow> u64 \<Rightarrow> 'q \<Rightarrow> 'q \<times> nat"
    and drain :: "u64 \<Rightarrow> 'q \<Rightarrow> 'q \<times> (u64 \<times> 'a) list \<times> nat"
    and restore :: "(u64 \<times> 'a) list \<Rightarrow> u64 \<Rightarrow> 'q \<Rightarrow> 'q \<times> nat"
  assumes push_law: "push ts x now q = (q', n) \<Longrightarrow>
      \<exists>gone kept. contents q = gone @ kept \<and> length gone = n \<and>
        contents q' = kept @ [(ts, x)] \<and> bound q' = bound q \<and> length (contents q') \<le> bound q"
    and drain_law: "drain now q = (q', out, n) \<Longrightarrow>
      \<exists>gone. contents q = gone @ out \<and> length gone = n \<and> contents q' = [] \<and> bound q' = bound q"
    and restore_law: "restore older now q = (q', n) \<Longrightarrow>
      \<exists>gone. older @ contents q = gone @ contents q' \<and> length gone = n \<and>
        bound q' = bound q \<and> length (contents q') \<le> bound q"
begin

lemma push_conserves:
  assumes "push ts x now q = (q', n)"
  shows "\<exists>gone. mset (contents q) + {#(ts, x)#} = mset gone + mset (contents q') \<and> length gone = n"
  using push_law [OF assms] by force

lemma drain_conserves:
  assumes "drain now q = (q', out, n)"
  shows "\<exists>gone. mset (contents q) = mset gone + mset out \<and> length gone = n \<and> contents q' = []"
  using drain_law [OF assms] by force

lemma restore_conserves:
  assumes "restore older now q = (q', n)"
  shows "\<exists>gone. mset older + mset (contents q) = mset gone + mset (contents q') \<and> length gone = n"
  using restore_law [OF assms] by (metis mset_append)

lemma push_newest_kept:
  assumes "push ts x now q = (q', n)"
  shows "contents q' \<noteq> [] \<and> last (contents q') = (ts, x)"
  using push_law [OF assms] by auto

lemma push_counts:
  assumes "push ts x now q = (q', n)"
  shows "length (contents q') + n = length (contents q) + 1"
  using push_law [OF assms] by auto

lemma restore_counts:
  assumes "restore older now q = (q', n)"
  shows "length (contents q') + n = length older + length (contents q)"
proof -
  from restore_law [OF assms] obtain gone
    where "older @ contents q = gone @ contents q'" and "length gone = n" by blast
  then show ?thesis by (metis add.commute length_append)
qed

lemma push_then_drain:
  assumes "push ts x now q = (q1, n)" and "drain later q1 = (q2, out, m)" and "out \<noteq> []"
  shows "last out = (ts, x)"
proof -
  from drain_law [OF assms(2)] obtain gone where "contents q1 = gone @ out" by blast
  with push_newest_kept [OF assms(1)] assms(3) show ?thesis by auto
qed

end

section \<open>The loops computed\<close>

lemma evict_loop_eq:
  "evict_loop age now es n =
     (dropWhile (expired age now) es, n + length (takeWhile (expired age now) es))"
  by (induction es arbitrary: n) auto

lemma pop_while_ge_eq:
  "bound > 0 \<Longrightarrow>
   pop_while_ge bound es n = (drop (length es + 1 - bound) es, n + (length es + 1 - bound))"
  by (induction es arbitrary: n) (auto simp: Suc_diff_le not_le)

lemma foldl_push_front: "foldl (\<lambda>q e. e # q) xs ys = rev ys @ xs"
  by (induction ys arbitrary: xs) auto

lemma live_suffix: "\<exists>gone. es = gone @ live age now es \<and> length gone = length es - length (live age now es)"
  unfolding live_def
  by (rule exI [of _ "takeWhile (expired age now) es"])
     (simp, metis add_diff_cancel_right' length_takeWhile_dropWhile)

lemma evict_expired_eq:
  "evict_expired now b =
     (b\<lparr>items := live (max_age_ms b) now (items b)\<rparr>,
      length (items b) - length (live (max_age_ms b) now (items b)))"
proof -
  have "length (takeWhile (expired (max_age_ms b) now) (items b)) =
      length (items b) - length (live (max_age_ms b) now (items b))"
    unfolding live_def by (metis add_diff_cancel_right' length_takeWhile_dropWhile)
  then show ?thesis
    by (simp add: evict_expired_def evict_loop_eq live_def)
qed

lemma length_live: "length (live age now es) \<le> length es"
  unfolding live_def by (rule length_dropWhile_le)

lemma backlog_push_eq:
  "backlog_push ts x now b =
     (let l = live (max_age_ms b) now (items b); k = length l + 1 - max (max_len b) 1
      in (b\<lparr>items := drop k l @ [(ts, x)]\<rparr>, length (items b) - length l + k))"
  by (simp add: backlog_push_def evict_expired_eq pop_while_ge_eq Let_def)

lemma backlog_drain_eq:
  "backlog_drain now b =
     (let l = live (max_age_ms b) now (items b)
      in (b\<lparr>items := []\<rparr>, l, length (items b) - length l))"
  by (simp add: backlog_drain_def evict_expired_eq Let_def)

lemma backlog_restore_eq:
  "backlog_restore older now b =
     (let l = live (max_age_ms b) now (older @ items b); k = length l - max (max_len b) 1
      in (b\<lparr>items := drop k l\<rparr>, length (older @ items b) - length l + k))"
  by (simp add: backlog_restore_def evict_expired_eq pop_while_ge_eq foldl_push_front Let_def)

section \<open>The code implements the interface\<close>

lemma drop_live_split:
  "\<exists>gone. es = gone @ drop k (live age now es) \<and>
     length gone = length es - length (live age now es) + min k (length (live age now es))"
proof -
  obtain gone where g: "es = gone @ live age now es"
      "length gone = length es - length (live age now es)"
    using live_suffix by blast
  have "es = (gone @ take k (live age now es)) @ drop k (live age now es)"
    using g(1) by simp
  then show ?thesis
    using g(2) by (metis length_append length_take min.commute)
qed

interpretation fq: stamped_fifo items "\<lambda>b. max (max_len b) 1" backlog_push backlog_drain backlog_restore
proof
  fix ts now :: u64 and x :: 'a and q q' n
  assume push: "backlog_push ts x now q = (q', n)"
  let ?l = "live (max_age_ms q) now (items q)"
  let ?k = "length ?l + 1 - max (max_len q) 1"
  obtain gone where "items q = gone @ drop ?k ?l"
      "length gone = length (items q) - length ?l + min ?k (length ?l)"
    using drop_live_split by blast
  with push show "\<exists>gone kept. items q = gone @ kept \<and> length gone = n \<and>
      items q' = kept @ [(ts, x)] \<and> max (max_len q') 1 = max (max_len q) 1 \<and>
      length (items q') \<le> max (max_len q) 1"
    by (intro exI [of _ gone] exI [of _ "drop ?k ?l"]) (auto simp: backlog_push_eq Let_def)
next
  fix now :: u64 and q q' :: "'a backlog" and out n
  assume "backlog_drain now q = (q', out, n)"
  then show "\<exists>gone. items q = gone @ out \<and> length gone = n \<and> items q' = [] \<and>
      max (max_len q') 1 = max (max_len q) 1"
    using live_suffix [of "items q" "max_age_ms q" now] by (auto simp: backlog_drain_eq Let_def)
next
  fix older now and q q' :: "'a backlog" and n
  assume restore: "backlog_restore older now q = (q', n)"
  let ?l = "live (max_age_ms q) now (older @ items q)"
  let ?k = "length ?l - max (max_len q) 1"
  obtain gone where "older @ items q = gone @ drop ?k ?l"
      "length gone = length (older @ items q) - length ?l + min ?k (length ?l)"
    using drop_live_split by blast
  with restore show "\<exists>gone. older @ items q = gone @ items q' \<and> length gone = n \<and>
      max (max_len q') 1 = max (max_len q) 1 \<and> length (items q') \<le> max (max_len q) 1"
    by (intro exI [of _ gone]) (auto simp: backlog_restore_eq Let_def)
qed

section \<open>Properties\<close>

lemma backlog_push_newest:
  "backlog_push ts x now b =
     (b\<lparr>items := newest (max (max_len b) 1) (live (max_age_ms b) now (items b) @ [(ts, x)])\<rparr>,
      length (items b) + 1
        - length (newest (max (max_len b) 1) (live (max_age_ms b) now (items b) @ [(ts, x)])))"
proof -
  let ?l = "live (max_age_ms b) now (items b)"
  have "length ?l \<le> length (items b)"
    by (rule length_live)
  moreover have "drop (length ?l + 1 - max (max_len b) 1) ?l @ [(ts, x)] =
      newest (max (max_len b) 1) (?l @ [(ts, x)])"
    by (auto simp: newest_def)
  ultimately show ?thesis
    by (auto simp: backlog_push_eq Let_def newest_def)
qed

lemma backlog_restore_newest:
  "backlog_restore older now b =
     (b\<lparr>items := newest (max (max_len b) 1) (live (max_age_ms b) now (older @ items b))\<rparr>,
      length (older @ items b)
        - length (newest (max (max_len b) 1) (live (max_age_ms b) now (older @ items b))))"
  using length_live [of "max_age_ms b" now "older @ items b"]
  by (auto simp: backlog_restore_eq Let_def newest_def)

lemma backlog_drain_live:
  "backlog_drain now b =
     (b\<lparr>items := []\<rparr>, live (max_age_ms b) now (items b),
      length (items b) - length (live (max_age_ms b) now (items b)))"
  by (simp add: backlog_drain_eq Let_def)

lemmas backlog_ops = backlog_push_newest backlog_drain_live backlog_restore_newest

text \<open>
  C31: push, drain and restore are exactly the abstract operations: the
  expired head goes, the new item is added behind (the restored ones in front), the
  newest \<open>max max_len 1\<close> stay, and the number reported is the number of items lost.
\<close>

theorem backlog_refines:
  "backlog_push ts x now b =
     (b\<lparr>items := newest (max (max_len b) 1) (live (max_age_ms b) now (items b) @ [(ts, x)])\<rparr>,
      length (items b) + 1
        - length (newest (max (max_len b) 1) (live (max_age_ms b) now (items b) @ [(ts, x)]))) \<and>
   backlog_drain now b =
     (b\<lparr>items := []\<rparr>, live (max_age_ms b) now (items b),
      length (items b) - length (live (max_age_ms b) now (items b))) \<and>
   backlog_restore older now b =
     (b\<lparr>items := newest (max (max_len b) 1) (live (max_age_ms b) now (older @ items b))\<rparr>,
      length (older @ items b)
        - length (newest (max (max_len b) 1) (live (max_age_ms b) now (older @ items b))))"
  by (intro conjI backlog_ops)

lemma backlog_step_conserves:
  assumes "backlog_step op b = (b', ins, outs, n)"
  shows "\<exists>gone. mset (items b) + mset ins = mset (items b') + mset outs + mset gone \<and> length gone = n"
proof (cases op)
  case (Push ts x now)
  with assms fq.push_conserves [of ts x now b b' n] show ?thesis
    by (auto simp: ac_simps split: prod.splits)
next
  case (Drain now)
  with assms fq.drain_conserves [of now b b' outs n] show ?thesis
    by (auto simp: ac_simps split: prod.splits)
next
  case (Restore older now)
  with assms fq.restore_conserves [of older now b b' n] show ?thesis
    by (auto simp: ac_simps split: prod.splits)
qed

lemma backlog_step_wf:
  assumes "backlog_step op b = (b', ins, outs, n)" and "backlog_wf b"
  shows "backlog_wf b' \<and> max_len b' = max_len b \<and> max_age_ms b' = max_age_ms b"
  using assms length_live [of "max_age_ms b" _ "items b"]
  by (cases op) (auto simp: backlog_wf_def backlog_ops newest_def split: prod.splits)

lemma backlog_run_conserves_mset:
  assumes "backlog_run ops b = (b', ins, outs, n)"
  shows "\<exists>gone. mset (items b) + mset ins = mset (items b') + mset outs + mset gone \<and> length gone = n"
  using assms
proof (induction ops arbitrary: b b' ins outs n)
  case Nil
  then show ?case by simp
next
  case (Cons op ops)
  obtain b1 ins1 outs1 n1 where s: "backlog_step op b = (b1, ins1, outs1, n1)"
    by (metis prod_cases4)
  obtain b2 ins2 outs2 n2 where r: "backlog_run ops b1 = (b2, ins2, outs2, n2)"
    by (metis prod_cases4)
  from backlog_step_conserves [OF s] obtain g1 where
    g1: "mset (items b) + mset ins1 = mset (items b1) + mset outs1 + mset g1" "length g1 = n1" by blast
  from Cons.IH [OF r] obtain g2 where
    g2: "mset (items b1) + mset ins2 = mset (items b2) + mset outs2 + mset g2" "length g2 = n2" by blast
  have "mset (items b) + mset (ins1 @ ins2) = (mset (items b) + mset ins1) + mset ins2"
    by (simp add: ac_simps)
  also have "\<dots> = (mset (items b1) + mset ins2) + mset outs1 + mset g1"
    unfolding g1(1) by (simp only: ac_simps)
  also have "\<dots> = mset (items b2) + mset (outs1 @ outs2) + mset (g1 @ g2)"
    unfolding g2(1) mset_append by (simp only: ac_simps)
  finally have "mset (items b) + mset (ins1 @ ins2) =
      mset (items b2) + mset (outs1 @ outs2) + mset (g1 @ g2)" .
  with Cons.prems s r g1(2) g2(2) show ?case
    by (intro exI [of _ "g1 @ g2"]) auto
qed

lemma backlog_run_wf:
  "backlog_run ops b = (b', ins, outs, n) \<Longrightarrow> backlog_wf b \<Longrightarrow>
   backlog_wf b' \<and> max_len b' = max_len b \<and> max_age_ms b' = max_age_ms b"
  by (induction ops arbitrary: b b' ins outs n)
     (fastforce split: prod.splits dest: backlog_step_wf)+

text \<open>
  Over any history of pushes, drains and restores that starts from an empty backlog,
  the queue never grows past its cap, its limits never change, and no item is invented
  or lost without being counted: what went in is what came out, what still waits, and
  as many evicted items as the operations reported.
\<close>

theorem backlog_history:
  assumes "backlog_run ops (backlog_new len age) = (b, ins, outs, n)"
  shows "length (items b) \<le> max len 1 \<and> max_len b = len \<and> max_age_ms b = age \<and>
    (\<exists>gone. mset ins = mset outs + mset (items b) + mset gone \<and> length gone = n)"
proof -
  have "backlog_wf (backlog_new len age :: 'a backlog)"
    by (simp add: backlog_wf_def backlog_new_def)
  from backlog_run_wf [OF assms this] backlog_run_conserves_mset [OF assms] show ?thesis
    by (auto simp: backlog_wf_def backlog_new_def ac_simps)
qed

theorem backlog_history_witness:
  "\<exists>gone. mset [(1, ''a''), (2, ''b''), (3 :: u64, ''c'')] =
     mset [] + mset [(2, ''b''), (3, ''c'')] + mset gone \<and> length gone = 1"
  using backlog_history [of "[Push 1 ''a'' 1, Push 2 ''b'' 2, Push 3 ''c'' 3]" 2 1000]
  by (simp add: backlog_new_def backlog_push_def evict_expired_def expired_def saturating_add_def)

lemma sorted_live_fresh:
  assumes "sorted_wrt (\<lambda>a b. fst a \<le> fst b) es" and "e \<in> set (live age now es)"
  shows "\<not> expired age now e"
proof (cases "live age now es")
  case Nil
  with assms(2) show ?thesis by simp
next
  case (Cons h t)
  then have h: "\<not> expired age now h"
    unfolding live_def by (metis hd_dropWhile list.distinct(1) list.sel(1))
  have "sorted_wrt (\<lambda>a b. fst a \<le> fst b) (h # t)"
    using assms(1) Cons unfolding live_def by (metis sorted_wrt_drop dropWhile_eq_drop)
  with assms(2) Cons have "fst h \<le> fst e" by auto
  with h show ?thesis
    by (auto simp: expired_def u64_nat)
qed

text \<open>
  The age limit, for a queue whose time stamps are in order: everything a drain hands
  out is still within the limit, and everything it dropped had expired.
\<close>

theorem backlog_drain_fresh:
  assumes "sorted_wrt (\<lambda>a b. fst a \<le> fst b) (items b)"
    and "backlog_drain now b = (b', out, n)"
  shows "(\<forall>e \<in> set out. \<not> saturating_add (fst e) (max_age_ms b) < now) \<and>
    (\<exists>gone. items b = gone @ out \<and> length gone = n \<and>
       (\<forall>e \<in> set gone. saturating_add (fst e) (max_age_ms b) < now))"
proof
  have out: "out = live (max_age_ms b) now (items b)"
    and n: "n = length (items b) - length out"
    using assms(2) by (auto simp: backlog_drain_live)
  then show "\<forall>e \<in> set out. \<not> saturating_add (fst e) (max_age_ms b) < now"
    using sorted_live_fresh [OF assms(1)] by (auto simp: expired_def)
  let ?g = "takeWhile (expired (max_age_ms b) now) (items b)"
  have "items b = ?g @ out" by (simp add: out live_def)
  moreover from this have "length ?g = n" unfolding n by (metis add_diff_cancel_right' length_append)
  moreover have "\<forall>e \<in> set ?g. saturating_add (fst e) (max_age_ms b) < now"
    by (auto dest: set_takeWhileD simp: expired_def)
  ultimately show "\<exists>gone. items b = gone @ out \<and> length gone = n \<and>
      (\<forall>e \<in> set gone. saturating_add (fst e) (max_age_ms b) < now)" by blast
qed

theorem backlog_drain_fresh_witness:
  "\<exists>gone. [(0 :: u64, ''old''), (500, ''mid'')] = gone @ [(500, ''mid'')] \<and> length gone = 1 \<and>
     (\<forall>e \<in> set gone. saturating_add (fst e) 1000 < 1200)"
  using backlog_drain_fresh [of "\<lparr>items = [(0, ''old''), (500, ''mid'')], max_len = 10, max_age_ms = 1000\<rparr>" 1200]
  by (simp add: backlog_drain_def evict_expired_def expired_def saturating_add_def)

text \<open>
  The age limit does not hold for a queue whose stamps are out of order (a message
  whose attachment took long to download is queued behind a newer one): the eviction
  stops at the first fresh item, so an expired item behind it is handed out.
\<close>

theorem backlog_drain_hands_out_expired:
  "\<exists>b b' out n. fst (backlog_push 100 ''late'' 500 (fst (backlog_push 500 ''fresh'' 500
        (backlog_new 10 1000)))) = b \<and>
     backlog_drain 1200 b = (b', out, n) \<and> (100, ''late'') \<in> set out \<and>
     saturating_add 100 (max_age_ms b) < 1200"
  by (simp add: backlog_new_def backlog_push_def backlog_drain_def evict_expired_def expired_def
      saturating_add_def)

end
