(* ===== verification/Replay.thy ===== *)
theory Replay
  imports Silta_Prelude
begin

text \<open>
  Which inbound messages are delivered after a (re)start: the verdict of
  \<open>crates/silta/src/replay.rs\<close>, and the per-room watermarks of
  \<open>crates/siltad/src/daemon.rs\<close> (\<open>Marks\<close>) it is applied to. The plain \<open>+\<close> of the
  verdict is the wrapping addition of a release build; the file the marks are persisted
  to is not modelled, only the map.
\<close>

section \<open>The verdict\<close>

record watermark =
  ts_ms :: u64
  event_id :: string

datatype verdict_t =
    Deliver u64
  | AlreadyDelivered
  | TooOld

definition verdict :: "u64 \<Rightarrow> string \<Rightarrow> watermark option \<Rightarrow> u64 \<Rightarrow> u64 \<Rightarrow> verdict_t" where
  "verdict ts eid mark started window =
     (if (case mark of None \<Rightarrow> False
          | Some m \<Rightarrow> ts < ts_ms m \<or> ts = ts_ms m \<and> eid = event_id m)
      then AlreadyDelivered
      else if ts + window < started then TooOld
      else Deliver (saturating_sub started ts))"

section \<open>The watermarks\<close>

text \<open>
  \<open>Marks\<close> is the map and the text of its file, if there is one. \<open>from_str\<close> and \<open>to_string\<close>
  stand for serde_json on that map; \<open>ok\<close> says whether the write to the temporary file
  and the rename both succeeded (the file keeps its old text otherwise).
\<close>

record marks =
  mark_map :: "string \<rightharpoonup> watermark"
  mark_file :: "string option"

definition marks_load :: "(string \<Rightarrow> (string \<rightharpoonup> watermark) option) \<Rightarrow> string option \<Rightarrow> marks" where
  "marks_load from_str file =
     \<lparr>mark_map = (case file of None \<Rightarrow> Map.empty
                  | Some txt \<Rightarrow> (case from_str txt of Some m \<Rightarrow> m | None \<Rightarrow> Map.empty)),
      mark_file = file\<rparr>"

definition marks_get :: "string \<Rightarrow> marks \<Rightarrow> watermark option" where
  "marks_get room m = mark_map m room"

definition marks_set :: "((string \<rightharpoonup> watermark) \<Rightarrow> string) \<Rightarrow> bool \<Rightarrow> string \<Rightarrow> watermark \<Rightarrow> marks \<Rightarrow> marks" where
  "marks_set to_string ok room mark m =
     (if (case mark_map m room of None \<Rightarrow> False | Some current \<Rightarrow> ts_ms current > ts_ms mark)
      then m
      else let m1 = (mark_map m)(room \<mapsto> mark)
           in m\<lparr>mark_map := m1, mark_file := (if ok then Some (to_string m1) else mark_file m)\<rparr>)"

text \<open>The acknowledgements of a run, in order: the room and the mark of each event.\<close>

definition marks_run :: "((string \<rightharpoonup> watermark) \<Rightarrow> string) \<Rightarrow> (string \<times> watermark) list \<Rightarrow> marks \<Rightarrow> marks" where
  "marks_run to_string acks m = foldl (\<lambda>m (room, mark). marks_set to_string True room mark m) m acks"

section \<open>The verdict is the documented rule\<close>

text \<open>
  While the time stamp plus the window does not overflow, the verdict is the
  documented rule over the natural numbers: an event at or before the room's mark was
  delivered, one more than the window before the start is too old, and any other is
  delivered with the exact distance to the start, which is at most the window.
\<close>

theorem verdict_rule:
  assumes "unat ts + unat window < 2 ^ 64"
  shows "(verdict ts eid mark started window = AlreadyDelivered \<longleftrightarrow>
       (\<exists>m. mark = Some m \<and> (unat ts < unat (ts_ms m) \<or> ts = ts_ms m \<and> eid = event_id m))) \<and>
    (verdict ts eid mark started window = TooOld \<longleftrightarrow>
       verdict ts eid mark started window \<noteq> AlreadyDelivered \<and> unat ts + unat window < unat started) \<and>
    (\<forall>d. verdict ts eid mark started window = Deliver d \<longrightarrow>
       unat d = unat started - unat ts \<and> unat d \<le> unat window)"
proof -
  have sum: "unat (ts + window) = unat ts + unat window"
    using assms by (simp add: unat_add_exact)
  show ?thesis
    by (auto simp: verdict_def u64_nat sum split: option.splits if_splits)
qed

theorem verdict_rule_witness:
  "verdict 990000 ''$m'' (Some \<lparr>ts_ms = 980000, event_id = ''$x''\<rparr>) 1000000 300000 = Deliver 10000 \<and>
   unat (10000 :: u64) = unat (1000000 :: u64) - unat (990000 :: u64)"
  using verdict_rule [of 990000 300000 "''$m''" "Some \<lparr>ts_ms = 980000, event_id = ''$x''\<rparr>" 1000000]
  by (simp add: verdict_def saturating_sub_def)

text \<open>
  The addition wraps, so the largest window (what a configured number of seconds
  beyond the range of milliseconds saturates to) does not deliver everything: every
  message from before the start is refused as too old, as with no window at all.
\<close>

theorem verdict_largest_window_wraps:
  assumes "0 < ts" and "ts \<le> started" and "1000 < secs \<and> 2 ^ 64 \<le> unat secs * 1000"
  shows "verdict ts eid None started (saturating_mul secs 1000) = TooOld"
proof -
  have "saturating_mul secs 1000 = - 1"
    using assms(3) by (simp add: saturating_mul_def)
  moreover have "ts + - 1 < started"
  proof -
    have "unat (ts - 1) = unat ts - 1"
      using assms(1) by (intro unat_minus_one) auto
    moreover have "0 < unat ts"
      using assms(1) by (simp add: word_less_nat_alt)
    ultimately show ?thesis
      using assms(2) by (simp add: u64_nat)
  qed
  ultimately show ?thesis
    by (simp add: verdict_def)
qed

theorem verdict_largest_window_wraps_witness:
  "verdict 5 ''$m'' None 7 (saturating_mul (- 1) 1000) = TooOld"
  using verdict_largest_window_wraps [of 5 7 "- 1" "''$m''"] by (simp add: unat_max_word)

section \<open>The watermarks only move forward\<close>

lemma marks_run_simps:
  "marks_run ser [] m = m"
  "marks_run ser ((r, mk) # acks) m = marks_run ser acks (marks_set ser True r mk m)"
  by (simp_all add: marks_run_def)

lemma marks_run_append: "marks_run ser (xs @ ys) m = marks_run ser ys (marks_run ser xs m)"
  by (simp add: marks_run_def)

lemma marks_set_get:
  "marks_get room (marks_set ser ok r mk m) =
     (if r = room \<and> (case marks_get room m of None \<Rightarrow> True | Some c \<Rightarrow> ts_ms c \<le> ts_ms mk)
      then Some mk else marks_get room m)"
  by (auto simp: marks_set_def marks_get_def Let_def split: option.splits)

lemma marks_set_file:
  assumes "mark_file m = (if mark_map m = Map.empty then None else Some (ser (mark_map m)))"
  shows "mark_file (marks_set ser True r mk m) =
      (if mark_map (marks_set ser True r mk m) = Map.empty then None
       else Some (ser (mark_map (marks_set ser True r mk m))))"
  using assms by (auto simp: marks_set_def Let_def split: option.splits)

lemma marks_run_file:
  "mark_file m = (if mark_map m = Map.empty then None else Some (ser (mark_map m))) \<Longrightarrow>
   mark_file (marks_run ser acks m) =
      (if mark_map (marks_run ser acks m) = Map.empty then None
       else Some (ser (mark_map (marks_run ser acks m))))"
proof (induction acks arbitrary: m)
  case (Cons ack acks)
  then show ?case
    using marks_set_file [of m ser "fst ack" "snd ack", OF Cons.prems]
    by (cases ack) (simp add: marks_run_simps)
qed (simp add: marks_run_simps)

text \<open>
  The mark of a room after a run is the latest of its acknowledgements: none is later,
  and it is one of them.
\<close>

lemma marks_run_latest:
  assumes "mark_map m = Map.empty"
  shows "case marks_get room (marks_run ser acks m) of
      None \<Rightarrow> room \<notin> fst ` set acks
    | Some c \<Rightarrow> (room, c) \<in> set acks \<and> (\<forall>mk. (room, mk) \<in> set acks \<longrightarrow> ts_ms mk \<le> ts_ms c)"
proof (induction acks rule: rev_induct)
  case Nil
  then show ?case using assms by (simp add: marks_run_simps marks_get_def)
next
  case (snoc ack acks)
  then show ?case
    by (cases ack)
       (auto simp: marks_run_append marks_run_simps marks_set_get split: option.splits if_splits
         intro: order_trans rev_image_eqI)
qed

text \<open>
  C33: acknowledged events stay acknowledged over a restart. With every write successful
  and the file read back as written, the daemon that loads the file after any sequence of
  acknowledgements judges each of them already delivered, unless another event of the same
  room with the same time stamp holds the mark; and an event later than everything
  acknowledged in its room is never taken for a delivered one.
\<close>

theorem marks_survive_restart:
  assumes "run = marks_run to_string acks (marks_load from_str None)"
    and "from_str (to_string (mark_map run)) = Some (mark_map run)"
    and "again = marks_load from_str (mark_file run)"
  shows "marks_get room again = marks_get room run \<and>
    (\<forall>mk. (room, mk) \<in> set acks \<longrightarrow>
       verdict (ts_ms mk) (event_id mk) (marks_get room again) started window = AlreadyDelivered \<or>
       (\<exists>other. (room, other) \<in> set acks \<and> marks_get room again = Some other \<and>
          ts_ms other = ts_ms mk \<and> event_id other \<noteq> event_id mk)) \<and>
    ((\<forall>mk. (room, mk) \<in> set acks \<longrightarrow> ts_ms mk < ts) \<longrightarrow>
       verdict ts eid (marks_get room again) started window \<noteq> AlreadyDelivered)"
proof -
  let ?m0 = "marks_load from_str None"
  have m0: "mark_map ?m0 = Map.empty" "mark_file ?m0 = None"
    by (simp_all add: marks_load_def)
  have "mark_file run = (if mark_map run = Map.empty then None else Some (to_string (mark_map run)))"
    unfolding assms(1) by (rule marks_run_file) (simp add: m0)
  then have again: "marks_get room again = marks_get room run"
    by (auto simp: assms(3) marks_load_def marks_get_def assms(2) split: if_splits)
  have latest: "case marks_get room run of None \<Rightarrow> room \<notin> fst ` set acks
      | Some c \<Rightarrow> (room, c) \<in> set acks \<and> (\<forall>mk. (room, mk) \<in> set acks \<longrightarrow> ts_ms mk \<le> ts_ms c)"
    unfolding assms(1) by (rule marks_run_latest) (rule m0(1))
  then show ?thesis
    unfolding again
    by (cases "marks_get room run") (auto simp: verdict_def rev_image_eqI)
qed

theorem marks_survive_restart_witness:
  "verdict 9 ''$b'' (marks_get ''!r'' (marks_load (\<lambda>txt. Some [''!r'' \<mapsto> \<lparr>ts_ms = 9, event_id = txt\<rparr>])
     (mark_file (marks_run (\<lambda>m. case m ''!r'' of None \<Rightarrow> [] | Some w \<Rightarrow> event_id w)
       [(''!r'', \<lparr>ts_ms = 9, event_id = ''$b''\<rparr>), (''!r'', \<lparr>ts_ms = 5, event_id = ''$a''\<rparr>)]
       (marks_load (\<lambda>txt. Some [''!r'' \<mapsto> \<lparr>ts_ms = 9, event_id = txt\<rparr>]) None))))) 100 10 =
   AlreadyDelivered"
proof -
  let ?ser = "\<lambda>m. case m ''!r'' of None \<Rightarrow> [] | Some w \<Rightarrow> event_id w"
  let ?de = "\<lambda>txt. Some [''!r'' \<mapsto> \<lparr>ts_ms = 9, event_id = txt\<rparr>]"
  let ?acks = "[(''!r'', \<lparr>ts_ms = 9, event_id = ''$b''\<rparr>), (''!r'', \<lparr>ts_ms = 5, event_id = ''$a''\<rparr>)]"
  let ?run = "marks_run ?ser ?acks (marks_load ?de None)"
  have map: "mark_map ?run = [''!r'' \<mapsto> \<lparr>ts_ms = 9, event_id = ''$b''\<rparr>]"
    by (simp add: marks_run_simps marks_set_def marks_load_def Let_def)
  then have rt: "?de (?ser (mark_map ?run)) = Some (mark_map ?run)"
    unfolding map by simp
  have "marks_get ''!r'' (marks_load ?de (mark_file ?run)) = marks_get ''!r'' ?run"
    using marks_survive_restart [where from_str = ?de and to_string = ?ser and acks = ?acks and run = ?run
        and again = "marks_load ?de (mark_file ?run)" and room = "''!r''", OF refl rt refl]
    by (rule conjunct1)
  then show ?thesis
    by (simp add: map marks_get_def verdict_def)
qed

end
