(* ===== verification/Alert.thy ===== *)
theory Alert
  imports Silta_Prelude "HOL-Library.AList" "HOL-Library.List_Lexorder" "HOL-Library.Char_ord"
begin

text \<open>
  The alerts to the owner (\<open>crates/silta/src/alert.rs\<close>): which sessions are away or
  silent, and what the owner has been told. The \<open>HashMap\<close> of sessions is an association
  list with one entry per key, since \<open>tick\<close> enumerates and sorts the keys; an \<open>expect\<close>
  is a branch that returns \<open>None\<close>.
\<close>

section \<open>The data and the operations\<close>

definition REPEAT_MS :: u64 where
  "REPEAT_MS = 24 * 60 * 60 * 1000"

definition SILENT_REPEAT_MS :: u64 where
  "SILENT_REPEAT_MS = 60 * 60 * 1000"

datatype alert =
    Away string u64
  | Back string u64
  | Silent string string u64

record watch_state =
  disconnected_since :: "u64 option"
  alerted_at :: "u64 option"
  silent_alerted_at :: "u64 option"

record watch =
  grace_ms :: u64
  sessions :: "(string \<times> watch_state) list"

definition watch_new :: "string list \<Rightarrow> u64 \<Rightarrow> u64 \<Rightarrow> watch" where
  "watch_new names grace_secs now =
     \<lparr>grace_ms = saturating_mul grace_secs 1000,
      sessions = foldl (\<lambda>ss name. AList.update name
        \<lparr>disconnected_since = Some now, alerted_at = None, silent_alerted_at = None\<rparr> ss) [] names\<rparr>"

definition watch_enabled :: "watch \<Rightarrow> bool" where
  "watch_enabled w = (0 < grace_ms w)"

definition watch_connected :: "string \<Rightarrow> u64 \<Rightarrow> watch \<Rightarrow> watch \<times> alert option" where
  "watch_connected session now w =
     (case map_of (sessions w) session of
        None \<Rightarrow> (w, None)
      | Some state \<Rightarrow>
          (w\<lparr>sessions := AList.update session
               (state\<lparr>disconnected_since := None, alerted_at := None\<rparr>) (sessions w)\<rparr>,
           case (alerted_at state, disconnected_since state) of
             (Some _, Some since) \<Rightarrow> Some (Back session (saturating_sub now since))
           | _ \<Rightarrow> None))"

definition watch_disconnected :: "string \<Rightarrow> u64 \<Rightarrow> watch \<Rightarrow> watch" where
  "watch_disconnected session now w =
     (case map_of (sessions w) session of
        None \<Rightarrow> w
      | Some state \<Rightarrow>
          if disconnected_since state = None
          then w\<lparr>sessions := AList.update session (state\<lparr>disconnected_since := Some now\<rparr>) (sessions w)\<rparr>
          else w)"

text \<open>A rate limit: \<open>last.is_some_and(|at| now.saturating_sub(at) < every)\<close>.\<close>

definition recently :: "u64 \<Rightarrow> u64 \<Rightarrow> u64 option \<Rightarrow> bool" where
  "recently every now at = (case at of None \<Rightarrow> False | Some t \<Rightarrow> saturating_sub now t < every)"

fun tick_loop :: "u64 \<Rightarrow> u64 \<Rightarrow> string list \<Rightarrow> (string \<times> watch_state) list \<Rightarrow> alert list \<Rightarrow>
    ((string \<times> watch_state) list \<times> alert list) option" where
  "tick_loop grace now [] ss due = Some (ss, due)"
| "tick_loop grace now (name # names) ss due =
     (case map_of ss name of
        None \<Rightarrow> None
      | Some state \<Rightarrow>
          (case disconnected_since state of
             None \<Rightarrow> tick_loop grace now names ss due
           | Some since \<Rightarrow>
               if saturating_sub now since < grace then tick_loop grace now names ss due
               else if recently REPEAT_MS now (alerted_at state) then tick_loop grace now names ss due
               else tick_loop grace now names
                      (AList.update name (state\<lparr>alerted_at := Some now\<rparr>) ss)
                      (due @ [Away name since])))"

definition watch_tick :: "u64 \<Rightarrow> watch \<Rightarrow> (watch \<times> alert list) option" where
  "watch_tick now w =
     (if \<not> watch_enabled w then Some (w, [])
      else case tick_loop (grace_ms w) now (sort (map fst (sessions w))) (sessions w) [] of
             None \<Rightarrow> None
           | Some (ss, due) \<Rightarrow> Some (w\<lparr>sessions := ss\<rparr>, due))"

definition watch_silent :: "string \<Rightarrow> string \<Rightarrow> u64 \<Rightarrow> u64 \<Rightarrow> watch \<Rightarrow> watch \<times> alert option" where
  "watch_silent session room delivered now w =
     (if \<not> watch_enabled w then (w, None)
      else case map_of (sessions w) session of
             None \<Rightarrow> (w, None)
           | Some state \<Rightarrow>
               if recently SILENT_REPEAT_MS now (silent_alerted_at state) then (w, None)
               else (w\<lparr>sessions := AList.update session (state\<lparr>silent_alerted_at := Some now\<rparr>) (sessions w)\<rparr>,
                     Some (Silent session room delivered)))"

section \<open>Histories and what the owner sees\<close>

datatype watch_op =
    Connected string u64
  | Disconnected string u64
  | Tick u64
  | SilentSession string string u64 u64

fun watch_step :: "watch_op \<Rightarrow> watch \<Rightarrow> (watch \<times> (u64 \<times> alert) list) option" where
  "watch_step (Connected session now) w =
     (let (w1, a) = watch_connected session now w
      in Some (w1, case a of None \<Rightarrow> [] | Some x \<Rightarrow> [(now, x)]))"
| "watch_step (Disconnected session now) w = Some (watch_disconnected session now w, [])"
| "watch_step (Tick now) w =
     (case watch_tick now w of None \<Rightarrow> None | Some (w1, due) \<Rightarrow> Some (w1, map (Pair now) due))"
| "watch_step (SilentSession session room delivered now) w =
     (let (w1, a) = watch_silent session room delivered now w
      in Some (w1, case a of None \<Rightarrow> [] | Some x \<Rightarrow> [(now, x)]))"

fun watch_run :: "watch_op list \<Rightarrow> watch \<Rightarrow> (watch \<times> (u64 \<times> alert) list) option" where
  "watch_run [] w = Some (w, [])"
| "watch_run (op # ops) w =
     (case watch_step op w of
        None \<Rightarrow> None
      | Some (w1, as1) \<Rightarrow>
          (case watch_run ops w1 of None \<Rightarrow> None | Some (w2, as2) \<Rightarrow> Some (w2, as1 @ as2)))"

text \<open>
  The owner's view of one session: the time of the last away alert not yet answered by a
  note that it is back, and the time of the last silent alert. \<open>owner_view\<close> reads the
  alerts of a session in order: an away alert comes at least a day after the previous
  one unless the session was reported back, a note that it is back only follows an away
  alert, a silent alert comes at least an hour after the previous one.
\<close>

fun owner_view :: "string \<Rightarrow> u64 option \<Rightarrow> u64 option \<Rightarrow> (u64 \<times> alert) list \<Rightarrow> bool" where
  "owner_view s told quiet [] = True"
| "owner_view s told quiet ((now, Away n since) # as) =
     (if n = s
      then (case told of None \<Rightarrow> True | Some at \<Rightarrow> unat at + unat REPEAT_MS \<le> unat now) \<and>
           owner_view s (Some now) quiet as
      else owner_view s told quiet as)"
| "owner_view s told quiet ((now, Back n away) # as) =
     (if n = s then told \<noteq> None \<and> owner_view s None quiet as else owner_view s told quiet as)"
| "owner_view s told quiet ((now, Silent n room delivered) # as) =
     (if n = s
      then (case quiet of None \<Rightarrow> True | Some at \<Rightarrow> unat at + unat SILENT_REPEAT_MS \<le> unat now) \<and>
           owner_view s told (Some now) as
      else owner_view s told quiet as)"

text \<open>When an away alert of a session is due, with the time it went away.\<close>

definition away_due :: "u64 \<Rightarrow> u64 \<Rightarrow> watch_state \<Rightarrow> u64 option" where
  "away_due grace now st =
     (case disconnected_since st of
        None \<Rightarrow> None
      | Some since \<Rightarrow>
          if saturating_sub now since < grace \<or> recently REPEAT_MS now (alerted_at st) then None
          else Some since)"

definition due_alerts :: "u64 \<Rightarrow> u64 \<Rightarrow> (string \<times> watch_state) list \<Rightarrow> string \<Rightarrow> alert list" where
  "due_alerts grace now ss n =
     (case map_of ss n of
        None \<Rightarrow> []
      | Some st \<Rightarrow> (case away_due grace now st of None \<Rightarrow> [] | Some since \<Rightarrow> [Away n since]))"

definition told :: "u64 \<Rightarrow> u64 \<Rightarrow> watch_state \<Rightarrow> watch_state" where
  "told grace now st = (if away_due grace now st = None then st else st\<lparr>alerted_at := Some now\<rparr>)"

section \<open>The tick is one pass over the sessions\<close>

lemma tick_loop_step:
  "map_of ss name = Some st \<Longrightarrow>
   tick_loop grace now (name # names) ss due =
     (case away_due grace now st of
        None \<Rightarrow> tick_loop grace now names ss due
      | Some since \<Rightarrow> tick_loop grace now names
          (AList.update name (st\<lparr>alerted_at := Some now\<rparr>) ss) (due @ [Away name since]))"
  by (simp add: away_due_def split: option.splits)

lemma keys_update_present:
  "map_of ss name = Some st \<Longrightarrow> map fst (AList.update name v ss) = map fst ss"
  by (metis map_of_eq_None_iff option.distinct(1) set_map update_keys)

lemma tick_loop_eq:
  assumes "distinct names" and "\<forall>n \<in> set names. map_of ss n \<noteq> None"
  shows "\<exists>ss'. tick_loop grace now names ss due =
      Some (ss', due @ concat (map (due_alerts grace now ss) names)) \<and>
    map fst ss' = map fst ss \<and>
    map_of ss' = (\<lambda>n. if n \<in> set names then map_option (told grace now) (map_of ss n) else map_of ss n)"
  using assms
proof (induction names arbitrary: ss due)
  case Nil
  then show ?case by auto
next
  case (Cons name names)
  then obtain st where st: "map_of ss name = Some st" by auto
  show ?case
  proof (cases "away_due grace now st")
    case None
    with Cons.IH [of ss due] Cons.prems st show ?thesis
      by (auto simp: tick_loop_step due_alerts_def told_def fun_eq_iff simp del: tick_loop.simps)
  next
    case (Some since)
    let ?ss = "AList.update name (st\<lparr>alerted_at := Some now\<rparr>) ss"
    have same: "map (due_alerts grace now ?ss) names = map (due_alerts grace now ss) names"
      using Cons.prems(1) by (auto simp: update_conv' due_alerts_def)
    have "\<forall>n \<in> set names. map_of ?ss n \<noteq> None"
      using Cons.prems(2) by (auto simp: update_conv')
    then obtain ss' where "tick_loop grace now names ?ss (due @ [Away name since]) =
        Some (ss', (due @ [Away name since]) @ concat (map (due_alerts grace now ss) names))"
      "map fst ss' = map fst ?ss"
      "map_of ss' = (\<lambda>n. if n \<in> set names then map_option (told grace now) (map_of ?ss n) else map_of ?ss n)"
      using Cons.IH [of ?ss "due @ [Away name since]"] Cons.prems(1) by (auto simp: same)
    moreover have "due_alerts grace now ss name = [Away name since]"
      by (simp add: due_alerts_def st Some)
    moreover have "told grace now st = st\<lparr>alerted_at := Some now\<rparr>"
      by (simp add: told_def Some)
    ultimately show ?thesis
      using st Some Cons.prems(1)
      by (intro exI [of _ ss'])
         (auto simp: tick_loop_step fun_eq_iff update_conv' keys_update_present simp del: tick_loop.simps)
  qed
qed

lemma watch_tick_eq:
  assumes "distinct (map fst (sessions w))"
  shows "\<exists>w'. watch_tick now w = Some (w', if watch_enabled w
      then concat (map (due_alerts (grace_ms w) now (sessions w)) (sort (map fst (sessions w)))) else []) \<and>
    grace_ms w' = grace_ms w \<and> map fst (sessions w') = map fst (sessions w) \<and>
    map_of (sessions w') = (\<lambda>n. if watch_enabled w
      then map_option (told (grace_ms w) now) (map_of (sessions w) n) else map_of (sessions w) n)"
proof (cases "watch_enabled w")
  case True
  let ?names = "sort (map fst (sessions w))"
  have "\<forall>n \<in> set ?names. map_of (sessions w) n \<noteq> None"
    by (auto simp: map_of_eq_None_iff)
  then obtain ss where "tick_loop (grace_ms w) now ?names (sessions w) [] =
      Some (ss, concat (map (due_alerts (grace_ms w) now (sessions w)) ?names))"
    "map fst ss = map fst (sessions w)"
    "map_of ss = (\<lambda>n. if n \<in> set ?names then map_option (told (grace_ms w) now) (map_of (sessions w) n)
                      else map_of (sessions w) n)"
    using tick_loop_eq [of ?names "sessions w" "grace_ms w" now "[]"] assms by auto
  with True show ?thesis
    by (intro exI [of _ "w\<lparr>sessions := ss\<rparr>"])
       (auto simp: watch_tick_def fun_eq_iff map_of_eq_None_iff [THEN iffD2])
qed (simp add: watch_tick_def)

section \<open>Properties\<close>

text \<open>
  A tick never panics and is exactly one pass: it reports, in the order of the
  session names, every session away for at least the grace period and not reported in the
  last day, marks those as reported at this time and changes nothing else.
\<close>

theorem watch_tick_exact:
  assumes "distinct (map fst (sessions w))"
  shows "\<exists>w'. watch_tick now w = Some (w', if watch_enabled w
      then concat (map (due_alerts (grace_ms w) now (sessions w)) (sort (map fst (sessions w)))) else []) \<and>
    grace_ms w' = grace_ms w \<and> map fst (sessions w') = map fst (sessions w) \<and>
    map_of (sessions w') = (\<lambda>n. if watch_enabled w
      then map_option (told (grace_ms w) now) (map_of (sessions w) n) else map_of (sessions w) n)"
  using assms by (rule watch_tick_eq)

theorem watch_tick_exact_witness:
  "\<exists>w'. watch_tick 400000 (watch_new [''hub'', ''alice''] 300 0) =
     Some (w', [Away ''alice'' 0, Away ''hub'' 0])"
  using watch_tick_exact [of "watch_new [''hub'', ''alice''] 300 0" 400000]
  by (auto simp: watch_new_def watch_enabled_def due_alerts_def away_due_def recently_def
      saturating_mul_def saturating_sub_def)

section \<open>The owner's view over a history\<close>

text \<open>
  How the state of a session is tied to what the owner has seen of it, in a table with one
  entry per session; an owner told it is away implies it is away.
\<close>

definition seen_by_owner :: "watch \<Rightarrow> string \<Rightarrow> u64 option \<Rightarrow> u64 option \<Rightarrow> bool" where
  "seen_by_owner w s away quiet \<longleftrightarrow> distinct (map fst (sessions w)) \<and>
     (case map_of (sessions w) s of
        None \<Rightarrow> away = None \<and> quiet = None
      | Some st \<Rightarrow> alerted_at st = away \<and> silent_alerted_at st = quiet \<and>
          (away \<noteq> None \<longrightarrow> disconnected_since st \<noteq> None))"

lemma not_recently:
  "\<not> recently every now at \<Longrightarrow> 0 < unat every \<Longrightarrow>
   (case at of None \<Rightarrow> True | Some t \<Rightarrow> unat t + unat every \<le> unat now)"
  by (auto simp: recently_def u64_nat split: option.splits)

lemma repeat_pos: "0 < unat REPEAT_MS" "0 < unat SILENT_REPEAT_MS"
  by (simp_all add: REPEAT_MS_def SILENT_REPEAT_MS_def)

lemma owner_view_tick:
  assumes "distinct names"
  shows "owner_view s away quiet (map (Pair now) (concat (map (due_alerts g now ss) names)) @ rest) =
    (if s \<in> set names \<and> due_alerts g now ss s \<noteq> []
     then (case away of None \<Rightarrow> True | Some at \<Rightarrow> unat at + unat REPEAT_MS \<le> unat now) \<and>
          owner_view s (Some now) quiet rest
     else owner_view s away quiet rest)"
  using assms
  by (induction names arbitrary: away) (auto simp: due_alerts_def split: option.splits)

lemma watch_step_view:
  assumes "seen_by_owner w s away quiet"
  shows "\<exists>w' as away' quiet'. watch_step op w = Some (w', as) \<and> seen_by_owner w' s away' quiet' \<and>
    grace_ms w' = grace_ms w \<and>
    (\<forall>rest. owner_view s away' quiet' rest \<longrightarrow> owner_view s away quiet (as @ rest))"
proof (cases op)
  case (Connected n now)
  then show ?thesis
    using assms
    by (cases "n = s"; cases "map_of (sessions w) n")
       (auto simp: watch_connected_def seen_by_owner_def update_conv' distinct_update
          simp del: map_of_eq_Some_iff split: option.splits)
next
  case (Disconnected n now)
  then show ?thesis
    using assms
    by (cases "n = s"; cases "map_of (sessions w) n")
       (auto simp: watch_disconnected_def seen_by_owner_def update_conv' distinct_update
          simp del: map_of_eq_Some_iff split: option.splits)
next
  case (Tick now)
  have d: "distinct (map fst (sessions w))"
    using assms by (simp add: seen_by_owner_def)
  obtain w' where w': "watch_tick now w = Some (w', if watch_enabled w
      then concat (map (due_alerts (grace_ms w) now (sessions w)) (sort (map fst (sessions w)))) else [])"
    "grace_ms w' = grace_ms w" "map fst (sessions w') = map fst (sessions w)"
    "map_of (sessions w') = (\<lambda>n. if watch_enabled w
      then map_option (told (grace_ms w) now) (map_of (sessions w) n) else map_of (sessions w) n)"
    using watch_tick_eq [OF d] by blast
  show ?thesis
  proof (cases "watch_enabled w \<and> due_alerts (grace_ms w) now (sessions w) s \<noteq> []")
    case True
    then obtain st since where st: "map_of (sessions w) s = Some st" "away_due (grace_ms w) now st = Some since"
      by (auto simp: due_alerts_def split: option.splits)
    then have "\<not> recently REPEAT_MS now away" and since: "disconnected_since st = Some since"
      using assms by (auto simp: away_due_def seen_by_owner_def split: option.splits if_splits)
    then have rate: "case away of None \<Rightarrow> True | Some at \<Rightarrow> unat at + unat REPEAT_MS \<le> unat now"
      using not_recently repeat_pos by blast
    have "seen_by_owner w' s (Some now) quiet"
      using assms True st since w' by (auto simp: seen_by_owner_def told_def)
    show ?thesis
    proof (intro exI conjI)
      let ?as = "map (Pair now) (concat (map (due_alerts (grace_ms w) now (sessions w))
          (sort (map fst (sessions w)))))"
      show "watch_step op w = Some (w', ?as)"
        using Tick True w'(1) by simp
      show "\<forall>rest. owner_view s (Some now) quiet rest \<longrightarrow> owner_view s away quiet (?as @ rest)"
        using True rate d st by (auto simp: owner_view_tick image_iff split: option.splits)
    qed fact+
  next
    case False
    show ?thesis
    proof (intro exI conjI)
      let ?as = "map (Pair now) (if watch_enabled w then concat (map (due_alerts (grace_ms w) now (sessions w))
          (sort (map fst (sessions w)))) else [])"
      show "watch_step op w = Some (w', ?as)"
        using Tick w'(1) by simp
      show "seen_by_owner w' s away quiet"
        using assms w' False by (cases "map_of (sessions w) s")
          (auto simp: seen_by_owner_def told_def due_alerts_def simp del: map_of_eq_Some_iff split: option.splits)
      show "\<forall>rest. owner_view s away quiet rest \<longrightarrow> owner_view s away quiet (?as @ rest)"
        using False d by (simp add: owner_view_tick)
    qed fact
  qed
next
  case (SilentSession n room delivered now)
  then show ?thesis
    using assms not_recently [of SILENT_REPEAT_MS now quiet] repeat_pos
    by (cases "n = s"; cases "map_of (sessions w) n")
       (auto simp: watch_silent_def seen_by_owner_def update_conv' distinct_update
          simp del: map_of_eq_Some_iff split: option.splits)
qed

lemma watch_run_view:
  assumes "seen_by_owner w s away quiet"
  shows "\<exists>w' as. watch_run ops w = Some (w', as) \<and> owner_view s away quiet as"
  using assms
proof (induction ops arbitrary: w away quiet)
  case Nil
  then show ?case by simp
next
  case (Cons op ops)
  obtain w1 as1 away1 quiet1 where step: "watch_step op w = Some (w1, as1)"
    "seen_by_owner w1 s away1 quiet1"
    "\<And>rest. owner_view s away1 quiet1 rest \<Longrightarrow> owner_view s away quiet (as1 @ rest)"
    using watch_step_view [OF Cons.prems] by blast
  obtain w2 as2 where "watch_run ops w1 = Some (w2, as2)" "owner_view s away1 quiet1 as2"
    using Cons.IH [OF step(2)] by blast
  with step(1,3) show ?case by simp
qed

text \<open>With a grace period of 0 nothing is ever reported: no alert was ever recorded.\<close>

lemma watch_run_disabled:
  assumes "watch_run ops w = Some (w', as)" and "\<not> watch_enabled w"
    and "\<forall>st \<in> ran (map_of (sessions w)). alerted_at st = None"
  shows "as = []"
  using assms
proof (induction ops arbitrary: w as)
  case Nil
  then show ?case by simp
next
  case (Cons op ops)
  from Cons.prems(1) obtain w1 as1 as2 where step: "watch_step op w = Some (w1, as1)"
    and run: "watch_run ops w1 = Some (w', as2)" and as: "as = as1 @ as2"
    by (auto split: option.splits)
  have quiet: "map_of (sessions w) n = Some st \<Longrightarrow> alerted_at st = None" for n st
    using Cons.prems(3) by (auto simp: ran_def)
  have "as1 = [] \<and> \<not> watch_enabled w1 \<and> (\<forall>st \<in> ran (map_of (sessions w1)). alerted_at st = None)"
    using step Cons.prems(2) quiet
    by (cases op)
       (auto simp: watch_connected_def watch_disconnected_def watch_tick_def watch_silent_def
          watch_enabled_def ran_def update_conv' split: option.splits if_splits prod.splits)
  with Cons.IH [OF run] as show ?case by simp
qed

lemma watch_new_state:
  "map_of (foldl (\<lambda>ss name. AList.update name st ss) ss names) n =
     (if n \<in> set names then Some st else map_of ss n)"
  by (induction names arbitrary: ss) (auto simp: update_conv')

lemma watch_new_distinct:
  "distinct (map fst ss) \<Longrightarrow> distinct (map fst (foldl (\<lambda>ss name. AList.update name st ss) ss names))"
  by (induction names arbitrary: ss) (auto simp: distinct_update)



end
