(* ===== verification/Rust_Str.thy ===== *)
theory Rust_Str
  imports Silta_Prelude
begin

text \<open>
  What the sources use of Rust's strings. A \<open>String\<close> or \<open>&str\<close> is the list of its UTF-8
  bytes (a HOL \<open>char\<close> is a byte, so \<open>length\<close> is \<open>len()\<close>); \<open>chars\<close> cuts it into its
  characters, each a byte and the continuation bytes after it. Functions that work on
  characters take a \<open>ustr\<close>, the list of characters, and \<open>concat\<close> is the string again.
\<close>

type_synonym uchar = string
type_synonym ustr = "uchar list"

section \<open>Bytes and characters\<close>

definition byte :: "char \<Rightarrow> nat" where
  "byte c = of_char c"

definition is_cont :: "char \<Rightarrow> bool" where
  "is_cont c = (0x80 \<le> byte c \<and> byte c < 0xC0)"

function chars :: "string \<Rightarrow> ustr" where
  "chars [] = []"
| "chars (c # cs) = (c # takeWhile is_cont cs) # chars (dropWhile is_cont cs)"
  by pat_completeness auto
termination
  by (relation "measure length") (auto simp: le_imp_less_Suc length_dropWhile_le)

text \<open>\<open>char::is_whitespace\<close>: the characters with the Unicode property \<open>White_Space\<close>.\<close>

definition is_whitespace :: "uchar \<Rightarrow> bool" where
  "is_whitespace u =
     (case map byte u of
        [a] \<Rightarrow> 0x09 \<le> a \<and> a \<le> 0x0D \<or> a = 0x20
      | [a, b] \<Rightarrow> a = 0xC2 \<and> (b = 0x85 \<or> b = 0xA0)
      | [a, b, c] \<Rightarrow>
          a = 0xE1 \<and> b = 0x9A \<and> c = 0x80 \<or>
          a = 0xE2 \<and> b = 0x80 \<and> (0x80 \<le> c \<and> c \<le> 0x8A \<or> c = 0xA8 \<or> c = 0xA9 \<or> c = 0xAF) \<or>
          a = 0xE2 \<and> b = 0x81 \<and> c = 0x9F \<or>
          a = 0xE3 \<and> b = 0x80 \<and> c = 0x80
      | _ \<Rightarrow> False)"

text \<open>\<open>char::is_control\<close>: the general category Cc.\<close>

definition is_control :: "uchar \<Rightarrow> bool" where
  "is_control u =
     (case map byte u of
        [a] \<Rightarrow> a < 0x20 \<or> a = 0x7F
      | [a, b] \<Rightarrow> a = 0xC2 \<and> 0x80 \<le> b \<and> b \<le> 0x9F
      | _ \<Rightarrow> False)"

definition is_ascii_digit :: "uchar \<Rightarrow> bool" where
  "is_ascii_digit u = (case map byte u of [a] \<Rightarrow> 0x30 \<le> a \<and> a \<le> 0x39 | _ \<Rightarrow> False)"

definition is_ascii_alphanumeric :: "uchar \<Rightarrow> bool" where
  "is_ascii_alphanumeric u =
     (case map byte u of
        [a] \<Rightarrow> 0x30 \<le> a \<and> a \<le> 0x39 \<or> 0x41 \<le> a \<and> a \<le> 0x5A \<or> 0x61 \<le> a \<and> a \<le> 0x7A
      | _ \<Rightarrow> False)"

text \<open>\<open>str::from_utf8\<close>: the well-formed byte sequences.\<close>

fun utf8_valid :: "nat list \<Rightarrow> bool" where
  "utf8_valid [] = True"
| "utf8_valid (a # bs) =
     (if a < 0x80 then utf8_valid bs
      else case bs of
        [] \<Rightarrow> False
      | b # cs \<Rightarrow>
          if 0xC2 \<le> a \<and> a \<le> 0xDF then 0x80 \<le> b \<and> b \<le> 0xBF \<and> utf8_valid cs
          else case cs of
            [] \<Rightarrow> False
          | c # ds \<Rightarrow>
              if 0xE0 \<le> a \<and> a \<le> 0xEF
              then (if a = 0xE0 then 0xA0 \<le> b \<and> b \<le> 0xBF
                    else if a = 0xED then 0x80 \<le> b \<and> b \<le> 0x9F
                    else 0x80 \<le> b \<and> b \<le> 0xBF) \<and> 0x80 \<le> c \<and> c \<le> 0xBF \<and> utf8_valid ds
              else case ds of
                [] \<Rightarrow> False
              | d # es \<Rightarrow>
                  0xF0 \<le> a \<and> a \<le> 0xF4 \<and>
                  (if a = 0xF0 then 0x90 \<le> b \<and> b \<le> 0xBF
                   else if a = 0xF4 then 0x80 \<le> b \<and> b \<le> 0x8F
                   else 0x80 \<le> b \<and> b \<le> 0xBF) \<and>
                  0x80 \<le> c \<and> c \<le> 0xBF \<and> 0x80 \<le> d \<and> d \<le> 0xBF \<and> utf8_valid es)"

definition from_utf8 :: "string \<Rightarrow> string option" where
  "from_utf8 bs = (if utf8_valid (map byte bs) then Some bs else None)"

section \<open>Trimming, prefixes and splitting\<close>

definition trim_start_u :: "ustr \<Rightarrow> ustr" where
  "trim_start_u s = dropWhile is_whitespace s"

definition trim_end_u :: "ustr \<Rightarrow> ustr" where
  "trim_end_u s = rev (dropWhile is_whitespace (rev s))"

definition trim_u :: "ustr \<Rightarrow> ustr" where
  "trim_u s = trim_end_u (trim_start_u s)"

definition trim :: "string \<Rightarrow> string" where
  "trim s = concat (trim_u (chars s))"

definition trim_end :: "string \<Rightarrow> string" where
  "trim_end s = concat (trim_end_u (chars s))"

definition starts_with :: "'a list \<Rightarrow> 'a list \<Rightarrow> bool" where
  "starts_with p s = (take (length p) s = p)"

definition ends_with :: "'a list \<Rightarrow> 'a list \<Rightarrow> bool" where
  "ends_with p s = (length p \<le> length s \<and> drop (length s - length p) s = p)"

definition strip_prefix :: "'a list \<Rightarrow> 'a list \<Rightarrow> 'a list option" where
  "strip_prefix p s = (if starts_with p s then Some (drop (length p) s) else None)"

definition strip_suffix :: "'a list \<Rightarrow> 'a list \<Rightarrow> 'a list option" where
  "strip_suffix p s = (if ends_with p s then Some (take (length s - length p) s) else None)"

text \<open>\<open>split(c)\<close>, always with at least one piece, and \<open>split_inclusive(c)\<close>, whose pieces keep \<open>c\<close>.\<close>

fun split_on :: "'a \<Rightarrow> 'a list \<Rightarrow> 'a list list" where
  "split_on c [] = [[]]"
| "split_on c (x # xs) =
     (if x = c then [] # split_on c xs
      else case split_on c xs of [] \<Rightarrow> [[x]] | p # ps \<Rightarrow> (x # p) # ps)"

fun split_inclusive :: "'a \<Rightarrow> 'a list \<Rightarrow> 'a list list" where
  "split_inclusive c [] = []"
| "split_inclusive c (x # xs) =
     (if x = c then [x] # split_inclusive c xs
      else case split_inclusive c xs of [] \<Rightarrow> [[x]] | p # ps \<Rightarrow> (x # p) # ps)"

fun join :: "'a list \<Rightarrow> 'a list list \<Rightarrow> 'a list" where
  "join sep [] = []"
| "join sep [p] = p"
| "join sep (p # q # ps) = p @ sep @ join sep (q # ps)"

text \<open>\<open>split_whitespace()\<close>: the maximal runs of characters that are not white space.\<close>

function split_whitespace_u :: "ustr \<Rightarrow> ustr list" where
  "split_whitespace_u [] = []"
| "split_whitespace_u (u # us) =
     (if is_whitespace u then split_whitespace_u us
      else (u # takeWhile (\<lambda>v. \<not> is_whitespace v) us) #
             split_whitespace_u (dropWhile (\<lambda>v. \<not> is_whitespace v) us))"
  by pat_completeness auto
termination
  by (relation "measure length") (auto simp: le_imp_less_Suc length_dropWhile_le)

text \<open>The newline as a byte.\<close>

definition NL :: char where
  "NL = CHR 0x0A"

section \<open>Numbers in decimal\<close>

definition digit :: "nat \<Rightarrow> char" where
  "digit d = char_of (48 + d mod 10)"

fun dec :: "nat \<Rightarrow> string" where
  "dec n = (if n < 10 then [digit n] else dec (n div 10) @ [digit (n mod 10)])"

declare dec.simps [simp del]

text \<open>\<open>{:0w}\<close>: padded with zeros on the left to at least \<open>w\<close> digits.\<close>

definition zpad :: "nat \<Rightarrow> nat \<Rightarrow> string" where
  "zpad w n = replicate (w - length (dec n)) (CHR ''0'') @ dec n"

section \<open>Facts\<close>

lemma concat_chars [simp]: "concat (chars s) = s"
  by (induction s rule: chars.induct) auto

lemma chars_nonempty: "u \<in> set (chars s) \<Longrightarrow> u \<noteq> []"
  by (induction s rule: chars.induct) auto

lemma split_on_nonempty [simp]: "split_on c xs \<noteq> []"
  by (induction xs) (auto split: list.splits)

lemma join_split_on: "join [c] (split_on c xs) = xs"
proof (induction xs)
  case (Cons x xs)
  then show ?case
    by (cases "split_on c xs"; cases "tl (split_on c xs)") auto
qed simp

lemma split_on_no_sep: "p \<in> set (split_on c xs) \<Longrightarrow> c \<notin> set p"
  by (induction xs arbitrary: p) (auto split: list.splits if_splits)

lemma concat_split_inclusive [simp]: "concat (split_inclusive c xs) = xs"
  by (induction xs) (auto split: list.splits)

lemma split_inclusive_nonempty: "p \<in> set (split_inclusive c xs) \<Longrightarrow> p \<noteq> []"
  by (induction xs arbitrary: p) (auto split: list.splits if_splits)

lemma trim_end_u_prefix: "\<exists>ws. s = trim_end_u s @ ws \<and> (\<forall>u \<in> set ws. is_whitespace u)"
proof -
  have "s = rev (takeWhile is_whitespace (rev s) @ dropWhile is_whitespace (rev s))"
    by simp
  then have "s = trim_end_u s @ rev (takeWhile is_whitespace (rev s))"
    unfolding trim_end_u_def rev_append by simp
  then show ?thesis
    by (metis set_rev set_takeWhileD)
qed

lemma trim_end_u_last: "trim_end_u s \<noteq> [] \<Longrightarrow> \<not> is_whitespace (last (trim_end_u s))"
  by (simp add: trim_end_u_def last_rev hd_dropWhile)

lemma trim_end_u_Nil: "trim_end_u s = [] \<longleftrightarrow> (\<forall>u \<in> set s. is_whitespace u)"
  by (auto simp: trim_end_u_def dropWhile_eq_Nil_conv)

lemma trim_u_Nil: "trim_u s = [] \<longleftrightarrow> (\<forall>u \<in> set s. is_whitespace u)"
  by (metis dropWhile_append1 dropWhile_eq_Nil_conv dropWhile_idem hd_dropWhile list.set_sel(1)
      trim_end_u_Nil trim_start_u_def trim_u_def)

lemma length_dec: "n < 10 ^ w \<Longrightarrow> 0 < w \<Longrightarrow> length (dec n) \<le> w"
proof (induction w arbitrary: n)
  case (Suc w)
  show ?case
  proof (cases "n < 10")
    case False
    then have "0 < w" "n div 10 < 10 ^ w"
      using Suc.prems by (auto simp: less_mult_imp_div_less ac_simps) (metis gr0I power_0 mult.right_neutral)
    with Suc.IH [of "n div 10"] False show ?thesis
      by (simp add: dec.simps [of n])
  qed (simp add: dec.simps)
qed simp

lemma length_zpad: "n < 10 ^ w \<Longrightarrow> 0 < w \<Longrightarrow> length (zpad w n) = w"
  using length_dec [of n w] by (simp add: zpad_def)

end
