(* ===== verification/Protocol.thy ===== *)
theory Protocol
  imports Rust_Str
begin

text \<open>
  The messages of the socket protocol, version 4 (\<open>crates/silta/src/protocol.rs\<close>), as
  records and datatypes with the source's fields and variants, the constructors of
  command results, and the classification of one client line. The JSON text, its parser
  and the derived (de)serialisers belong to serde and are parameters; a JSON value is a
  datatype, an object the list of its entries in the map's order.
\<close>

section \<open>Messages\<close>

definition PROTOCOL_VERSION :: u32 where
  "PROTOCOL_VERSION = 4"

definition MAX_LINE_BYTES :: nat where
  "MAX_LINE_BYTES = 16 * 1024 * 1024"

record file_header =
  fh_transfer :: string
  fh_name :: string
  fh_mime :: string
  fh_size :: u64

record file_chunk =
  fc_transfer :: string
  fc_data :: string

record file_end =
  fe_transfer :: string

record ack =
  ack_event_id :: string

record hello =
  hello_protocol :: u32
  hello_session :: string
  hello_client :: string

datatype role = Owner | Family

definition role_as_str :: "role \<Rightarrow> string" where
  "role_as_str r = (case r of Owner \<Rightarrow> ''owner'' | Family \<Rightarrow> ''family'')"

record person =
  person_name :: string
  person_role :: role

record welcome_msg =
  welcome_protocol :: u32
  welcome_session :: string
  welcome_user_id :: string
  welcome_people :: "person list"
  welcome_inbox_max_age_days :: u64

datatype error_code =
    EC_ProtocolMismatch
  | EC_UnknownSession
  | EC_SessionBusy
  | EC_BadRequest
  | EC_WrongUser

definition error_code_as_str :: "error_code \<Rightarrow> string" where
  "error_code_as_str c =
     (case c of
        EC_ProtocolMismatch \<Rightarrow> ''protocol_mismatch''
      | EC_UnknownSession \<Rightarrow> ''unknown_session''
      | EC_SessionBusy \<Rightarrow> ''session_busy''
      | EC_BadRequest \<Rightarrow> ''bad_request''
      | EC_WrongUser \<Rightarrow> ''wrong_user'')"

record protocol_error =
  pe_code :: error_code
  pe_message :: string

datatype event_kind = EK_Message | EK_Reaction

definition event_kind_as_str :: "event_kind \<Rightarrow> string" where
  "event_kind_as_str k = (case k of EK_Message \<Rightarrow> ''message'' | EK_Reaction \<Rightarrow> ''reaction'')"

datatype room_kind = Dm | Group

definition room_kind_as_str :: "room_kind \<Rightarrow> string" where
  "room_kind_as_str k = (case k of Dm \<Rightarrow> ''dm'' | Group \<Rightarrow> ''group'')"

record attachment =
  att_transfer :: string
  att_name :: string
  att_mime :: string
  att_size :: u64

record event =
  ev_kind :: event_kind
  ev_person :: string
  ev_role :: role
  ev_sender :: string
  ev_room_id :: string
  ev_room :: room_kind
  ev_event_id :: string
  ev_ts :: string
  ev_in_reply_to :: "string option"
  ev_thread :: "string option"
  ev_reacts_to :: "string option"
  ev_text :: string
  ev_transcribed :: bool
  ev_attachments :: "attachment list"

record reply =
  rp_room_id :: string
  rp_text :: string
  rp_reply_to :: "string option"
  rp_thread :: "string option"
  rp_more :: bool

record react =
  rc_room_id :: string
  rc_event_id :: string
  rc_emoji :: string
  rc_more :: bool

record edit =
  ed_room_id :: string
  ed_event_id :: string
  ed_text :: string
  ed_more :: bool

record send_file =
  sf_room_id :: string
  sf_transfer :: string
  sf_caption :: "string option"
  sf_reply_to :: "string option"
  sf_thread :: "string option"
  sf_more :: bool

record typing =
  ty_room_id :: string

record fetch_messages =
  fm_room_id :: string
  fm_limit :: "u32 option"
  fm_from :: "string option"

record fetch_message =
  f1_room_id :: string
  f1_event_id :: string

record search_messages =
  sm_room_id :: string
  sm_pattern :: string
  sm_limit :: "u32 option"
  sm_from :: "string option"

datatype cmd_kind =
    CReply reply
  | CReact react
  | CEdit edit
  | CSendFile send_file
  | CFetchMessages fetch_messages
  | CFetchMessage fetch_message
  | CSearchMessages search_messages
  | CTyping typing

definition cmd_kind_name :: "cmd_kind \<Rightarrow> string" where
  "cmd_kind_name k =
     (case k of
        CReply _ \<Rightarrow> ''reply''
      | CReact _ \<Rightarrow> ''react''
      | CEdit _ \<Rightarrow> ''edit''
      | CSendFile _ \<Rightarrow> ''send_file''
      | CFetchMessages _ \<Rightarrow> ''fetch_messages''
      | CFetchMessage _ \<Rightarrow> ''fetch_message''
      | CSearchMessages _ \<Rightarrow> ''search_messages''
      | CTyping _ \<Rightarrow> ''typing'')"

record cmd =
  cmd_id :: u64
  cmd_kind :: cmd_kind

datatype result_error =
    RE_RoomNotAllowed
  | RE_RoomUnknown
  | RE_SendFailed
  | RE_BadRequest
  | RE_NotFound
  | RE_FileError
  | RE_Unknown

definition result_error_as_str :: "result_error \<Rightarrow> string" where
  "result_error_as_str e =
     (case e of
        RE_RoomNotAllowed \<Rightarrow> ''room_not_allowed''
      | RE_RoomUnknown \<Rightarrow> ''room_unknown''
      | RE_SendFailed \<Rightarrow> ''send_failed''
      | RE_BadRequest \<Rightarrow> ''bad_request''
      | RE_NotFound \<Rightarrow> ''not_found''
      | RE_FileError \<Rightarrow> ''file_error''
      | RE_Unknown \<Rightarrow> ''unknown'')"

record history_attachment =
  ha_name :: string
  ha_mime :: string
  ha_size :: u64

record history_message =
  hm_event_id :: string
  hm_sender :: string
  hm_person :: "string option"
  hm_role :: "role option"
  hm_own :: bool
  hm_ts :: string
  hm_in_reply_to :: "string option"
  hm_thread :: "string option"
  hm_text :: string
  hm_match_start :: "nat option"
  hm_attachments :: "history_attachment list"

record cmd_result =
  res_id :: u64
  res_ok :: bool
  res_event_id :: "string option"
  res_error :: "result_error option"
  res_message :: "string option"
  res_messages :: "history_message list option"
  res_more :: "string option"
  res_scanned :: "u64 option"
  res_until :: "string option"

definition CmdResult_ok :: "u64 \<Rightarrow> string \<Rightarrow> cmd_result" where
  "CmdResult_ok i eid =
     \<lparr>res_id = i, res_ok = True, res_event_id = Some eid, res_error = None, res_message = None,
      res_messages = None, res_more = None, res_scanned = None, res_until = None\<rparr>"

definition CmdResult_done :: "u64 \<Rightarrow> cmd_result" where
  "CmdResult_done i =
     \<lparr>res_id = i, res_ok = True, res_event_id = None, res_error = None, res_message = None,
      res_messages = None, res_more = None, res_scanned = None, res_until = None\<rparr>"

definition CmdResult_history :: "u64 \<Rightarrow> history_message list \<Rightarrow> string option \<Rightarrow> cmd_result" where
  "CmdResult_history i ms token =
     \<lparr>res_id = i, res_ok = True, res_event_id = None, res_error = None, res_message = None,
      res_messages = Some ms, res_more = token, res_scanned = None, res_until = None\<rparr>"

definition CmdResult_with_scan :: "u64 \<Rightarrow> string option \<Rightarrow> cmd_result \<Rightarrow> cmd_result" where
  "CmdResult_with_scan scanned until r = r\<lparr>res_scanned := Some scanned, res_until := until\<rparr>"

definition CmdResult_err :: "u64 \<Rightarrow> result_error \<Rightarrow> string \<Rightarrow> cmd_result" where
  "CmdResult_err i e msg =
     \<lparr>res_id = i, res_ok = False, res_event_id = None, res_error = Some e, res_message = Some msg,
      res_messages = None, res_more = None, res_scanned = None, res_until = None\<rparr>"

datatype client_message =
    CM_Hello hello
  | CM_Cmd cmd
  | CM_File file_header
  | CM_Chunk file_chunk
  | CM_FileEnd file_end
  | CM_Ack ack

datatype daemon_message =
    DM_Welcome welcome_msg
  | DM_Error protocol_error
  | DM_Event event
  | DM_Result cmd_result
  | DM_File file_header
  | DM_Chunk file_chunk
  | DM_FileEnd file_end

section \<open>One client line\<close>

datatype jnumber = PosInt u64 | NegInt int | Float string

datatype json =
    JNull
  | JBool bool
  | JNumber jnumber
  | JString string
  | JArray "json list"
  | JObject "(string \<times> json) list"

text \<open>\<open>Value::get\<close>, \<open>Value::as_u64\<close>, \<open>Value::as_str\<close>, \<open>Value::as_bool\<close> and \<open>Value::as_object\<close>.\<close>

definition json_get :: "string \<Rightarrow> json \<Rightarrow> json option" where
  "json_get k j = (case j of JObject es \<Rightarrow> map_of es k | _ \<Rightarrow> None)"

definition json_as_u64 :: "json \<Rightarrow> u64 option" where
  "json_as_u64 j = (case j of JNumber (PosInt n) \<Rightarrow> Some n | _ \<Rightarrow> None)"

definition json_as_str :: "json \<Rightarrow> string option" where
  "json_as_str j = (case j of JString s \<Rightarrow> Some s | _ \<Rightarrow> None)"

definition json_as_bool :: "json \<Rightarrow> bool option" where
  "json_as_bool j = (case j of JBool b \<Rightarrow> Some b | _ \<Rightarrow> None)"

definition json_as_object :: "json \<Rightarrow> (string \<times> json) list option" where
  "json_as_object j = (case j of JObject es \<Rightarrow> Some es | _ \<Rightarrow> None)"

definition json_as_array :: "json \<Rightarrow> json list option" where
  "json_as_array j = (case j of JArray js \<Rightarrow> Some js | _ \<Rightarrow> None)"

text \<open>
  The diagnostic of a refused line: the two texts of the source, the command names or
  the deserialiser's error inside them.
\<close>

datatype line_diagnostic =
    UnsupportedCommand "string list" string
  | NotAMessage string

datatype incoming =
    In_Message client_message
  | In_BadRequest u64 line_diagnostic
  | In_Ignored line_diagnostic

text \<open>
  \<open>from_str\<close> parses the text as JSON, \<open>de\<close> is the derived \<open>ClientMessage::deserialize\<close> with
  the text of its error. \<open>None\<close> is the \<open>Err\<close> of a line that is not JSON.
\<close>

definition parse_client_line ::
    "(string \<Rightarrow> json option) \<Rightarrow> (json \<Rightarrow> string + client_message) \<Rightarrow> string \<Rightarrow> incoming option" where
  "parse_client_line from_str de line =
     (case from_str line of
        None \<Rightarrow> None
      | Some v \<Rightarrow>
          (case de v of
             Inr m \<Rightarrow> Some (In_Message m)
           | Inl err \<Rightarrow>
               let cmd_id = Option.bind (Option.bind (json_get ''cmd'' v) (json_get ''id'')) json_as_u64;
                   msg = (case Option.bind (json_get ''cmd'' v) json_as_object of
                            Some es \<Rightarrow> UnsupportedCommand (filter (\<lambda>k. k \<noteq> ''id'') (map fst es)) err
                          | None \<Rightarrow> NotAMessage err)
               in (case cmd_id of
                     Some i \<Rightarrow> Some (In_BadRequest i msg)
                   | None \<Rightarrow> Some (In_Ignored msg))))"

definition parse_daemon_line :: "(string \<Rightarrow> daemon_message option) \<Rightarrow> string \<Rightarrow> daemon_message option" where
  "parse_daemon_line from_str line = from_str line"

end
