(* ===== verification/Config.thy ===== *)
theory Config
  imports Protocol
begin

text \<open>
  The daemon's configuration (\<open>crates/silta/src/config.rs\<close>): its data, the checks that
  make it a registry (\<open>validate\<close>), and a declarative description of what they accept. The
  TOML parser is a parameter; the texts of the errors are the values of a datatype, one
  per message of the source. The loops with early returns are recursions that carry the
  sets and maps of the source.
\<close>

section \<open>The data\<close>

type_synonym toml_value = string

record matrix_config =
  homeserver_url :: string
  user_id :: string
  password :: string
  device_id :: string
  device_name :: string
  display_name :: "string option"

record person_config =
  pc_name :: string
  pc_role :: role
  pc_addresses :: "string list"

datatype receive =
    RecvAll
  | RecvGroups
  | Selective (listed_people: "string list") (listed_rooms: "string list")
where
  "listed_people RecvAll = []"
| "listed_people RecvGroups = []"
| "listed_rooms RecvAll = []"
| "listed_rooms RecvGroups = []"

datatype send_policy = SendAny | SendOwn

record session_config =
  sc_name :: string
  sc_receive :: receive
  sc_send :: send_policy
  sc_user :: string
  sc_relay_permissions :: "toml_value option"

record config =
  socket :: string
  state_dir :: string
  matrix :: matrix_config
  people :: "person_config list"
  sessions :: "session_config list"
  replay_window_secs :: u64
  inbox_max_age_days :: u64
  attachment_max_mb :: u64
  alert_grace_secs :: u64
  asr :: "toml_value option"

definition DEFAULT_SOCKET :: string where
  "DEFAULT_SOCKET = ''/run/siltad/siltad.sock''"

definition DEFAULT_STATE_DIR :: string where
  "DEFAULT_STATE_DIR = ''/var/lib/siltad''"

definition default_alert_grace_secs :: u64 where
  "default_alert_grace_secs = 600"

definition default_device_name :: string where
  "default_device_name = ''Silta''"

definition default_replay_window_secs :: u64 where
  "default_replay_window_secs = 300"

definition default_inbox_max_age_days :: u64 where
  "default_inbox_max_age_days = 30"

definition default_attachment_max_mb :: u64 where
  "default_attachment_max_mb = 100"

section \<open>Reading the receive setting\<close>

text \<open>
  The visitor of the hand-written \<open>Deserialize\<close>: a string, or the entries of a table in
  order, each value already read as a list of strings or not one (\<open>None\<close>).
\<close>

datatype receive_error =
    InvalidValue string
  | UnknownField string
  | BadEntry string

definition receive_visit_str :: "string \<Rightarrow> receive_error + receive" where
  "receive_visit_str v =
     (if v = ''all'' then Inr RecvAll
      else if v = ''groups'' then Inr RecvGroups
      else Inl (InvalidValue v))"

fun receive_visit_map :: "(string \<times> string list option) list \<Rightarrow> string list option \<Rightarrow> string list option \<Rightarrow>
    receive_error + receive" where
  "receive_visit_map [] ps rs =
     Inr (Selective (case ps of Some l \<Rightarrow> l | None \<Rightarrow> []) (case rs of Some l \<Rightarrow> l | None \<Rightarrow> []))"
| "receive_visit_map ((key, val) # es) ps rs =
     (if key = ''people''
      then (case val of Some l \<Rightarrow> receive_visit_map es (Some l) rs | None \<Rightarrow> Inl (BadEntry key))
      else if key = ''rooms''
      then (case val of Some l \<Rightarrow> receive_visit_map es ps (Some l) | None \<Rightarrow> Inl (BadEntry key))
      else Inl (UnknownField key))"

section \<open>Validation\<close>

datatype invalid =
    SocketUnset
  | StateDirUnset
  | HomeserverUnset
  | BadBotId string
  | PasswordUnset
  | DeviceIdUnset
  | InboxAgeZero
  | AttachmentMaxZero
  | EmptyPersonName
  | PersonTwice string
  | BadAddress string string
  | BotAddress string
  | AddressTwice string
  | EmptySessionName
  | SessionTwice string
  | NoUser string
  | TwoGroups string string
  | TwoAll string string
  | UnknownPerson string string
  | PersonListedBy string string string
  | NotARoomId string string
  | RoomListedBy string string string

datatype config_error =
    Config_Io string
  | Config_Parse string
  | Config_Invalid invalid

definition is_user_id :: "string \<Rightarrow> bool" where
  "is_user_id s = (starts_with ''@'' s \<and> CHR '':'' \<in> set (drop 1 s) \<and> \<not> ends_with '':'' s)"

fun check_addresses :: "string \<Rightarrow> string \<Rightarrow> string list \<Rightarrow> string set \<Rightarrow> invalid + string set" where
  "check_addresses self name [] addresses = Inr addresses"
| "check_addresses self name (a # as) addresses =
     (if \<not> is_user_id a then Inl (BadAddress a name)
      else if a = self then Inl (BotAddress name)
      else if a \<in> addresses then Inl (AddressTwice a)
      else check_addresses self name as (insert a addresses))"

fun check_people :: "string \<Rightarrow> person_config list \<Rightarrow> string set \<Rightarrow> string set \<Rightarrow>
    invalid + string set \<times> string set" where
  "check_people self [] names addresses = Inr (names, addresses)"
| "check_people self (p # ps) names addresses =
     (if pc_name p = [] then Inl EmptyPersonName
      else if pc_name p \<in> names then Inl (PersonTwice (pc_name p))
      else case check_addresses self (pc_name p) (pc_addresses p) addresses of
             Inl e \<Rightarrow> Inl e
           | Inr addresses' \<Rightarrow> check_people self ps (insert (pc_name p) names) addresses')"

fun check_listed_people :: "string set \<Rightarrow> string \<Rightarrow> string list \<Rightarrow> (string \<rightharpoonup> string) \<Rightarrow>
    invalid + (string \<rightharpoonup> string)" where
  "check_listed_people names session [] owner = Inr owner"
| "check_listed_people names session (p # ps) owner =
     (if p \<notin> names then Inl (UnknownPerson session p)
      else case owner p of
             Some other \<Rightarrow> Inl (PersonListedBy p other session)
           | None \<Rightarrow> check_listed_people names session ps (owner(p \<mapsto> session)))"

fun check_listed_rooms :: "string \<Rightarrow> string list \<Rightarrow> (string \<rightharpoonup> string) \<Rightarrow>
    invalid + (string \<rightharpoonup> string)" where
  "check_listed_rooms session [] owner = Inr owner"
| "check_listed_rooms session (r # rs) owner =
     (if \<not> starts_with ''!'' r then Inl (NotARoomId session r)
      else case owner r of
             Some other \<Rightarrow> Inl (RoomListedBy r other session)
           | None \<Rightarrow> check_listed_rooms session rs (owner(r \<mapsto> session)))"

fun check_sessions :: "string set \<Rightarrow> session_config list \<Rightarrow> string set \<Rightarrow> string option \<Rightarrow> string option \<Rightarrow>
    (string \<rightharpoonup> string) \<Rightarrow> (string \<rightharpoonup> string) \<Rightarrow> invalid + unit" where
  "check_sessions names [] session_names all_session groups_session room_owner person_owner = Inr ()"
| "check_sessions names (s # ss) session_names all_session groups_session room_owner person_owner =
     (if sc_name s = [] then Inl EmptySessionName
      else if sc_name s \<in> session_names then Inl (SessionTwice (sc_name s))
      else if sc_user s = [] then Inl (NoUser (sc_name s))
      else let session_names' = insert (sc_name s) session_names in
        case sc_receive s of
          RecvGroups \<Rightarrow>
            (case groups_session of
               Some first \<Rightarrow> Inl (TwoGroups first (sc_name s))
             | None \<Rightarrow> check_sessions names ss session_names' all_session (Some (sc_name s))
                         room_owner person_owner)
        | RecvAll \<Rightarrow>
            (case all_session of
               Some first \<Rightarrow> Inl (TwoAll first (sc_name s))
             | None \<Rightarrow> check_sessions names ss session_names' (Some (sc_name s)) groups_session
                         room_owner person_owner)
        | Selective listed rooms \<Rightarrow>
            (case check_listed_people names (sc_name s) listed person_owner of
               Inl e \<Rightarrow> Inl e
             | Inr person_owner' \<Rightarrow>
                 (case check_listed_rooms (sc_name s) rooms room_owner of
                    Inl e \<Rightarrow> Inl e
                  | Inr room_owner' \<Rightarrow>
                      check_sessions names ss session_names' all_session groups_session
                        room_owner' person_owner')))"

definition validate :: "config \<Rightarrow> invalid + unit" where
  "validate c =
     (let m = matrix c in
      if socket c = [] then Inl SocketUnset
      else if state_dir c = [] then Inl StateDirUnset
      else if homeserver_url m = [] then Inl HomeserverUnset
      else if \<not> is_user_id (user_id m) then Inl (BadBotId (user_id m))
      else if password m = [] then Inl PasswordUnset
      else if device_id m = [] then Inl DeviceIdUnset
      else if inbox_max_age_days c = 0 then Inl InboxAgeZero
      else if attachment_max_mb c = 0 then Inl AttachmentMaxZero
      else case check_people (user_id m) (people c) {} {} of
             Inl e \<Rightarrow> Inl e
           | Inr (names, addresses) \<Rightarrow>
               check_sessions names (sessions c) {} None None Map.empty Map.empty)"

text \<open>
  \<open>Config::parse\<close> and \<open>Config::load\<close>: \<open>from_str\<close> is \<open>toml::from_str\<close> with the text of its
  error; the file or standard input was read (\<open>Inr\<close>) or not, with the error's text.
\<close>

definition config_parse :: "(string \<Rightarrow> string + config) \<Rightarrow> string \<Rightarrow> config_error + config" where
  "config_parse from_str txt =
     (case from_str txt of
        Inl e \<Rightarrow> Inl (Config_Parse e)
      | Inr c \<Rightarrow> (case validate c of Inl e \<Rightarrow> Inl (Config_Invalid e) | Inr _ \<Rightarrow> Inr c))"

definition config_load :: "(string \<Rightarrow> string + config) \<Rightarrow> (string \<Rightarrow> string + string) \<Rightarrow> string + string \<Rightarrow>
    string \<Rightarrow> config_error + config" where
  "config_load from_str read_file stdin path =
     (case (if path = ''-'' then stdin else read_file path) of
        Inl e \<Rightarrow> Inl (Config_Io e)
      | Inr txt \<Rightarrow> config_parse from_str txt)"

datatype config_warning =
    AsrReserved
  | RelayReserved string
  | NoSessions
  | NoPeople
  | NoAddresses string

definition config_warnings :: "config \<Rightarrow> config_warning list" where
  "config_warnings c =
     (if asr c \<noteq> None then [AsrReserved] else []) @
     map (\<lambda>s. RelayReserved (sc_name s)) (filter (\<lambda>s. sc_relay_permissions s \<noteq> None) (sessions c)) @
     (if sessions c = [] then [NoSessions] else []) @
     (if people c = [] then [NoPeople] else []) @
     map (\<lambda>p. NoAddresses (pc_name p)) (filter (\<lambda>p. pc_addresses p = []) (people c))"

section \<open>What validation accepts\<close>

definition people_ok :: "string \<Rightarrow> person_config list \<Rightarrow> bool" where
  "people_ok self ps \<longleftrightarrow>
     (\<forall>p \<in> set ps. pc_name p \<noteq> []) \<and> distinct (map pc_name ps) \<and>
     (\<forall>a \<in> set (concat (map pc_addresses ps)). is_user_id a \<and> a \<noteq> self) \<and>
     distinct (concat (map pc_addresses ps))"

definition sessions_ok :: "string set \<Rightarrow> session_config list \<Rightarrow> bool" where
  "sessions_ok names ss \<longleftrightarrow>
     (\<forall>s \<in> set ss. sc_name s \<noteq> [] \<and> sc_user s \<noteq> []) \<and> distinct (map sc_name ss) \<and>
     length (filter (\<lambda>s. sc_receive s = RecvAll) ss) \<le> 1 \<and>
     length (filter (\<lambda>s. sc_receive s = RecvGroups) ss) \<le> 1 \<and>
     set (concat (map (\<lambda>s. listed_people (sc_receive s)) ss)) \<subseteq> names \<and>
     distinct (concat (map (\<lambda>s. listed_people (sc_receive s)) ss)) \<and>
     (\<forall>r \<in> set (concat (map (\<lambda>s. listed_rooms (sc_receive s)) ss)). starts_with ''!'' r) \<and>
     distinct (concat (map (\<lambda>s. listed_rooms (sc_receive s)) ss))"

definition config_ok :: "config \<Rightarrow> bool" where
  "config_ok c \<longleftrightarrow>
     socket c \<noteq> [] \<and> state_dir c \<noteq> [] \<and> homeserver_url (matrix c) \<noteq> [] \<and>
     is_user_id (user_id (matrix c)) \<and> password (matrix c) \<noteq> [] \<and> device_id (matrix c) \<noteq> [] \<and>
     inbox_max_age_days c \<noteq> 0 \<and> attachment_max_mb c \<noteq> 0 \<and>
     people_ok (user_id (matrix c)) (people c) \<and>
     sessions_ok (pc_name ` set (people c)) (sessions c)"

lemma check_addresses_iff:
  "check_addresses self name as S = Inr S' \<longleftrightarrow>
     (\<forall>a \<in> set as. is_user_id a \<and> a \<noteq> self \<and> a \<notin> S) \<and> distinct as \<and> S' = S \<union> set as"
  by (induction as arbitrary: S) auto

lemma check_people_result:
  "check_people self ps N A = Inr (N', A') \<Longrightarrow> N' = N \<union> pc_name ` set ps"
  by (induction ps arbitrary: N A) (auto split: sum.splits if_splits)

lemma check_people_iff:
  "(\<exists>r. check_people self ps N A = Inr r) \<longleftrightarrow>
     (\<forall>p \<in> set ps. pc_name p \<noteq> [] \<and> pc_name p \<notin> N) \<and> distinct (map pc_name ps) \<and>
     (\<forall>a \<in> set (concat (map pc_addresses ps)). is_user_id a \<and> a \<noteq> self \<and> a \<notin> A) \<and>
     distinct (concat (map pc_addresses ps))"
proof (induction ps arbitrary: N A)
  case (Cons p ps)
  show ?case
  proof (cases "check_addresses self (pc_name p) (pc_addresses p) A")
    case (Inl e)
    then have "\<not> ((\<forall>a \<in> set (pc_addresses p). is_user_id a \<and> a \<noteq> self \<and> a \<notin> A) \<and> distinct (pc_addresses p))"
      using check_addresses_iff [of self "pc_name p" "pc_addresses p" A] by auto
    with Inl show ?thesis by auto
  next
    case (Inr A1)
    then have a: "\<forall>a \<in> set (pc_addresses p). is_user_id a \<and> a \<noteq> self \<and> a \<notin> A"
      "distinct (pc_addresses p)" "A1 = A \<union> set (pc_addresses p)"
      by (simp_all add: check_addresses_iff)
    have step: "(\<exists>r. check_people self (p # ps) N A = Inr r) \<longleftrightarrow>
        pc_name p \<noteq> [] \<and> pc_name p \<notin> N \<and> (\<exists>r. check_people self ps (insert (pc_name p) N) A1 = Inr r)"
      by (simp add: Inr)
    show ?thesis
      unfolding step Cons.IH a(3) using a(1,2) by (auto simp: image_iff)
  qed
qed auto

lemma check_listed_people_iff:
  "check_listed_people names session ps owner = Inr owner' \<longleftrightarrow>
     set ps \<subseteq> names \<and> distinct ps \<and> set ps \<inter> dom owner = {} \<and>
     owner' = (\<lambda>p. if p \<in> set ps then Some session else owner p)"
  by (induction ps arbitrary: owner) (auto simp: fun_eq_iff split: option.splits)

lemma check_listed_rooms_iff:
  "check_listed_rooms session rs owner = Inr owner' \<longleftrightarrow>
     (\<forall>r \<in> set rs. starts_with ''!'' r) \<and> distinct rs \<and> set rs \<inter> dom owner = {} \<and>
     owner' = (\<lambda>r. if r \<in> set rs then Some session else owner r)"
  by (induction rs arbitrary: owner) (auto simp: fun_eq_iff split: option.splits)

lemma check_listed_people_cases:
  "if set ps \<subseteq> names \<and> distinct ps \<and> set ps \<inter> dom owner = {}
   then check_listed_people names session ps owner =
     Inr (\<lambda>p. if p \<in> set ps then Some session else owner p)
   else (\<exists>e. check_listed_people names session ps owner = Inl e)"
  using check_listed_people_iff [of names session ps owner]
  by (cases "check_listed_people names session ps owner") auto

lemma check_listed_rooms_cases:
  "if (\<forall>r \<in> set rs. starts_with ''!'' r) \<and> distinct rs \<and> set rs \<inter> dom owner = {}
   then check_listed_rooms session rs owner = Inr (\<lambda>r. if r \<in> set rs then Some session else owner r)
   else (\<exists>e. check_listed_rooms session rs owner = Inl e)"
  using check_listed_rooms_iff [of session rs owner]
  by (cases "check_listed_rooms session rs owner") auto

lemma check_sessions_iff:
  "check_sessions names ss N al gr ro po = Inr () \<longleftrightarrow>
     (\<forall>s \<in> set ss. sc_name s \<noteq> [] \<and> sc_user s \<noteq> [] \<and> sc_name s \<notin> N) \<and> distinct (map sc_name ss) \<and>
     length (filter (\<lambda>s. sc_receive s = RecvAll) ss) + (if al = None then 0 else 1) \<le> 1 \<and>
     length (filter (\<lambda>s. sc_receive s = RecvGroups) ss) + (if gr = None then 0 else 1) \<le> 1 \<and>
     set (concat (map (\<lambda>s. listed_people (sc_receive s)) ss)) \<subseteq> names \<and>
     distinct (concat (map (\<lambda>s. listed_people (sc_receive s)) ss)) \<and>
     set (concat (map (\<lambda>s. listed_people (sc_receive s)) ss)) \<inter> dom po = {} \<and>
     (\<forall>r \<in> set (concat (map (\<lambda>s. listed_rooms (sc_receive s)) ss)). starts_with ''!'' r) \<and>
     distinct (concat (map (\<lambda>s. listed_rooms (sc_receive s)) ss)) \<and>
     set (concat (map (\<lambda>s. listed_rooms (sc_receive s)) ss)) \<inter> dom ro = {}"
proof (induction ss arbitrary: N al gr ro po)
  case (Cons s ss)
  show ?case
  proof (cases "sc_receive s")
    case RecvAll
    have step: "check_sessions names (s # ss) N al gr ro po = Inr () \<longleftrightarrow>
        sc_name s \<noteq> [] \<and> sc_name s \<notin> N \<and> sc_user s \<noteq> [] \<and> al = None \<and>
        check_sessions names ss (insert (sc_name s) N) (Some (sc_name s)) gr ro po = Inr ()"
      by (simp add: RecvAll Let_def split: option.splits)
    show ?thesis
      unfolding step Cons.IH by (auto simp: RecvAll image_iff)
  next
    case RecvGroups
    have step: "check_sessions names (s # ss) N al gr ro po = Inr () \<longleftrightarrow>
        sc_name s \<noteq> [] \<and> sc_name s \<notin> N \<and> sc_user s \<noteq> [] \<and> gr = None \<and>
        check_sessions names ss (insert (sc_name s) N) al (Some (sc_name s)) ro po = Inr ()"
      by (simp add: RecvGroups Let_def split: option.splits)
    show ?thesis
      unfolding step Cons.IH by (auto simp: RecvGroups image_iff)
  next
    case (Selective ps rs)
    let ?po = "\<lambda>p. if p \<in> set ps then Some (sc_name s) else po p"
    let ?ro = "\<lambda>r. if r \<in> set rs then Some (sc_name s) else ro r"
    have doms: "dom ?po = set ps \<union> dom po" "dom ?ro = set rs \<union> dom ro"
      by (auto split: if_splits)
    have step: "check_sessions names (s # ss) N al gr ro po = Inr () \<longleftrightarrow>
        sc_name s \<noteq> [] \<and> sc_name s \<notin> N \<and> sc_user s \<noteq> [] \<and>
        (set ps \<subseteq> names \<and> distinct ps \<and> set ps \<inter> dom po = {}) \<and>
        ((\<forall>r \<in> set rs. starts_with ''!'' r) \<and> distinct rs \<and> set rs \<inter> dom ro = {}) \<and>
        check_sessions names ss (insert (sc_name s) N) al gr ?ro ?po = Inr ()"
      using check_listed_people_cases [of ps names po "sc_name s"] check_listed_rooms_cases [of rs ro "sc_name s"]
      by (auto simp: Selective Let_def split: if_splits)
    show ?thesis
      unfolding step Cons.IH doms
      by (simp add: Selective ball_Un Int_Un_distrib Int_Un_distrib2) (auto simp: image_iff)
  qed
qed auto

lemma validate_ok_iff: "validate c = Inr () \<longleftrightarrow> config_ok c"
proof (cases "check_people (user_id (matrix c)) (people c) {} {}")
  case (Inl e)
  then have "\<not> people_ok (user_id (matrix c)) (people c)"
    using check_people_iff [of "user_id (matrix c)" "people c" "{}" "{}"]
    by (auto simp: people_ok_def)
  with Inl show ?thesis
    by (simp add: validate_def config_ok_def Let_def)
next
  case (Inr r)
  obtain N A where r: "r = (N, A)" by fastforce
  have N: "N = pc_name ` set (people c)"
    using check_people_result Inr unfolding r by fastforce
  have "people_ok (user_id (matrix c)) (people c)"
    using check_people_iff [of "user_id (matrix c)" "people c" "{}" "{}"] Inr
    by (simp add: people_ok_def)
  with Inr show ?thesis
    by (auto simp: r N validate_def config_ok_def Let_def check_sessions_iff sessions_ok_def)
qed

section \<open>Properties\<close>

text \<open>
  C34: a configuration is accepted exactly when it is an unambiguous registry: the fields
  of the account are set, the names and the addresses of people are unique and well
  formed and none is the bot's, session names are unique, at most one session receives
  everything and at most one the groups, and no person and no room is listed twice or by
  two sessions or unknown.
\<close>

theorem validate_iff: "validate c = Inr () \<longleftrightarrow> config_ok c"
  by (rule validate_ok_iff)

end
