(* ===== verification/Routing.thy ===== *)
theory Routing
  imports Config
begin

text \<open>
  The routing decisions (\<open>crates/silta/src/config.rs\<close>, \<open>Routing\<close>): which session an inbound
  message goes to, which rooms a session may write to and read. A \<open>HashMap\<close> is a map, a
  \<open>HashSet\<close> a set; the tables hold indices into the lists of people and sessions, and
  \<open>routing_tables\<close> shows that every index is in range.
\<close>

section \<open>The data\<close>

datatype drop_reason = OwnMessage | UnknownSender | NoSession

definition drop_reason_fmt :: "drop_reason \<Rightarrow> string" where
  "drop_reason_fmt r =
     (case r of
        OwnMessage \<Rightarrow> ''own message''
      | UnknownSender \<Rightarrow> ''sender not registered''
      | NoSession \<Rightarrow> ''no session owns the room'')"

datatype inbound_t =
    InDeliver string person_config room_kind
  | InDrop drop_reason

datatype send_denied = DeniedUnknownSession | NotAllowed

record routing =
  rt_bot :: string
  rt_people :: "person_config list"
  by_address :: "string \<rightharpoonup> nat"
  rt_sessions :: "session_config list"
  by_name :: "string \<rightharpoonup> nat"
  by_room :: "string \<rightharpoonup> nat"
  by_person :: "string \<rightharpoonup> nat"
  all_of :: "nat option"
  groups_of :: "nat option"

record room_shape =
  direct :: bool
  named :: bool

definition RoomShape_default :: room_shape where
  "RoomShape_default = \<lparr>direct = False, named = False\<rparr>"

definition RoomShape_DM :: room_shape where
  "RoomShape_DM = \<lparr>direct = True, named = False\<rparr>"

definition RoomShape_NAMED :: room_shape where
  "RoomShape_NAMED = \<lparr>direct = False, named = True\<rparr>"

definition is_group :: "nat \<Rightarrow> room_shape \<Rightarrow> bool" where
  "is_group n shape = (2 \<le> n \<or> \<not> direct shape \<and> named shape)"

section \<open>Building the tables\<close>

definition routing_new :: "config \<Rightarrow> routing" where
  "routing_new c =
     (let addresses = foldl (\<lambda>m (i, p). foldl (\<lambda>m a. m(a \<mapsto> i)) m (pc_addresses p)) Map.empty
            (List.enumerate 0 (people c));
          (names, rooms, persons, al, gr) =
            foldl (\<lambda>(names, rooms, persons, al, gr) (i, s).
                let names = names(sc_name s \<mapsto> i) in
                case sc_receive s of
                  RecvAll \<Rightarrow> (names, rooms, persons, Some i, gr)
                | RecvGroups \<Rightarrow> (names, rooms, persons, al, Some i)
                | Selective ps rs \<Rightarrow>
                    (names, foldl (\<lambda>m r. m(r \<mapsto> i)) rooms rs, foldl (\<lambda>m p. m(p \<mapsto> i)) persons ps, al, gr))
              (Map.empty, Map.empty, Map.empty, None, None) (List.enumerate 0 (sessions c))
      in \<lparr>rt_bot = user_id (matrix c), rt_people = people c, by_address = addresses,
          rt_sessions = sessions c, by_name = names, by_room = rooms, by_person = persons,
          all_of = al, groups_of = gr\<rparr>)"

section \<open>The operations\<close>

definition is_bot :: "string \<Rightarrow> routing \<Rightarrow> bool" where
  "is_bot address r = (address = rt_bot r)"

definition person_for :: "string \<Rightarrow> routing \<Rightarrow> person_config option" where
  "person_for address r = map_option (\<lambda>i. rt_people r ! i) (by_address r address)"

definition rt_session :: "string \<Rightarrow> routing \<Rightarrow> session_config option" where
  "rt_session name r = map_option (\<lambda>i. rt_sessions r ! i) (by_name r name)"

definition session_names :: "routing \<Rightarrow> string list" where
  "session_names r = map sc_name (rt_sessions r)"

definition session_users :: "routing \<Rightarrow> (string \<times> string) list" where
  "session_users r = map (\<lambda>s. (sc_name s, sc_user s)) (rt_sessions r)"

definition people_for :: "string \<Rightarrow> routing \<Rightarrow> person list" where
  "people_for session r =
     (let listed = (case map_option sc_receive (rt_session session r) of
                      Some (Selective ps rs) \<Rightarrow> if rs = [] then Some ps else None
                    | _ \<Rightarrow> None)
      in map (\<lambda>p. \<lparr>person_name = pc_name p, person_role = pc_role p\<rparr>)
           (filter (\<lambda>p. case listed of None \<Rightarrow> True | Some l \<Rightarrow> pc_name p \<in> set l) (rt_people r)))"

definition people_in :: "string list \<Rightarrow> routing \<Rightarrow> string set \<times> bool" where
  "people_in members r =
     foldl (\<lambda>(found, all_registered) m.
         if is_bot m r then (found, all_registered)
         else case person_for m r of
                Some p \<Rightarrow> (insert (pc_name p) found, all_registered)
              | None \<Rightarrow> (found, False))
       ({}, True) members"

definition inbound :: "string \<Rightarrow> string \<Rightarrow> string list \<Rightarrow> room_shape \<Rightarrow> routing \<Rightarrow> inbound_t" where
  "inbound sender room_id members shape r =
     (if is_bot sender r then InDrop OwnMessage
      else case person_for sender r of
        None \<Rightarrow> InDrop UnknownSender
      | Some person \<Rightarrow>
          let (found, _) = people_in members r;
              grp = is_group (card found) shape;
              owner = (case by_room r room_id of
                         Some i \<Rightarrow> Some i
                       | None \<Rightarrow>
                           (let specific = (if grp then groups_of r else by_person r (pc_name person))
                            in case specific of Some i \<Rightarrow> Some i | None \<Rightarrow> all_of r));
              room = (if grp then Group else Dm)
          in (case owner of
                Some i \<Rightarrow> InDeliver (sc_name (rt_sessions r ! i)) person room
              | None \<Rightarrow> InDrop NoSession))"

definition owns_room :: "nat \<Rightarrow> string \<Rightarrow> string list \<Rightarrow> room_shape \<Rightarrow> routing \<Rightarrow> send_denied + unit" where
  "owns_room i room_id members shape r =
     (if by_room r room_id = Some i then Inr ()
      else let (found, all_registered) = people_in members r in
        if found = {} \<or> \<not> all_registered then Inl NotAllowed
        else let grp = is_group (card found) shape;
                 owned = (case sc_receive (rt_sessions r ! i) of
                            RecvAll \<Rightarrow> True
                          | RecvGroups \<Rightarrow> grp
                          | Selective listed _ \<Rightarrow> \<not> grp \<and> (\<forall>p \<in> found. p \<in> set listed))
             in if owned then Inr () else Inl NotAllowed)"

definition may_send :: "string \<Rightarrow> string \<Rightarrow> string list \<Rightarrow> room_shape \<Rightarrow> routing \<Rightarrow> send_denied + unit" where
  "may_send session room_id members shape r =
     (case by_name r session of
        None \<Rightarrow> Inl DeniedUnknownSession
      | Some i \<Rightarrow>
          (case sc_send (rt_sessions r ! i) of
             SendAny \<Rightarrow> Inr ()
           | SendOwn \<Rightarrow> owns_room i room_id members shape r))"

definition may_read :: "string \<Rightarrow> string \<Rightarrow> string list \<Rightarrow> room_shape \<Rightarrow> routing \<Rightarrow> send_denied + unit" where
  "may_read session room_id members shape r =
     (case by_name r session of
        None \<Rightarrow> Inl DeniedUnknownSession
      | Some i \<Rightarrow>
          if all_of r = Some i then Inr ()
          else owns_room i room_id members shape r)"

section \<open>Tables of indices\<close>

text \<open>
  Every table of the routing is one and the same construction: each key of the element
  \<open>i\<close> is mapped to \<open>i\<close>. With all keys distinct it is the inverse of the list.
\<close>

definition index_map :: "('a \<Rightarrow> 'k list) \<Rightarrow> 'a list \<Rightarrow> 'k \<rightharpoonup> nat" where
  "index_map ks xs = foldl (\<lambda>m (i, x). foldl (\<lambda>m k. m(k \<mapsto> i)) m (ks x)) Map.empty (List.enumerate 0 xs)"

lemma foldl_upd: "foldl (\<lambda>m k. m(k \<mapsto> v)) m ks = (\<lambda>k. if k \<in> set ks then Some v else m k)"
  by (induction ks arbitrary: m) (auto simp: fun_eq_iff)

lemma index_map_snoc:
  "index_map ks (xs @ [x]) = (\<lambda>k. if k \<in> set (ks x) then Some (length xs) else index_map ks xs k)"
  unfolding index_map_def foldl_upd by (simp add: enumerate_append_eq)

lemma index_map_iff:
  "distinct (concat (map ks xs)) \<Longrightarrow>
   index_map ks xs k = Some i \<longleftrightarrow> i < length xs \<and> k \<in> set (ks (xs ! i))"
proof (induction xs rule: rev_induct)
  case Nil
  then show ?case by (simp add: index_map_def)
next
  case (snoc x xs)
  then show ?case
    by (auto simp: index_map_snoc nth_append less_Suc_eq dest: nth_mem)
qed

lemma index_map_range: "index_map ks xs k = Some i \<Longrightarrow> i < length xs \<and> k \<in> set (ks (xs ! i))"
proof (induction xs rule: rev_induct)
  case Nil
  then show ?case by (simp add: index_map_def)
next
  case (snoc x xs)
  then show ?case
    by (auto simp: index_map_snoc nth_append split: if_splits)
qed

lemma routing_fold:
  "foldl (\<lambda>(names, rooms, persons, al, gr) (i, s).
       let names = names(sc_name s \<mapsto> i) in
       case sc_receive s of
         RecvAll \<Rightarrow> (names, rooms, persons, Some i, gr)
       | RecvGroups \<Rightarrow> (names, rooms, persons, al, Some i)
       | Selective ps rs \<Rightarrow>
           (names, foldl (\<lambda>m r. m(r \<mapsto> i)) rooms rs, foldl (\<lambda>m p. m(p \<mapsto> i)) persons ps, al, gr))
     (Map.empty, Map.empty, Map.empty, None, None) (List.enumerate 0 ss) =
   (index_map (\<lambda>s. [sc_name s]) ss, index_map (\<lambda>s. listed_rooms (sc_receive s)) ss,
    index_map (\<lambda>s. listed_people (sc_receive s)) ss,
    index_map (\<lambda>s. if sc_receive s = RecvAll then [()] else []) ss (),
    index_map (\<lambda>s. if sc_receive s = RecvGroups then [()] else []) ss ())"
proof (induction ss rule: rev_induct)
  case Nil
  then show ?case by (simp add: index_map_def fun_eq_iff)
next
  case (snoc s ss)
  then show ?case
    by (cases "sc_receive s")
       (auto simp: enumerate_append_eq index_map_snoc foldl_upd fun_eq_iff Let_def)
qed

lemma routing_new_eq:
  "routing_new c =
     \<lparr>rt_bot = user_id (matrix c), rt_people = people c, by_address = index_map pc_addresses (people c),
      rt_sessions = sessions c, by_name = index_map (\<lambda>s. [sc_name s]) (sessions c),
      by_room = index_map (\<lambda>s. listed_rooms (sc_receive s)) (sessions c),
      by_person = index_map (\<lambda>s. listed_people (sc_receive s)) (sessions c),
      all_of = index_map (\<lambda>s. if sc_receive s = RecvAll then [()] else []) (sessions c) (),
      groups_of = index_map (\<lambda>s. if sc_receive s = RecvGroups then [()] else []) (sessions c) ()\<rparr>"
  by (simp add: routing_new_def routing_fold index_map_def [of pc_addresses, symmetric])

section \<open>The tables of a valid configuration\<close>

lemma at_most_one_distinct:
  "length (filter P xs) \<le> 1 \<longleftrightarrow> distinct (concat (map (\<lambda>x. if P x then [()] else []) xs))"
  by (induction xs) (auto simp: filter_empty_conv)

lemma validated_tables:
  assumes "validate c = Inr ()"
  defines "r \<equiv> routing_new c"
  shows "by_address r a = Some i \<longleftrightarrow> i < length (people c) \<and> a \<in> set (pc_addresses (people c ! i))"
    and "by_name r n = Some j \<longleftrightarrow> j < length (sessions c) \<and> n = sc_name (sessions c ! j)"
    and "by_room r room = Some j \<longleftrightarrow> j < length (sessions c) \<and> room \<in> set (listed_rooms (sc_receive (sessions c ! j)))"
    and "by_person r p = Some j \<longleftrightarrow> j < length (sessions c) \<and> p \<in> set (listed_people (sc_receive (sessions c ! j)))"
    and "all_of r = Some j \<longleftrightarrow> j < length (sessions c) \<and> sc_receive (sessions c ! j) = RecvAll"
    and "groups_of r = Some j \<longleftrightarrow> j < length (sessions c) \<and> sc_receive (sessions c ! j) = RecvGroups"
proof -
  have ok: "people_ok (user_id (matrix c)) (people c)" "sessions_ok (pc_name ` set (people c)) (sessions c)"
    using assms(1) unfolding validate_ok_iff config_ok_def by auto
  then have "distinct (concat (map pc_addresses (people c)))"
    "distinct (concat (map (\<lambda>s. [sc_name s]) (sessions c)))"
    "distinct (concat (map (\<lambda>s. listed_rooms (sc_receive s)) (sessions c)))"
    "distinct (concat (map (\<lambda>s. listed_people (sc_receive s)) (sessions c)))"
    "distinct (concat (map (\<lambda>s. if sc_receive s = RecvAll then [()] else []) (sessions c)))"
    "distinct (concat (map (\<lambda>s. if sc_receive s = RecvGroups then [()] else []) (sessions c)))"
    by (simp_all add: people_ok_def sessions_ok_def flip: at_most_one_distinct)
  then show "by_address r a = Some i \<longleftrightarrow> i < length (people c) \<and> a \<in> set (pc_addresses (people c ! i))"
    and "by_name r n = Some j \<longleftrightarrow> j < length (sessions c) \<and> n = sc_name (sessions c ! j)"
    and "by_room r room = Some j \<longleftrightarrow> j < length (sessions c) \<and> room \<in> set (listed_rooms (sc_receive (sessions c ! j)))"
    and "by_person r p = Some j \<longleftrightarrow> j < length (sessions c) \<and> p \<in> set (listed_people (sc_receive (sessions c ! j)))"
    and "all_of r = Some j \<longleftrightarrow> j < length (sessions c) \<and> sc_receive (sessions c ! j) = RecvAll"
    and "groups_of r = Some j \<longleftrightarrow> j < length (sessions c) \<and> sc_receive (sessions c ! j) = RecvGroups"
    by (auto simp: r_def routing_new_eq index_map_iff split: if_splits)
qed

lemma routing_new_fields [simp]:
  "rt_bot (routing_new c) = user_id (matrix c)" "rt_people (routing_new c) = people c"
  "rt_sessions (routing_new c) = sessions c"
  by (simp_all add: routing_new_eq)

text \<open>
  The people and the flag found among a room's members, without the loop.
\<close>

lemma people_in_eq:
  "people_in members r =
     ({pc_name p | m p. m \<in> set members \<and> \<not> is_bot m r \<and> person_for m r = Some p},
      \<forall>m \<in> set members. \<not> is_bot m r \<longrightarrow> person_for m r \<noteq> None)"
proof (induction members rule: rev_induct)
  case Nil
  then show ?case by (simp add: people_in_def)
next
  case (snoc m members)
  then show ?case
    by (auto simp: people_in_def split: option.splits)
qed

lemma people_in_finite: "finite (fst (people_in members r))"
proof (induction members rule: rev_induct)
  case Nil
  then show ?case by (simp add: people_in_def)
next
  case (snoc m members)
  then show ?case
    by (auto simp: people_in_def split: option.splits prod.splits)
qed

lemma person_for_Some:
  assumes "validate c = Inr ()"
  shows "person_for a (routing_new c) = Some p \<longleftrightarrow> p \<in> set (people c) \<and> a \<in> set (pc_addresses p)"
proof -
  have "p \<in> set (people c) \<and> a \<in> set (pc_addresses p) \<Longrightarrow>
      by_address (routing_new c) a \<noteq> None \<and> person_for a (routing_new c) = Some p"
  proof -
    assume "p \<in> set (people c) \<and> a \<in> set (pc_addresses p)"
    then obtain i where "i < length (people c)" "people c ! i = p" "a \<in> set (pc_addresses p)"
      by (auto simp: in_set_conv_nth)
    then show ?thesis
      using validated_tables(1) [OF assms, of a i] by (simp add: person_for_def)
  qed
  then show ?thesis
    by (auto simp: person_for_def validated_tables(1) [OF assms])
qed

lemma card_at_most_one: "finite S \<Longrightarrow> x \<in> S \<Longrightarrow> \<not> 2 \<le> card S \<Longrightarrow> S = {x}"
  by (metis One_nat_def Suc_1 card_1_singletonE card_0_eq empty_iff le_Suc_eq nat_le_linear singletonD le_zero_eq)

section \<open>Properties\<close>

text \<open>
  For a valid configuration every table is exact and every index is in range: the
  person behind an address, the session of a name, the session listing a room or a
  person, and the sessions receiving everything and groups are the configured ones.
\<close>

theorem routing_tables:
  assumes "validate c = Inr ()"
  shows "(\<forall>a p. person_for a (routing_new c) = Some p \<longleftrightarrow> p \<in> set (people c) \<and> a \<in> set (pc_addresses p)) \<and>
    (\<forall>n s. rt_session n (routing_new c) = Some s \<longleftrightarrow> s \<in> set (sessions c) \<and> sc_name s = n) \<and>
    (\<forall>room i. by_room (routing_new c) room = Some i \<longleftrightarrow>
       i < length (sessions c) \<and> room \<in> set (listed_rooms (sc_receive (sessions c ! i)))) \<and>
    (\<forall>p i. by_person (routing_new c) p = Some i \<longleftrightarrow>
       i < length (sessions c) \<and> p \<in> set (listed_people (sc_receive (sessions c ! i)))) \<and>
    (\<forall>i. all_of (routing_new c) = Some i \<longleftrightarrow> i < length (sessions c) \<and> sc_receive (sessions c ! i) = RecvAll) \<and>
    (\<forall>i. groups_of (routing_new c) = Some i \<longleftrightarrow> i < length (sessions c) \<and> sc_receive (sessions c ! i) = RecvGroups)"
proof -
  have "rt_session n (routing_new c) = Some s \<longleftrightarrow> s \<in> set (sessions c) \<and> sc_name s = n" for n s
  proof
    assume "s \<in> set (sessions c) \<and> sc_name s = n"
    then obtain i where "i < length (sessions c)" "sessions c ! i = s" "sc_name s = n"
      by (auto simp: in_set_conv_nth)
    then show "rt_session n (routing_new c) = Some s"
      using validated_tables(2) [OF assms, of n i] by (simp add: rt_session_def)
  qed (auto simp: rt_session_def validated_tables(2) [OF assms])
  then show ?thesis
    by (simp add: person_for_Some [OF assms] validated_tables(3-6) [OF assms])
qed

text \<open>The configuration of two minds and a hub, for the witnesses.\<close>

definition demo_config :: config where
  "demo_config =
     \<lparr>socket = ''/s'', state_dir = ''/d'',
      matrix = \<lparr>homeserver_url = ''h'', user_id = ''@bot:x'', password = ''p'', device_id = ''D'',
                device_name = ''Silta'', display_name = None\<rparr>,
      people = [\<lparr>pc_name = ''alice'', pc_role = Owner, pc_addresses = [''@a:x'']\<rparr>,
                \<lparr>pc_name = ''bob'', pc_role = Family, pc_addresses = [''@b:x'']\<rparr>],
      sessions = [\<lparr>sc_name = ''mind'', sc_receive = Selective [''alice''] [''!private''], sc_send = SendOwn,
                   sc_user = ''u1'', sc_relay_permissions = None\<rparr>,
                  \<lparr>sc_name = ''hub'', sc_receive = RecvGroups, sc_send = SendAny,
                   sc_user = ''u2'', sc_relay_permissions = None\<rparr>],
      replay_window_secs = 300, inbox_max_age_days = 30, attachment_max_mb = 100,
      alert_grace_secs = 600, asr = None\<rparr>"

lemma demo_config_valid: "validate demo_config = Inr ()"
  by (simp add: demo_config_def validate_def is_user_id_def starts_with_def ends_with_def Let_def)

theorem routing_tables_witness:
  "person_for ''@a:x'' (routing_new demo_config) =
     Some \<lparr>pc_name = ''alice'', pc_role = Owner, pc_addresses = [''@a:x'']\<rparr> \<and>
   groups_of (routing_new demo_config) = Some 1"
  using routing_tables [OF demo_config_valid] by (simp add: demo_config_def)

lemma inbound_Deliver:
  assumes "inbound sender room_id members shape r = InDeliver name p kind"
  obtains i where "\<not> is_bot sender r" "person_for sender r = Some p" "name = sc_name (rt_sessions r ! i)"
    "kind = (if is_group (card (fst (people_in members r))) shape then Group else Dm)"
    "by_room r room_id = Some i \<or>
     by_room r room_id = None \<and> kind = Group \<and> groups_of r = Some i \<or>
     by_room r room_id = None \<and> kind = Dm \<and> by_person r (pc_name p) = Some i \<or>
     by_room r room_id = None \<and> all_of r = Some i"
  using assms
  by (auto simp: inbound_def Let_def split: if_splits option.splits prod.splits)

text \<open>
  What a session's configuration claims: of the rooms some session lists only those it
  lists itself; then everything, group rooms, or its rooms and the DMs of its people.
\<close>

definition claims :: "config \<Rightarrow> session_config \<Rightarrow> string \<Rightarrow> room_kind \<Rightarrow> person_config \<Rightarrow> bool" where
  "claims c s room_id kind p =
     (((\<exists>t \<in> set (sessions c). room_id \<in> set (listed_rooms (sc_receive t))) \<longrightarrow>
         room_id \<in> set (listed_rooms (sc_receive s))) \<and>
      (case sc_receive s of
         RecvAll \<Rightarrow> True
       | RecvGroups \<Rightarrow> kind = Group
       | Selective ps rs \<Rightarrow> room_id \<in> set rs \<or> kind = Dm \<and> pc_name p \<in> set ps))"

lemma inbound_claimed:
  assumes "validate c = Inr ()"
    and "inbound sender room_id members shape (routing_new c) = InDeliver name p kind"
  shows "\<exists>s. s \<in> set (sessions c) \<and> sc_name s = name \<and> p \<in> set (people c) \<and>
     sender \<in> set (pc_addresses p) \<and> sender \<noteq> user_id (matrix c) \<and>
     (kind = Group \<longleftrightarrow> is_group (card (fst (people_in members (routing_new c)))) shape) \<and>
     claims c s room_id kind p"
proof -
  obtain i where i: "\<not> is_bot sender (routing_new c)" "person_for sender (routing_new c) = Some p"
    "name = sc_name (sessions c ! i)"
    "kind = (if is_group (card (fst (people_in members (routing_new c)))) shape then Group else Dm)"
    "by_room (routing_new c) room_id = Some i \<or>
     by_room (routing_new c) room_id = None \<and> kind = Group \<and> groups_of (routing_new c) = Some i \<or>
     by_room (routing_new c) room_id = None \<and> kind = Dm \<and> by_person (routing_new c) (pc_name p) = Some i \<or>
     by_room (routing_new c) room_id = None \<and> all_of (routing_new c) = Some i"
    using inbound_Deliver [OF assms(2)] by (metis routing_new_fields(3))
  note tables = validated_tables [OF assms(1)]
  have len: "i < length (sessions c)"
    using i(5) by (auto simp: tables)
  have listed: "(\<exists>t \<in> set (sessions c). room_id \<in> set (listed_rooms (sc_receive t))) \<Longrightarrow>
      by_room (routing_new c) room_id \<noteq> None"
    by (metis in_set_conv_nth option.distinct(1) tables(3))
  have person: "p \<in> set (people c)" "sender \<in> set (pc_addresses p)"
    using i(2) by (simp_all add: person_for_Some [OF assms(1)])
  show ?thesis
    unfolding claims_def
  proof (intro exI [of _ "sessions c ! i"] conjI)
    show "case sc_receive (sessions c ! i) of RecvAll \<Rightarrow> True | RecvGroups \<Rightarrow> kind = Group
        | Selective ps rs \<Rightarrow> room_id \<in> set rs \<or> kind = Dm \<and> pc_name p \<in> set ps"
      using i(5) by (auto simp: tables split: receive.splits)
    show "(\<exists>t \<in> set (sessions c). room_id \<in> set (listed_rooms (sc_receive t))) \<longrightarrow>
        room_id \<in> set (listed_rooms (sc_receive (sessions c ! i)))"
      using listed i(5) tables(3) by (metis option.distinct(1))
  qed (use i(1,3,4) len person in \<open>auto simp: is_bot_def\<close>)
qed

section \<open>Reading and writing agree with the routing\<close>

lemma sender_found:
  assumes "sender \<in> set members" "\<not> is_bot sender r" "person_for sender r = Some p"
  shows "pc_name p \<in> fst (people_in members r)"
  using assms by (auto simp: people_in_eq)

lemma owns_room_eq:
  "owns_room i room_id members shape r = Inr () \<longleftrightarrow>
     by_room r room_id = Some i \<or>
     fst (people_in members r) \<noteq> {} \<and> snd (people_in members r) \<and>
     (case sc_receive (rt_sessions r ! i) of
        RecvAll \<Rightarrow> True
      | RecvGroups \<Rightarrow> is_group (card (fst (people_in members r))) shape
      | Selective listed _ \<Rightarrow> \<not> is_group (card (fst (people_in members r))) shape \<and>
          fst (people_in members r) \<subseteq> set listed)"
  by (auto simp: owns_room_def Let_def split: prod.splits receive.splits)

lemma dm_found:
  assumes "sender \<in> set members" "\<not> is_bot sender r" "person_for sender r = Some p"
    and "\<not> is_group (card (fst (people_in members r))) shape"
  shows "fst (people_in members r) = {pc_name p}"
  using card_at_most_one [OF people_in_finite sender_found [OF assms(1-3)]] assms(4)
  by (auto simp: is_group_def)

text \<open>
  A session other than the one receiving everything reads a room exactly when it
  receives its messages, as long as no other session lists the room.
\<close>

lemma owns_iff_receives:
  assumes "validate c = Inr ()" and "j < length (sessions c)"
    and "sc_receive (sessions c ! j) \<noteq> RecvAll"
    and "by_room (routing_new c) room_id \<in> {None, Some j}"
    and "sender \<in> set members" "sender \<noteq> user_id (matrix c)"
    and "person_for sender (routing_new c) = Some p" and "snd (people_in members (routing_new c))"
  shows "owns_room j room_id members shape (routing_new c) = Inr () \<longleftrightarrow>
    (\<exists>kind. inbound sender room_id members shape (routing_new c) = InDeliver (sc_name (sessions c ! j)) p kind)"
proof -
  let ?r = "routing_new c" and ?found = "fst (people_in members (routing_new c))"
  note tables = validated_tables [OF assms(1)]
  have names: "distinct (map sc_name (sessions c))"
    using assms(1) unfolding validate_ok_iff config_ok_def sessions_ok_def by blast
  have same: "k < length (sessions c) \<Longrightarrow> sc_name (sessions c ! k) = sc_name (sessions c ! j) \<longleftrightarrow> k = j" for k
    using nth_eq_iff_index_eq [OF names, of k j] assms(2) by simp
  have not_bot: "\<not> is_bot sender ?r"
    using assms(6) by (simp add: is_bot_def)
  have found: "pc_name p \<in> ?found"
    by (rule sender_found [OF assms(5) not_bot assms(7)])
  have dm: "\<not> is_group (card ?found) shape \<Longrightarrow> ?found = {pc_name p}"
    by (rule dm_found [OF assms(5) not_bot assms(7)])
  show ?thesis
  proof (cases "by_room ?r room_id")
    case (Some k)
    with assms(4) have "k = j" by simp
    with Some not_bot assms(7) show ?thesis
      by (auto simp: owns_room_eq inbound_def Let_def split: prod.splits)
  next
    case None
    define owner where "owner = (let specific = (if is_group (card ?found) shape then groups_of ?r
        else by_person ?r (pc_name p)) in case specific of Some i \<Rightarrow> Some i | None \<Rightarrow> all_of ?r)"
    have "inbound sender room_id members shape ?r = InDeliver (sc_name (sessions c ! j)) p kind \<longleftrightarrow>
        owner = Some j \<and> kind = (if is_group (card ?found) shape then Group else Dm)" for kind
    proof -
      have "owner = Some k \<Longrightarrow> k < length (sessions c)" for k
        by (auto simp: owner_def Let_def tables split: if_splits option.splits)
      with None not_bot assms(7) same show ?thesis
        by (auto simp: inbound_def owner_def Let_def split: prod.splits option.splits)
    qed
    moreover have "owner = Some j \<longleftrightarrow> (if is_group (card ?found) shape then groups_of ?r = Some j
        else by_person ?r (pc_name p) = Some j)"
    proof -
      have "all_of ?r \<noteq> Some j"
        using assms(3) by (simp add: tables(5))
      then show ?thesis
        by (simp add: owner_def Let_def split: option.splits)
    qed
    moreover have "owns_room j room_id members shape ?r = Inr () \<longleftrightarrow>
        (if is_group (card ?found) shape then sc_receive (sessions c ! j) = RecvGroups
         else pc_name p \<in> set (listed_people (sc_receive (sessions c ! j))))"
    proof -
      have "?found \<noteq> {}" using found by blast
      moreover have "?found \<subseteq> set l \<longleftrightarrow> pc_name p \<in> set l" if "\<not> is_group (card ?found) shape" for l
        unfolding dm [OF that] by simp
      ultimately show ?thesis
        using None assms(3,8) unfolding owns_room_eq by (cases "sc_receive (sessions c ! j)") simp_all
    qed
    ultimately show ?thesis
      using assms(2) by (simp add: tables)
  qed
qed

text \<open>
  C28: read access is the routing. In a room of registered people that no other session
  lists, a session (the one receiving everything apart) may read the history if and only
  if the routing delivers each registered member's messages to it.
\<close>

theorem may_read_iff_receives:
  assumes "validate c = Inr ()" and "s \<in> set (sessions c)" and "sc_receive s \<noteq> RecvAll"
    and "\<forall>t \<in> set (sessions c). room_id \<in> set (listed_rooms (sc_receive t)) \<longrightarrow> t = s"
    and "sender \<in> set members" "sender \<noteq> user_id (matrix c)"
    and "person_for sender (routing_new c) = Some p"
    and "\<forall>m \<in> set members. m \<noteq> user_id (matrix c) \<longrightarrow> person_for m (routing_new c) \<noteq> None"
  shows "may_read (sc_name s) room_id members shape (routing_new c) = Inr () \<longleftrightarrow>
    (\<exists>kind. inbound sender room_id members shape (routing_new c) = InDeliver (sc_name s) p kind)"
proof -
  obtain j where j: "j < length (sessions c)" "sessions c ! j = s"
    using assms(2) by (auto simp: in_set_conv_nth)
  note tables = validated_tables [OF assms(1)]
  have names: "distinct (map sc_name (sessions c))"
    using assms(1) unfolding validate_ok_iff config_ok_def sessions_ok_def by blast
  have "by_room (routing_new c) room_id \<in> {None, Some j}"
  proof (cases "by_room (routing_new c) room_id")
    case (Some k)
    then have k: "k < length (sessions c)" "room_id \<in> set (listed_rooms (sc_receive (sessions c ! k)))"
      by (simp_all add: tables)
    with assms(4) j have "sessions c ! k = sessions c ! j" by auto
    then have "k = j"
      using nth_eq_iff_index_eq [OF names, of k j] k(1) j(1) by simp
    with Some show ?thesis by simp
  qed simp
  from owns_iff_receives [OF assms(1) j(1) _ this assms(5-7)]
  have "owns_room j room_id members shape (routing_new c) = Inr () \<longleftrightarrow>
      (\<exists>kind. inbound sender room_id members shape (routing_new c) = InDeliver (sc_name s) p kind)"
    using assms(3,8) j by (simp add: people_in_eq is_bot_def)
  moreover have "by_name (routing_new c) (sc_name s) = Some j" "all_of (routing_new c) \<noteq> Some j"
    using j assms(3) by (auto simp: tables)
  ultimately show ?thesis
    by (simp add: may_read_def)
qed

theorem may_read_iff_receives_witness:
  "may_read ''mind'' ''!dm'' [''@a:x'', ''@bot:x''] RoomShape_DM (routing_new demo_config) = Inr ()"
proof -
  let ?r = "routing_new demo_config"
  have p: "person_for ''@a:x'' ?r = Some \<lparr>pc_name = ''alice'', pc_role = Owner, pc_addresses = [''@a:x'']\<rparr>"
    by (simp add: person_for_def demo_config_def routing_new_def)
  have "inbound ''@a:x'' ''!dm'' [''@a:x'', ''@bot:x''] RoomShape_DM ?r =
      InDeliver ''mind'' \<lparr>pc_name = ''alice'', pc_role = Owner, pc_addresses = [''@a:x'']\<rparr> Dm"
    by (simp add: inbound_def is_bot_def person_for_def people_in_def demo_config_def routing_new_def
        is_group_def RoomShape_DM_def)
  then show ?thesis
    using may_read_iff_receives [OF demo_config_valid, of "sessions demo_config ! 0" "''!dm''" "''@a:x''"
        "[''@a:x'', ''@bot:x'']", OF _ _ _ _ _ p, of RoomShape_DM] p
    by (simp add: demo_config_def)
qed

text \<open>
  Whoever receives a message can answer it. If a message of a member of a room of
  registered people is delivered to a session, that session may read the room and send
  into it, whatever its policy.
\<close>

theorem receiver_may_answer:
  assumes "validate c = Inr ()" and "sender \<in> set members"
    and "inbound sender room_id members shape (routing_new c) = InDeliver name p kind"
    and "\<forall>m \<in> set members. m \<noteq> user_id (matrix c) \<longrightarrow> person_for m (routing_new c) \<noteq> None"
  shows "may_read name room_id members shape (routing_new c) = Inr () \<and>
    may_send name room_id members shape (routing_new c) = Inr ()"
proof -
  let ?r = "routing_new c" and ?found = "fst (people_in members (routing_new c))"
  note tables = validated_tables [OF assms(1)]
  obtain i where i: "\<not> is_bot sender ?r" "person_for sender ?r = Some p" "name = sc_name (sessions c ! i)"
    "kind = (if is_group (card ?found) shape then Group else Dm)"
    "by_room ?r room_id = Some i \<or> by_room ?r room_id = None \<and> kind = Group \<and> groups_of ?r = Some i \<or>
     by_room ?r room_id = None \<and> kind = Dm \<and> by_person ?r (pc_name p) = Some i \<or>
     by_room ?r room_id = None \<and> all_of ?r = Some i"
    using inbound_Deliver [OF assms(3)] by (metis routing_new_fields(3))
  have len: "i < length (sessions c)"
    using i(5) by (auto simp: tables)
  have found: "pc_name p \<in> ?found"
    by (rule sender_found [OF assms(2) i(1,2)])
  have dm: "\<not> is_group (card ?found) shape \<Longrightarrow> ?found = {pc_name p}"
    by (rule dm_found [OF assms(2) i(1,2)])
  have reg: "snd (people_in members ?r)"
    using assms(4) by (simp add: people_in_eq is_bot_def)
  have own: "owns_room i room_id members shape ?r = Inr ()"
    using i(4,5) found dm reg
    by (cases "sc_receive (sessions c ! i)")
       (auto simp: owns_room_eq tables split: if_splits)
  have "by_name ?r name = Some i"
    using len by (simp add: tables i(3))
  with own show ?thesis
    by (simp add: may_read_def may_send_def split: send_policy.splits)
qed

theorem receiver_may_answer_witness:
  "may_send ''hub'' ''!g'' [''@a:x'', ''@b:x'', ''@bot:x''] RoomShape_DM (routing_new demo_config) = Inr ()"
proof -
  have "inbound ''@b:x'' ''!g'' [''@a:x'', ''@b:x'', ''@bot:x''] RoomShape_DM (routing_new demo_config) =
      InDeliver ''hub'' \<lparr>pc_name = ''bob'', pc_role = Family, pc_addresses = [''@b:x'']\<rparr> Group"
    by (simp add: inbound_def is_bot_def person_for_def people_in_def demo_config_def routing_new_def
        is_group_def RoomShape_DM_def)
  from receiver_may_answer [OF demo_config_valid _ this] show ?thesis
    by (simp add: person_for_def demo_config_def routing_new_def)
qed

text \<open>
  The session that receives groups may read a group room that another session lists:
  the room's messages go to the listing session alone, its history is open to the hub.
\<close>

theorem hub_reads_listed_group:
  "inbound ''@a:x'' ''!private'' [''@a:x'', ''@b:x'', ''@bot:x''] RoomShape_NAMED (routing_new demo_config) =
     InDeliver ''mind'' \<lparr>pc_name = ''alice'', pc_role = Owner, pc_addresses = [''@a:x'']\<rparr> Group \<and>
   may_read ''hub'' ''!private'' [''@a:x'', ''@b:x'', ''@bot:x''] RoomShape_NAMED (routing_new demo_config) = Inr ()"
  by (simp add: inbound_def may_read_def owns_room_def is_bot_def person_for_def people_in_def
      demo_config_def routing_new_def is_group_def RoomShape_NAMED_def)

text \<open>
  The handshake does not tell a mind about other people: a session that lists people
  and no rooms is announced exactly the people it lists, every other session everyone.
\<close>

theorem people_for_listed:
  assumes "validate c = Inr ()" and "s \<in> set (sessions c)"
  shows "people_for (sc_name s) (routing_new c) =
    map (\<lambda>p. \<lparr>person_name = pc_name p, person_role = pc_role p\<rparr>)
      (filter (\<lambda>p. (\<exists>ps. sc_receive s = Selective ps []) \<longrightarrow> pc_name p \<in> set (listed_people (sc_receive s)))
         (people c))"
proof -
  obtain i where "i < length (sessions c)" "sessions c ! i = s"
    using assms(2) by (auto simp: in_set_conv_nth)
  then have "rt_session (sc_name s) (routing_new c) = Some s"
    using validated_tables(2) [OF assms(1), of "sc_name s" i] by (simp add: rt_session_def)
  then show ?thesis
    by (cases "sc_receive s") (auto simp: people_for_def Let_def)
qed

theorem people_for_listed_witness:
  "people_for ''mind'' (routing_new (demo_config\<lparr>sessions := [\<lparr>sc_name = ''mind'',
      sc_receive = Selective [''alice''] [], sc_send = SendOwn, sc_user = ''u'', sc_relay_permissions = None\<rparr>]\<rparr>)) =
   [\<lparr>person_name = ''alice'', person_role = Owner\<rparr>]"
proof -
  let ?s = "\<lparr>sc_name = ''mind'', sc_receive = Selective [''alice''] [], sc_send = SendOwn, sc_user = ''u'',
    sc_relay_permissions = None\<rparr>"
  have "validate (demo_config\<lparr>sessions := [?s]\<rparr>) = Inr ()"
    by (simp add: demo_config_def validate_def is_user_id_def starts_with_def ends_with_def Let_def)
  from people_for_listed [OF this, of ?s] show ?thesis
    by (simp add: demo_config_def)
qed

end
