(* ===== verification/Stream_Json.thy ===== *)
theory Stream_Json
  imports Protocol
begin

text \<open>
  Claude Code's output lines as the supervisor reads them
  (\<open>crates/silta-session/src/stream.rs\<close>): the event of a line and its journal line. The
  JSON parser \<open>from_str\<close>, the rendering of a JSON value (\<open>show_json\<close>) and number
  (\<open>show_num\<close>) by serde_json and of the cost with four decimals (\<open>show_cost\<close>) are
  parameters. A JSON object is the list of its entries in the map's order.
\<close>

section \<open>Events\<close>

datatype stream_event =
    SInit string string
  | SAssistant bool "u64 option" bool
  | SUser bool
  | SResult bool bool
  | SBackgroundTasks "string list"
  | SCompacted bool
  | SCompactionFailed
  | SContextUsage string "u64 option"
  | SModelFallback string
  | SOther

type_synonym jmap = "(string \<times> json) list"

definition get_str :: "string \<Rightarrow> jmap \<Rightarrow> string option" where
  "get_str k m = Option.bind (map_of m k) json_as_str"

definition str_of :: "jmap \<Rightarrow> string \<Rightarrow> string" where
  "str_of m k = (case get_str k m of Some s \<Rightarrow> s | None \<Rightarrow> ''?'')"

definition num_of :: "jmap \<Rightarrow> string \<Rightarrow> u64" where
  "num_of m k = (case Option.bind (map_of m k) json_as_u64 of Some n \<Rightarrow> n | None \<Rightarrow> 0)"

definition len_of :: "jmap \<Rightarrow> string \<Rightarrow> nat" where
  "len_of m k = (case Option.bind (map_of m k) json_as_array of Some js \<Rightarrow> length js | None \<Rightarrow> 0)"

definition shorten :: "string \<Rightarrow> nat \<Rightarrow> string" where
  "shorten txt n =
     (let flat = chars (join '' '' (map concat (split_whitespace_u (chars txt))))
      in if length flat \<le> n then concat flat
         else concat (take n flat) @ [CHR 0xE2, CHR 0x80, CHR 0xA6])"

definition channel_origin :: "jmap \<Rightarrow> bool" where
  "channel_origin m =
     (Option.bind (Option.bind (map_of m ''origin'') (json_get ''kind'')) json_as_str = Some ''channel'')"

fun find_text :: "json list \<Rightarrow> string option" where
  "find_text [] = None"
| "find_text (b # bs) =
     (case Option.bind (json_get ''text'' b) json_as_str of Some s \<Rightarrow> Some s | None \<Rightarrow> find_text bs)"

definition person_of :: "jmap \<Rightarrow> bool" where
  "person_of m =
     (if channel_origin m then True
      else let txt = (case Option.bind (map_of m ''message'') (json_get ''content'') of
                        Some (JString s) \<Rightarrow> Some s
                      | Some (JArray blocks) \<Rightarrow> find_text blocks
                      | _ \<Rightarrow> None)
           in (case txt of
                 None \<Rightarrow> False
               | Some t \<Rightarrow> starts_with ''<channel'' (concat (trim_start_u (chars t)))))"

definition subagent :: "jmap \<Rightarrow> bool" where
  "subagent m = (case map_of m ''parent_tool_use_id'' of None \<Rightarrow> False | Some v \<Rightarrow> v \<noteq> JNull)"

definition usage_n :: "json \<Rightarrow> string \<Rightarrow> u64" where
  "usage_n usage k = (case Option.bind (json_get k usage) json_as_u64 of Some n \<Rightarrow> n | None \<Rightarrow> 0)"

definition context_of :: "jmap \<Rightarrow> u64 option" where
  "context_of m =
     (case Option.bind (map_of m ''message'') (json_get ''usage'') of
        None \<Rightarrow> None
      | Some usage \<Rightarrow>
          Some (usage_n usage ''input_tokens'' + usage_n usage ''cache_read_input_tokens'' +
                usage_n usage ''cache_creation_input_tokens''))"

definition system_event :: "jmap \<Rightarrow> stream_event" where
  "system_event m =
     (let sub = get_str ''subtype'' m in
      if sub = Some ''init'' then SInit (str_of m ''session_id'') (str_of m ''claude_code_version'')
      else if sub = Some ''compact_boundary''
      then SCompacted (Option.bind (Option.bind (map_of m ''compact_metadata'') (json_get ''trigger'')) json_as_str
             = Some ''auto'')
      else if sub = Some ''status''
      then (case get_str ''compact_result'' m of
              Some r \<Rightarrow> if r \<noteq> ''success'' then SCompactionFailed else SOther
            | None \<Rightarrow> SOther)
      else if sub = Some ''background_tasks_changed''
      then SBackgroundTasks (case Option.bind (map_of m ''tasks'') json_as_array of
             None \<Rightarrow> []
           | Some tasks \<Rightarrow>
               List.map_filter (\<lambda>t. Option.bind (json_get ''task_id'' t) json_as_str)
                 (filter (\<lambda>t. Option.bind (json_get ''ambient'' t) json_as_bool \<noteq> Some True) tasks))
      else if sub = Some ''model_fallback'' then SModelFallback (str_of m ''trigger'')
      else SOther)"

section \<open>Journal lines\<close>

definition control_response :: "jmap \<Rightarrow> string \<times> stream_event" where
  "control_response m =
     (let response = Option.bind (map_of m ''response'') json_as_object;
          field = (\<lambda>k. Option.bind response (\<lambda>r. map_of r k));
          sub = (case Option.bind (field ''subtype'') json_as_str of Some s \<Rightarrow> s | None \<Rightarrow> ''?'');
          request_id = (case Option.bind (field ''request_id'') json_as_str of Some s \<Rightarrow> s | None \<Rightarrow> ''?'');
          max_tokens = (if sub = ''success''
                        then Option.bind (Option.bind (field ''response'') (json_get ''maxTokens'')) json_as_u64
                        else None);
          line0 = ''control_response '' @ sub @ '': request_id='' @ request_id;
          line1 = (case max_tokens of Some n \<Rightarrow> line0 @ '' maxTokens='' @ dec (unat n) | None \<Rightarrow> line0);
          line2 = (case Option.bind (field ''error'') json_as_str of
                     Some e \<Rightarrow> line1 @ ''; '' @ shorten e 300 | None \<Rightarrow> line1)
      in (line2, if request_id = ''?'' then SOther else SContextUsage request_id max_tokens))"

definition system_parts :: "(jnumber \<Rightarrow> string) \<Rightarrow> jmap \<Rightarrow> string list" where
  "system_parts show_num es =
     List.map_filter (\<lambda>(k, v).
       if k \<in> {''type'', ''subtype'', ''session_id'', ''uuid'', ''compact_metadata''} then None
       else case v of
              JString s \<Rightarrow> if list_ex is_whitespace (chars s) then None else Some (k @ ''='' @ shorten s 200)
            | JNumber n \<Rightarrow> Some (k @ ''='' @ show_num n)
            | JBool b \<Rightarrow> Some (k @ ''='' @ (if b then ''true'' else ''false''))
            | JArray items \<Rightarrow> Some (k @ ''='' @ dec (length items))
            | _ \<Rightarrow> None) es"

definition system_line :: "(jnumber \<Rightarrow> string) \<Rightarrow> (json \<Rightarrow> string) \<Rightarrow> jmap \<Rightarrow> string" where
  "system_line show_num show_json m =
     (let sub = (case get_str ''subtype'' m of Some s \<Rightarrow> s | None \<Rightarrow> ''?'') in
      if sub = ''init''
      then ''system init: session '' @ str_of m ''session_id'' @ '', model '' @ str_of m ''model'' @
           '', Claude Code '' @ str_of m ''claude_code_version'' @ '', permission mode '' @
           str_of m ''permissionMode'' @ '', '' @ dec (len_of m ''tools'') @ '' tools, '' @
           dec (len_of m ''mcp_servers'') @ '' mcp servers, '' @ dec (len_of m ''plugins'') @ '' plugins''
      else if sub \<in> {''informational'', ''model_refusal_fallback'', ''model_refusal_no_fallback''}
      then ''system '' @ sub @ '': '' @
           join '' '' (map (\<lambda>(k, v). k @ ''='' @ show_json v)
             (filter (\<lambda>(k, v). k \<notin> {''type'', ''subtype''}) m))
      else let nested = (case Option.bind (map_of m ''compact_metadata'') json_as_object of
                           Some es \<Rightarrow> es | None \<Rightarrow> [])
           in ''system '' @ sub @ '': '' @ join '' '' (system_parts show_num (m @ nested)))"

text \<open>
  The counters of the loop over a message's blocks: texts, bytes, tools, results, errors
  and other blocks.
\<close>

record message_counts =
  mc_texts :: nat
  mc_bytes :: nat
  mc_tools :: "string list"
  mc_results :: nat
  mc_errors :: nat
  mc_other :: nat

definition text_len :: "json \<Rightarrow> nat" where
  "text_len j = (case Option.bind (json_get ''text'' j) json_as_str of Some s \<Rightarrow> length s | None \<Rightarrow> 0)"

definition count_block :: "json \<Rightarrow> message_counts \<Rightarrow> message_counts" where
  "count_block b c =
     (let kind = Option.bind (json_get ''type'' b) json_as_str in
      if kind = Some ''text''
      then c\<lparr>mc_texts := mc_texts c + 1, mc_bytes := mc_bytes c + text_len b\<rparr>
      else if kind = Some ''tool_use''
      then c\<lparr>mc_tools := mc_tools c @
              [case Option.bind (json_get ''name'' b) json_as_str of Some s \<Rightarrow> s | None \<Rightarrow> ''?'']\<rparr>
      else if kind = Some ''tool_result''
      then c\<lparr>mc_results := mc_results c + 1,
             mc_errors := mc_errors c + (if Option.bind (json_get ''is_error'' b) json_as_bool = Some True then 1 else 0),
             mc_bytes := mc_bytes c + (case json_get ''content'' b of
                Some (JString s) \<Rightarrow> length s
              | Some (JArray items) \<Rightarrow> sum_list (map text_len items)
              | _ \<Rightarrow> 0)\<rparr>
      else c\<lparr>mc_other := mc_other c + 1\<rparr>)"

definition message_content :: "jmap \<Rightarrow> message_counts" where
  "message_content m =
     (let c0 = \<lparr>mc_texts = 0, mc_bytes = 0, mc_tools = [], mc_results = 0, mc_errors = 0, mc_other = 0\<rparr> in
      case Option.bind (map_of m ''message'') (json_get ''content'') of
        Some (JString s) \<Rightarrow> c0\<lparr>mc_texts := 1, mc_bytes := length s\<rparr>
      | Some (JArray blocks) \<Rightarrow> foldl (\<lambda>c b. count_block b c) c0 blocks
      | _ \<Rightarrow> c0)"

definition message_line :: "string \<Rightarrow> jmap \<Rightarrow> string" where
  "message_line role m =
     (let c = message_content m;
          parts =
            (if mc_texts c > 0 then [dec (mc_texts c) @ '' text ('' @ dec (mc_bytes c) @ '' bytes)''] else []) @
            (if mc_tools c \<noteq> [] then [''tool_use '' @ join '','' (mc_tools c)] else []) @
            (if mc_results c > 0
             then [dec (mc_results c) @ '' tool_result ('' @ dec (mc_bytes c) @ '' bytes'' @
                   (if mc_errors c > 0 then '', '' @ dec (mc_errors c) @ '' failed'' else []) @ '')''] else []) @
            (if mc_other c > 0 then [dec (mc_other c) @ '' other''] else []) @
            (case Option.bind (Option.bind (map_of m ''message'') (json_get ''model'')) json_as_str of
               Some s \<Rightarrow> [''model '' @ s] | None \<Rightarrow> []) @
            (case Option.bind (Option.bind (map_of m ''message'') (json_get ''stop_reason'')) json_as_str of
               Some s \<Rightarrow> [''stop '' @ s] | None \<Rightarrow> []) @
            (if role = ''assistant'' \<and> \<not> subagent m
             then (case context_of m of Some n \<Rightarrow> [''context '' @ dec (unat n)] | None \<Rightarrow> []) else []);
          parts' = (if role = ''user'' \<and> person_of m then ''channel'' # parts else parts)
      in role @ '': '' @ join '', '' parts')"

definition result_line :: "(json option \<Rightarrow> string) \<Rightarrow> jmap \<Rightarrow> string" where
  "result_line show_cost m =
     (let sub = (case get_str ''subtype'' m of Some s \<Rightarrow> s | None \<Rightarrow> ''?'');
          is_error = (case Option.bind (map_of m ''is_error'') json_as_bool of Some b \<Rightarrow> b | None \<Rightarrow> False);
          tokens = (\<lambda>k. case Option.bind (Option.bind (map_of m ''usage'') (json_get k)) json_as_u64 of
                      Some n \<Rightarrow> dec (unat n) | None \<Rightarrow> dec 0);
          line = ''result '' @ sub @ (if is_error then '' ERROR'' else []) @ '': '' @
            dec (unat (num_of m ''num_turns'')) @ '' turns, '' @ dec (unat (num_of m ''duration_ms'')) @
            '' ms (api '' @ dec (unat (num_of m ''duration_api_ms'')) @ '' ms), tokens in '' @
            tokens ''input_tokens'' @ '' out '' @ tokens ''output_tokens'' @ '' cache read '' @
            tokens ''cache_read_input_tokens'' @ '' write '' @ tokens ''cache_creation_input_tokens'' @
            '', cost $'' @ show_cost (map_of m ''total_cost_usd'');
          line1 = (if channel_origin m then line @ '', channel turn'' else line);
          line2 = (case Option.bind (map_of m ''permission_denials'') json_as_array of
                     Some (d # ds) \<Rightarrow> line1 @ '', '' @ dec (length (d # ds)) @ '' permission denials''
                   | _ \<Rightarrow> line1)
      in if is_error
         then (case get_str ''result'' m of Some t \<Rightarrow> line2 @ ''; '' @ shorten t 500 | None \<Rightarrow> line2)
         else line2)"

text \<open>\<open>read\<close>, the journal line and the event of one line.\<close>

definition stream_read :: "(string \<Rightarrow> json option) \<Rightarrow> (jnumber \<Rightarrow> string) \<Rightarrow> (json \<Rightarrow> string) \<Rightarrow>
    (json option \<Rightarrow> string) \<Rightarrow> string \<Rightarrow> string \<times> stream_event" where
  "stream_read from_str show_num show_json show_cost line =
     (case from_str line of
        Some (JObject m) \<Rightarrow>
          (let kind = (case get_str ''type'' m of Some s \<Rightarrow> s | None \<Rightarrow> ''?'') in
           if kind = ''system'' then (system_line show_num show_json m, system_event m)
           else if kind = ''assistant''
           then (message_line ''assistant'' m,
                 SAssistant (subagent m) (context_of m)
                   (Option.bind (Option.bind (map_of m ''message'') (json_get ''model'')) json_as_str
                     = Some ''<synthetic>''))
           else if kind = ''user'' then (message_line ''user'' m, SUser (person_of m))
           else if kind = ''result''
           then (result_line show_cost m,
                 SResult (case Option.bind (map_of m ''is_error'') json_as_bool of Some b \<Rightarrow> b | None \<Rightarrow> False)
                   (channel_origin m))
           else if kind = ''stream_event''
           then (''stream_event '' @
                   (case Option.bind (Option.bind (map_of m ''event'') (json_get ''type'')) json_as_str of
                      Some s \<Rightarrow> s | None \<Rightarrow> ''?''), SOther)
           else if kind = ''control_response'' \<and> map_of m ''response'' \<noteq> None then control_response m
           else (case get_str ''subtype'' m of
                   Some sub \<Rightarrow> kind @ '' '' @ sub
                 | None \<Rightarrow> kind, SOther))
      | _ \<Rightarrow> (line, SOther))"

section \<open>The journal does not carry the conversation\<close>

text \<open>
  Replacing the texts of a message: the texts of its blocks, the contents of its tool
  results, or the content itself when it is one string.
\<close>

definition redact_str :: "(string \<Rightarrow> string) \<Rightarrow> json \<Rightarrow> json" where
  "redact_str f v = (case v of JString s \<Rightarrow> JString (f s) | _ \<Rightarrow> v)"

definition redact_key :: "string \<Rightarrow> (json \<Rightarrow> json) \<Rightarrow> json \<Rightarrow> json" where
  "redact_key k f j = (case j of JObject es \<Rightarrow> JObject (map (\<lambda>(l, v). (l, if l = k then f v else v)) es) | _ \<Rightarrow> j)"

definition redact_items :: "(json \<Rightarrow> json) \<Rightarrow> (string \<Rightarrow> string) \<Rightarrow> json \<Rightarrow> json" where
  "redact_items g f v = (case v of JArray items \<Rightarrow> JArray (map g items) | _ \<Rightarrow> redact_str f v)"

definition redact_block :: "(string \<Rightarrow> string) \<Rightarrow> json \<Rightarrow> json" where
  "redact_block f b =
     redact_key ''content'' (redact_items (redact_key ''text'' (redact_str f)) f)
       (redact_key ''text'' (redact_str f) b)"

definition redact_message :: "(string \<Rightarrow> string) \<Rightarrow> jmap \<Rightarrow> jmap" where
  "redact_message f m =
     map (\<lambda>(k, v). (k, if k = ''message''
       then redact_key ''content'' (redact_items (redact_block f) f) v else v)) m"

lemma map_of_redact: "map_of (map (\<lambda>(l, v). (l, if l = k then f v else v)) es) x =
    (if x = k then map_option f (map_of es x) else map_of es x)"
  by (induction es) auto

lemma json_get_redact [simp]:
  "json_get x (redact_key k f j) = (if x = k then map_option f (json_get x j) else json_get x j)"
  by (cases j) (auto simp: json_get_def redact_key_def map_of_redact)

lemma json_as_str_redact: "json_as_str (redact_str f v) = map_option f (json_as_str v)"
  by (cases v) (auto simp: json_as_str_def redact_str_def)

lemma text_len_redact [simp]:
  assumes "\<And>s. length (f s) = length s"
  shows "text_len (redact_key ''text'' (redact_str f) j) = text_len j"
  using assms
  by (cases "json_get ''text'' j")
     (auto simp: text_len_def json_as_str_redact split: option.splits)

lemma text_len_other [simp]: "k \<noteq> ''text'' \<Longrightarrow> text_len (redact_key k f j) = text_len j"
  by (simp add: text_len_def)

lemma count_block_redact:
  assumes "\<And>s. length (f s) = length s"
  shows "count_block (redact_block f b) c = count_block b c"
  unfolding count_block_def redact_block_def
  by (cases "json_get ''content'' b")
     (simp_all add: Let_def assms redact_items_def redact_str_def comp_def split: json.splits)

lemma message_content_redact:
  assumes "\<And>s. length (f s) = length s"
  shows "message_content (redact_message f m) = message_content m"
proof -
  have fold: "foldl (\<lambda>c b. count_block b c) c (map (redact_block f) bs) =
      foldl (\<lambda>c b. count_block b c) c bs" for c bs
    by (induction bs arbitrary: c) (simp_all add: count_block_redact [OF assms])
  show ?thesis
  proof (cases "Option.bind (map_of m ''message'') (json_get ''content'')")
    case None
    then show ?thesis
      by (cases "map_of m ''message''")
         (auto simp: message_content_def redact_message_def map_of_redact Let_def)
  next
    case (Some v)
    then have "Option.bind (map_of (redact_message f m) ''message'') (json_get ''content'') =
        Some (redact_items (redact_block f) f v)"
      by (cases "map_of m ''message''") (auto simp: redact_message_def map_of_redact)
    with Some show ?thesis
      by (cases v) (simp_all add: message_content_def Let_def redact_items_def redact_str_def fold assms)
  qed
qed

lemma redact_message_other:
  "k \<noteq> ''message'' \<Longrightarrow> map_of (redact_message f m) k = map_of m k"
  "k \<noteq> ''content'' \<Longrightarrow> Option.bind (map_of (redact_message f m) ''message'') (json_get k) =
     Option.bind (map_of m ''message'') (json_get k)"
  by (simp_all add: redact_message_def map_of_redact) (cases "map_of m ''message''", simp_all)

text \<open>
  The journal line of a message says nothing of its texts but their length: replacing
  every text of the conversation by any other of the same length gives the same line, for
  an assistant message always, for a user message as long as it stays (or stays not) a
  channel delivery.
\<close>

theorem journal_hides_text:
  assumes "\<And>s. length (f s) = length s" and "role = ''user'' \<longrightarrow> person_of (redact_message f m) = person_of m"
  shows "message_line role (redact_message f m) = message_line role m"
proof -
  have same: "subagent (redact_message f m) = subagent m" "context_of (redact_message f m) = context_of m"
    "Option.bind (map_of (redact_message f m) ''message'') (json_get ''model'') =
       Option.bind (map_of m ''message'') (json_get ''model'')"
    "Option.bind (map_of (redact_message f m) ''message'') (json_get ''stop_reason'') =
       Option.bind (map_of m ''message'') (json_get ''stop_reason'')"
    by (simp_all add: subagent_def context_of_def redact_message_other)
  have person: "(role = ''user'' \<and> person_of (redact_message f m)) = (role = ''user'' \<and> person_of m)"
    using assms(2) by auto
  show ?thesis
    unfolding message_line_def same person message_content_redact [OF assms(1)] ..
qed

theorem journal_hides_text_witness:
  "message_line ''assistant'' (redact_message (map (\<lambda>_. CHR ''x''))
     [(''message'', JObject [(''content'', JArray [JObject [(''type'', JString ''text''), (''text'', JString ''secret'')]])])]) =
   message_line ''assistant''
     [(''message'', JObject [(''content'', JArray [JObject [(''type'', JString ''text''), (''text'', JString ''secret'')]])])] \<and>
   redact_message (map (\<lambda>_. CHR ''x''))
     [(''message'', JObject [(''content'', JArray [JObject [(''type'', JString ''text''), (''text'', JString ''secret'')]])])] =
     [(''message'', JObject [(''content'', JArray [JObject [(''type'', JString ''text''), (''text'', JString ''xxxxxx'')]])])]"
  by (intro conjI journal_hides_text)
     (simp_all add: redact_message_def redact_key_def redact_items_def redact_block_def redact_str_def)

end
