(* ===== verification/Rotation.thy ===== *)
theory Rotation
  imports Stream_Json
begin

text \<open>
  The rotation state machine of the supervisor (\<open>crates/silta-session/src/rotation.rs\<close>).
  An operation takes the tracker and returns it with the actions for the supervisor.
  \<open>Instant\<close> and \<open>Duration\<close> are natural numbers on one clock, so \<open>duration_since\<close> is the
  truncated difference; \<open>attempts\<close> is a \<open>u32\<close> and its increment the wrapping one of a
  release build; the \<open>BTreeSet\<close> of background tasks is a set.
\<close>

section \<open>The data\<close>

record limits =
  enabled :: bool
  context_tokens :: u64
  idle :: duration
  quiet_cap :: duration
  handoff_cap :: duration
  compact_cap :: duration
  retry_pause :: duration

definition HANDOFF_ATTEMPTS :: u32 where
  "HANDOFF_ATTEMPTS = 2"

datatype moment = BeforeHandoff | AfterHandoff

definition moment_name :: "moment \<Rightarrow> string" where
  "moment_name m = (case m of BeforeHandoff \<Rightarrow> ''before-handoff'' | AfterHandoff \<Rightarrow> ''after-handoff'')"

datatype rot_step = Step_Wait | Step_Handoff | Step_Compaction

definition step_what :: "rot_step \<Rightarrow> string" where
  "step_what s =
     (case s of
        Step_Wait \<Rightarrow> ''the turn''
      | Step_Handoff \<Rightarrow> ''the handoff turn''
      | Step_Compaction \<Rightarrow> ''the compaction'')"

datatype action =
    MarkPending
  | Snapshot moment
  | RequestHandoff
  | AwaitHandoff
  | Compact
  | AwaitCompaction
  | Compacted
  | Retry rot_step u32 bool
  | Postpone rot_step u32 bool
  | GiveUp rot_step bool bool

datatype phase =
    Idle
  | Waiting instant
  | Handoff instant
  | Compacting instant bool bool

record tracker =
  lim :: limits
  turn :: bool
  agents :: "string set"
  ctx :: u64
  last_person :: instant
  pending :: bool
  not_before :: "instant option"
  attempts :: u32
  handoff :: bool
  note_written :: bool
  phase :: phase

section \<open>The operations\<close>

definition Tracker_new :: "limits \<Rightarrow> instant \<Rightarrow> tracker" where
  "Tracker_new l now =
     \<lparr>lim = l, turn = True, agents = {}, ctx = 0, last_person = now, pending = False,
      not_before = None, attempts = 0, handoff = False, note_written = True, phase = Idle\<rparr>"

definition Tracker_pending :: "instant \<Rightarrow> instant option \<Rightarrow> u32 \<Rightarrow> bool \<Rightarrow> tracker \<Rightarrow> tracker" where
  "Tracker_pending now nb att ho t =
     (if \<not> enabled (lim t) then t
      else let from = (case nb of None \<Rightarrow> now | Some x \<Rightarrow> max x now)
           in t\<lparr>pending := True, not_before := nb, attempts := att, handoff := ho,
                phase := Waiting (from + quiet_cap (lim t))\<rparr>)"

definition Tracker_retrying :: "instant \<Rightarrow> u32 \<Rightarrow> bool \<Rightarrow> tracker \<Rightarrow> tracker" where
  "Tracker_retrying now att ho t =
     t\<lparr>pending := True, attempts := att, handoff := ho, phase := Handoff (now + handoff_cap (lim t))\<rparr>"

definition quiet :: "tracker \<Rightarrow> bool" where
  "quiet t = (\<not> turn t \<and> agents t = {})"

definition awaiting_handoff :: "tracker \<Rightarrow> bool" where
  "awaiting_handoff t = (case phase t of Handoff _ \<Rightarrow> True | _ \<Rightarrow> False)"

definition set_note_written :: "bool \<Rightarrow> tracker \<Rightarrow> tracker" where
  "set_note_written written t = t\<lparr>note_written := written\<rparr>"

definition Tracker_done :: "tracker \<Rightarrow> tracker" where
  "Tracker_done t = t\<lparr>pending := False, not_before := None, attempts := 0, handoff := False, phase := Idle\<rparr>"

definition cancel :: "tracker \<Rightarrow> tracker \<times> bool" where
  "cancel t =
     (if \<not> pending t \<or> \<not> (case phase t of Waiting _ \<Rightarrow> True | _ \<Rightarrow> False) then (t, False)
      else (Tracker_done t, True))"

definition set_pending :: "instant \<Rightarrow> tracker \<Rightarrow> tracker" where
  "set_pending now t =
     (if \<not> pending t then t\<lparr>pending := True, phase := Waiting (now + quiet_cap (lim t))\<rparr> else t)"

definition cut :: "rot_step \<Rightarrow> tracker \<Rightarrow> tracker \<times> action list" where
  "cut step t =
     (let t1 = t\<lparr>phase := Idle, attempts := attempts t + 1\<rparr> in
      if attempts t1 < HANDOFF_ATTEMPTS then (t1, [Retry step (attempts t1) (handoff t1)])
      else (t1, [GiveUp step True (handoff t1)]))"

definition failed :: "rot_step \<Rightarrow> instant \<Rightarrow> tracker \<Rightarrow> tracker \<times> action list" where
  "failed step now t =
     (let t1 = t\<lparr>phase := Idle, attempts := attempts t + 1\<rparr> in
      if attempts t1 < HANDOFF_ATTEMPTS
      then (t1\<lparr>not_before := Some (now + retry_pause (lim t1))\<rparr>,
            [Postpone step (attempts t1) (handoff t1)])
      else (t1, [GiveUp step False (handoff t1)]))"

definition advance :: "instant \<Rightarrow> tracker \<Rightarrow> tracker \<times> action list" where
  "advance now t =
     (case phase t of
        Idle \<Rightarrow> (t, [])
      | Waiting deadline \<Rightarrow>
          if (case not_before t of None \<Rightarrow> False | Some x \<Rightarrow> now < x) then (t, [])
          else if quiet t
          then (t\<lparr>phase := Handoff (now + handoff_cap (lim t))\<rparr>,
                if attempts t = 0 then [Snapshot BeforeHandoff, RequestHandoff] else [RequestHandoff])
          else if now \<ge> deadline then cut Step_Wait t
          else (t, [])
      | Handoff deadline \<Rightarrow> if now \<ge> deadline then cut Step_Handoff t else (t, [])
      | Compacting deadline _ _ \<Rightarrow> if now \<ge> deadline then cut Step_Compaction t else (t, []))"

definition marker_seen :: "instant \<Rightarrow> tracker \<Rightarrow> tracker \<times> action list" where
  "marker_seen now t =
     (if \<not> enabled (lim t) then (t, []) else advance now (set_pending now t))"

definition Tracker_event :: "stream_event \<Rightarrow> instant \<Rightarrow> tracker \<Rightarrow> tracker \<times> action list" where
  "Tracker_event ev now t =
     (case ev of
        SAssistant sub tokens synthetic \<Rightarrow>
          (let t1 = t\<lparr>turn := True\<rparr> in
           advance now (case (sub, synthetic, tokens) of
               (False, False, Some n) \<Rightarrow> t1\<lparr>ctx := n\<rparr>
             | _ \<Rightarrow> t1))
      | SUser person \<Rightarrow>
          (let t1 = t\<lparr>turn := True\<rparr> in
           advance now (if person then t1\<lparr>last_person := now\<rparr> else t1))
      | SResult is_error person \<Rightarrow>
          (let t1 = t\<lparr>turn := False\<rparr>;
               t2 = (if person then t1\<lparr>last_person := now\<rparr> else t1)
           in case phase t2 of
                Handoff _ \<Rightarrow>
                  if \<not> is_error \<and> \<not> note_written t2 then (t2, [AwaitHandoff])
                  else if is_error then failed Step_Handoff now t2
                  else (t2\<lparr>handoff := True, phase := Compacting (now + compact_cap (lim t2)) False False\<rparr>,
                        [Snapshot AfterHandoff, Compact])
              | Compacting _ boundary fail \<Rightarrow>
                  if boundary then (Tracker_done t2, [Compacted])
                  else if fail \<or> is_error then failed Step_Compaction now t2
                  else (t2, [AwaitCompaction])
              | _ \<Rightarrow> advance now t2)
      | SBackgroundTasks ids \<Rightarrow> advance now (t\<lparr>agents := set ids\<rparr>)
      | SCompacted auto \<Rightarrow>
          (let t1 = t\<lparr>ctx := 0\<rparr>
           in advance now (case (auto, phase t1) of
                  (False, Compacting d _ f) \<Rightarrow> t1\<lparr>phase := Compacting d True f\<rparr>
                | _ \<Rightarrow> t1))
      | SCompactionFailed \<Rightarrow>
          advance now (case phase t of
              Compacting d b _ \<Rightarrow> t\<lparr>phase := Compacting d b True\<rparr>
            | _ \<Rightarrow> t)
      | _ \<Rightarrow> advance now t)"

definition Tracker_tick :: "instant \<Rightarrow> tracker \<Rightarrow> tracker \<times> action list" where
  "Tracker_tick now t =
     (if enabled (lim t) \<and> \<not> pending t \<and> phase t = Idle \<and> \<not> turn t \<and>
         ctx t \<ge> context_tokens (lim t) \<and> now - last_person t \<ge> idle (lim t)
      then let (t1, as) = advance now (set_pending now t) in (t1, MarkPending # as)
      else advance now t)"

section \<open>Histories\<close>

text \<open>
  What the supervisor feeds the tracker, and what comes out of it: the actions, and the
  note that a rotation was cancelled by hand.
\<close>

datatype rot_op =
    OpMarker instant
  | OpEvent stream_event instant
  | OpTick instant
  | OpCancel
  | OpNote bool

datatype rot_out = Act action | Cancelled

fun rot_feed :: "rot_op \<Rightarrow> tracker \<Rightarrow> tracker \<times> rot_out list" where
  "rot_feed (OpMarker now) t = (let (t1, as) = marker_seen now t in (t1, map Act as))"
| "rot_feed (OpEvent ev now) t = (let (t1, as) = Tracker_event ev now t in (t1, map Act as))"
| "rot_feed (OpTick now) t = (let (t1, as) = Tracker_tick now t in (t1, map Act as))"
| "rot_feed OpCancel t = (let (t1, b) = cancel t in (t1, if b then [Cancelled] else []))"
| "rot_feed (OpNote b) t = (set_note_written b t, [])"

fun rot_run :: "rot_op list \<Rightarrow> tracker \<Rightarrow> tracker \<times> rot_out list" where
  "rot_run [] t = (t, [])"
| "rot_run (op # ops) t =
     (let (t1, os1) = rot_feed op t; (t2, os2) = rot_run ops t1 in (t2, os1 @ os2))"

text \<open>
  The protocol of a rotation as the supervisor sees it. \<open>M_Rest\<close>: no handoff under way;
  \<open>M_Saved\<close>: the clean copy was just asked for, the request must follow; \<open>M_Handoff\<close>: the
  handoff turn runs; \<open>M_Written\<close>: the note is written and copied, the compaction must
  follow; \<open>M_Compacting\<close>; \<open>M_Over\<close>: the supervisor was told to restart, nothing more may
  come. The count is the attempts spent, the flag whether a handoff turn completed.
\<close>

datatype mphase = M_Rest | M_Saved | M_Handoff | M_Written | M_Compacting | M_Over

fun protocol1 :: "mphase \<times> u32 \<times> bool \<Rightarrow> rot_out \<Rightarrow> (mphase \<times> u32 \<times> bool) option" where
  "protocol1 (M_Rest, n, h) (Act MarkPending) = Some (M_Rest, n, h)"
| "protocol1 (M_Rest, n, h) Cancelled = Some (M_Rest, 0, False)"
| "protocol1 (M_Rest, n, h) (Act (Snapshot BeforeHandoff)) = (if n = 0 then Some (M_Saved, n, h) else None)"
| "protocol1 (M_Saved, n, h) (Act RequestHandoff) = Some (M_Handoff, n, h)"
| "protocol1 (M_Rest, n, h) (Act RequestHandoff) = (if n \<noteq> 0 then Some (M_Handoff, n, h) else None)"
| "protocol1 (M_Handoff, n, h) (Act AwaitHandoff) = Some (M_Handoff, n, h)"
| "protocol1 (M_Handoff, n, h) (Act (Snapshot AfterHandoff)) = Some (M_Written, n, True)"
| "protocol1 (M_Written, n, h) (Act Compact) = Some (M_Compacting, n, h)"
| "protocol1 (M_Compacting, n, h) (Act AwaitCompaction) = Some (M_Compacting, n, h)"
| "protocol1 (M_Compacting, n, h) (Act Compacted) = Some (M_Rest, 0, False)"
| "protocol1 (p, n, h) (Act (Retry step a b)) =
     (if p = (case step of Step_Wait \<Rightarrow> M_Rest | Step_Handoff \<Rightarrow> M_Handoff | Step_Compaction \<Rightarrow> M_Compacting) \<and>
         a = n + 1 \<and> a < HANDOFF_ATTEMPTS \<and> b = h
      then Some (M_Over, a, h) else None)"
| "protocol1 (p, n, h) (Act (Postpone step a b)) =
     (if p = (case step of Step_Wait \<Rightarrow> M_Over | Step_Handoff \<Rightarrow> M_Handoff | Step_Compaction \<Rightarrow> M_Compacting) \<and>
         p \<noteq> M_Over \<and> a = n + 1 \<and> a < HANDOFF_ATTEMPTS \<and> b = h
      then Some (M_Over, a, h) else None)"
| "protocol1 (p, n, h) (Act (GiveUp step c b)) =
     (if p = (case step of Step_Wait \<Rightarrow> M_Rest | Step_Handoff \<Rightarrow> M_Handoff | Step_Compaction \<Rightarrow> M_Compacting) \<and>
         (step = Step_Wait \<longrightarrow> c) \<and> \<not> n + 1 < HANDOFF_ATTEMPTS \<and> b = h
      then Some (M_Over, n + 1, h) else None)"
| "protocol1 _ _ = None"

fun protocol :: "mphase \<times> u32 \<times> bool \<Rightarrow> rot_out list \<Rightarrow> (mphase \<times> u32 \<times> bool) option" where
  "protocol m [] = Some m"
| "protocol m (x # xs) = (case protocol1 m x of None \<Rightarrow> None | Some m1 \<Rightarrow> protocol m1 xs)"

text \<open>The protocol state a tracker is in.\<close>

definition mstate :: "tracker \<Rightarrow> mphase \<times> u32 \<times> bool" where
  "mstate t =
     ((case phase t of
         Idle \<Rightarrow> if pending t then M_Over else M_Rest
       | Waiting _ \<Rightarrow> M_Rest
       | Handoff _ \<Rightarrow> M_Handoff
       | Compacting _ _ _ \<Rightarrow> M_Compacting), attempts t, handoff t)"

definition tracker_wf :: "tracker \<Rightarrow> bool" where
  "tracker_wf t = (phase t \<noteq> Idle \<longrightarrow> pending t)"

section \<open>Every step follows the protocol\<close>

lemma protocol_append:
  "protocol m (xs @ ys) = (case protocol m xs of None \<Rightarrow> None | Some m1 \<Rightarrow> protocol m1 ys)"
  by (induction xs arbitrary: m) (auto split: option.splits)

definition follows :: "tracker \<Rightarrow> tracker \<times> action list \<Rightarrow> bool" where
  "follows t r \<longleftrightarrow> tracker_wf (fst r) \<and> lim (fst r) = lim t \<and>
     protocol (mstate t) (map Act (snd r)) = Some (mstate (fst r))"

lemma follows_cut:
  "tracker_wf t \<Longrightarrow> phase t = Waiting d \<Longrightarrow> follows t (cut Step_Wait t)"
  "tracker_wf t \<Longrightarrow> phase t = Handoff d \<Longrightarrow> follows t (cut Step_Handoff t)"
  "tracker_wf t \<Longrightarrow> phase t = Compacting d b f \<Longrightarrow> follows t (cut Step_Compaction t)"
  by (auto simp: follows_def cut_def mstate_def tracker_wf_def Let_def)

lemma follows_failed:
  "tracker_wf t \<Longrightarrow> phase t = Handoff d \<Longrightarrow> follows t (failed Step_Handoff now t)"
  "tracker_wf t \<Longrightarrow> phase t = Compacting d b f \<Longrightarrow> follows t (failed Step_Compaction now t)"
  by (auto simp: follows_def failed_def mstate_def tracker_wf_def Let_def)

lemma follows_advance: "tracker_wf t \<Longrightarrow> follows t (advance now t)"
proof (cases "phase t")
  case Idle
  then show "tracker_wf t \<Longrightarrow> ?thesis" by (simp add: advance_def follows_def)
next
  case (Waiting d)
  then show "tracker_wf t \<Longrightarrow> ?thesis"
    using follows_cut(1) [OF _ Waiting]
    by (auto simp: advance_def split: option.splits) (auto simp: follows_def mstate_def tracker_wf_def)
next
  case (Handoff d)
  then show "tracker_wf t \<Longrightarrow> ?thesis"
    using follows_cut(2) [OF _ Handoff] by (auto simp: advance_def follows_def)
next
  case (Compacting d b f)
  then show "tracker_wf t \<Longrightarrow> ?thesis"
    using follows_cut(3) [OF _ Compacting] by (auto simp: advance_def follows_def)
qed

text \<open>An update of the tracker that the supervisor cannot see.\<close>

lemma follows_silent:
  "follows t1 r \<Longrightarrow> mstate t1 = mstate t \<Longrightarrow> lim t1 = lim t \<Longrightarrow> follows t r"
  by (simp add: follows_def)

lemma follows_silent_advance:
  "tracker_wf t1 \<Longrightarrow> mstate t1 = mstate t \<Longrightarrow> lim t1 = lim t \<Longrightarrow> follows t (advance now t1)"
  by (rule follows_silent [OF follows_advance])

lemmas unseen = mstate_def tracker_wf_def

lemma set_pending_unseen:
  assumes "tracker_wf t"
  shows "tracker_wf (set_pending now t)" "mstate (set_pending now t) = mstate t"
    "lim (set_pending now t) = lim t"
  using assms by (auto simp: set_pending_def unseen)

lemma follows_marker: "tracker_wf t \<Longrightarrow> follows t (marker_seen now t)"
  using follows_silent_advance [OF set_pending_unseen]
  by (auto simp: marker_seen_def) (simp add: follows_def)

lemma follows_tick: "tracker_wf t \<Longrightarrow> follows t (Tracker_tick now t)"
proof (cases "enabled (lim t) \<and> \<not> pending t \<and> phase t = Idle \<and> \<not> turn t \<and>
    ctx t \<ge> context_tokens (lim t) \<and> now - last_person t \<ge> idle (lim t)")
  case True
  assume "tracker_wf t"
  with True have "follows t (advance now (set_pending now t))"
    by (intro follows_silent_advance) (auto simp: set_pending_def unseen)
  with True show ?thesis
    by (auto simp: Tracker_tick_def follows_def mstate_def split: prod.splits)
next
  case False
  then have "Tracker_tick now t = advance now t"
    unfolding Tracker_tick_def by (rule if_not_P)
  then show "tracker_wf t \<Longrightarrow> ?thesis"
    by (simp add: follows_advance)
qed

lemma follows_event: "tracker_wf t \<Longrightarrow> follows t (Tracker_event ev now t)"
proof (cases ev)
  case (SResult err person)
  assume wf: "tracker_wf t"
  let ?t = "if person then t\<lparr>turn := False, last_person := now\<rparr> else t\<lparr>turn := False\<rparr>"
  have same: "tracker_wf ?t" "mstate ?t = mstate t" "lim ?t = lim t" "phase ?t = phase t"
    using wf by (auto simp: unseen)
  show ?thesis
  proof (cases "phase t")
    case Idle
    with SResult same show ?thesis
      using follows_silent_advance [OF same(1-3)] by (auto simp: Tracker_event_def Let_def)
  next
    case (Waiting d)
    with SResult same show ?thesis
      using follows_silent_advance [OF same(1-3)] by (auto simp: Tracker_event_def Let_def)
  next
    case (Handoff d)
    with same have "follows t (failed Step_Handoff now ?t)"
      using follows_silent [OF follows_failed(1) [OF same(1)]] by simp
    with SResult Handoff wf show ?thesis
      by (auto simp: Tracker_event_def Let_def) (auto simp: follows_def unseen)
  next
    case (Compacting d b f)
    with same have "follows t (failed Step_Compaction now ?t)"
      using follows_silent [OF follows_failed(2) [OF same(1)]] by simp
    with SResult Compacting wf show ?thesis
      by (auto simp: Tracker_event_def Let_def) (auto simp: follows_def unseen Tracker_done_def)
  qed
qed (auto simp: Tracker_event_def Let_def unseen intro!: follows_silent_advance
      split: option.splits bool.splits phase.splits)

lemma rot_feed_protocol:
  assumes "tracker_wf t" and "rot_feed op t = (t1, os)"
  shows "tracker_wf t1 \<and> lim t1 = lim t \<and> protocol (mstate t) os = Some (mstate t1)"
proof (cases op)
  case (OpMarker now)
  with assms follows_marker [of t now] show ?thesis by (auto simp: follows_def split: prod.splits)
next
  case (OpEvent ev now)
  with assms follows_event [of t ev now] show ?thesis by (auto simp: follows_def split: prod.splits)
next
  case (OpTick now)
  with assms follows_tick [of t now] show ?thesis by (auto simp: follows_def split: prod.splits)
next
  case OpCancel
  with assms show ?thesis
    by (auto simp: cancel_def Tracker_done_def unseen split: phase.splits if_splits)
next
  case (OpNote b)
  with assms show ?thesis by (auto simp: set_note_written_def unseen)
qed

lemma rot_run_protocol:
  "tracker_wf t \<Longrightarrow> rot_run ops t = (t1, os) \<Longrightarrow>
   tracker_wf t1 \<and> lim t1 = lim t \<and> protocol (mstate t) os = Some (mstate t1)"
proof (induction ops arbitrary: t t1 os)
  case (Cons op ops)
  obtain t2 os2 where s: "rot_feed op t = (t2, os2)" by fastforce
  obtain t3 os3 where r: "rot_run ops t2 = (t3, os3)" by fastforce
  from rot_feed_protocol [OF Cons.prems(1) s] Cons.IH [OF _ r] Cons.prems(2) s r
  show ?case by (auto simp: protocol_append)
qed simp

lemma started_wf:
  "tracker_wf (Tracker_new l now)" "tracker_wf (Tracker_pending now nb n h (Tracker_new l now))"
  "tracker_wf (Tracker_retrying now n h (Tracker_new l now))"
  by (simp_all add: Tracker_new_def Tracker_pending_def Tracker_retrying_def tracker_wf_def Let_def)

lemma started_mstate:
  "mstate (Tracker_new l now) = (M_Rest, 0, False)"
  "enabled l \<Longrightarrow> mstate (Tracker_pending now nb n h (Tracker_new l now)) = (M_Rest, n, h)"
  "mstate (Tracker_retrying now n h (Tracker_new l now)) = (M_Handoff, n, h)"
  by (simp_all add: Tracker_new_def Tracker_pending_def Tracker_retrying_def mstate_def Let_def)

section \<open>Properties\<close>


definition demo_limits :: limits where
  "demo_limits = \<lparr>enabled = True, context_tokens = 300000, idle = 14400, quiet_cap = 1800, handoff_cap = 900,
     compact_cap = 2700, retry_pause = 900\<rparr>"

lemmas rotation_eval = demo_limits_def Tracker_new_def Tracker_pending_def Tracker_retrying_def
  marker_seen_def set_pending_def advance_def Tracker_event_def Tracker_tick_def cut_def failed_def
  Tracker_done_def cancel_def quiet_def set_note_written_def HANDOFF_ATTEMPTS_def


text \<open>
  The attempts are bounded across restarts: a session started with one attempt spent is
  never told to try again, unless the rotation was cancelled or completed first.
\<close>

lemma protocol1_over: "protocol1 (M_Over, n, h) x = None"
  by (cases "((M_Over, n, h), x)" rule: protocol1.cases) (auto split: rot_step.splits)

lemma protocol_over: "protocol (M_Over, n, h) os = Some m \<Longrightarrow> os = []"
  by (cases os) (auto simp: protocol1_over)

lemma protocol_last_attempt:
  assumes "protocol (p, n, h) os = Some m" and "\<not> n + 1 < HANDOFF_ATTEMPTS"
    and "Cancelled \<notin> set os" "Act Compacted \<notin> set os"
  shows "Act (Retry step a b) \<notin> set os \<and> Act (Postpone step a b) \<notin> set os"
  using assms
proof (induction os arbitrary: p h)
  case (Cons x os)
  then obtain p1 n1 h1 where x: "protocol1 (p, n, h) x = Some (p1, n1, h1)"
    "protocol (p1, n1, h1) os = Some m"
    by (auto split: option.splits)
  show ?case
  proof (cases "p1 = M_Over")
    case True
    then have "os = []"
      using x(2) protocol_over by blast
    with Cons.prems x(1) show ?thesis
      by (cases x) (auto split: if_splits)
  next
    case False
    then have "n1 = n"
      using x(1) Cons.prems(3,4) by (cases "((p, n, h), x)" rule: protocol1.cases) (auto split: if_splits)
    with Cons.IH [of p1 h1] x Cons.prems show ?thesis
      by (cases x) (auto split: if_splits)
  qed
qed simp

text \<open>
  The attempts are bounded across restarts. A session resumed with one attempt spent,
  waiting for its pause or in the handoff turn of the cut, is never told to try again in
  that rotation: every cut or failure gives up.
\<close>

theorem second_attempt_is_last:
  assumes "enabled l"
    and "start = Tracker_pending now nb 1 h (Tracker_new l now) \<or>
         start = Tracker_retrying now 1 h (Tracker_new l now)"
    and "Cancelled \<notin> set (snd (rot_run ops start))" "Act Compacted \<notin> set (snd (rot_run ops start))"
  shows "Act (Retry step a b) \<notin> set (snd (rot_run ops start)) \<and>
    Act (Postpone step a b) \<notin> set (snd (rot_run ops start))"
proof -
  obtain t os where run: "rot_run ops start = (t, os)" by fastforce
  have m: "mstate start = (M_Rest, 1, h) \<or> mstate start = (M_Handoff, 1, h)" "tracker_wf start"
    using assms(1,2) started_mstate(2,3) started_wf(2,3) by auto
  then have "\<exists>p. protocol (p, 1, h) os = Some (mstate t)"
    using rot_run_protocol [OF m(2) run] by metis
  moreover have "\<not> (1 :: u32) + 1 < HANDOFF_ATTEMPTS"
    by (simp add: HANDOFF_ATTEMPTS_def)
  ultimately show ?thesis
    using protocol_last_attempt assms(3,4) run by fastforce
qed

theorem second_attempt_is_last_witness:
  "snd (rot_run [OpTick 900] (Tracker_retrying 0 1 False (Tracker_new demo_limits 0))) =
     [Act (GiveUp Step_Handoff True False)] \<and>
   Act (Retry Step_Handoff 2 False) \<notin>
     set (snd (rot_run [OpTick 900] (Tracker_retrying 0 1 False (Tracker_new demo_limits 0))))"
proof -
  have run: "snd (rot_run [OpTick 900] (Tracker_retrying 0 1 False (Tracker_new demo_limits 0))) =
      [Act (GiveUp Step_Handoff True False)]"
    by (simp add: rotation_eval)
  show ?thesis
    using second_attempt_is_last [of demo_limits "Tracker_retrying 0 1 False (Tracker_new demo_limits 0)"
        0 None False "[OpTick 900]" Step_Handoff 2 False] run
    by (simp add: demo_limits_def)
qed

text \<open>
  No wait outlives its cap. After a tick the rotation is at rest, or its deadline is
  still ahead (for the quiet moment: or the pause after a failure is, for the handoff: or
  it was requested in this tick), and a phase whose deadline has passed is left in the
  tick, with an action for the supervisor.
\<close>

theorem tick_enforces_caps:
  assumes "Tracker_tick now t = (t1, as)"
  shows "(case phase t1 of
      Idle \<Rightarrow> True
    | Waiting d \<Rightarrow> now < d \<or> (\<exists>x. not_before t1 = Some x \<and> now < x)
    | Handoff d \<Rightarrow> now < d \<or> RequestHandoff \<in> set as \<and> d = now + handoff_cap (lim t)
    | Compacting d _ _ \<Rightarrow> now < d) \<and>
    (case phase t of
      Waiting d \<Rightarrow> d \<le> now \<and> (\<forall>x. not_before t = Some x \<longrightarrow> x \<le> now) \<longrightarrow>
        phase t1 = Handoff (now + handoff_cap (lim t)) \<or> phase t1 = Idle \<and> as \<noteq> []
    | Handoff d \<Rightarrow> d \<le> now \<longrightarrow> phase t1 = Idle \<and> as \<noteq> []
    | Compacting d _ _ \<Rightarrow> d \<le> now \<longrightarrow> phase t1 = Idle \<and> as \<noteq> []
    | Idle \<Rightarrow> True)"
  using assms
  by (auto simp: Tracker_tick_def advance_def set_pending_def cut_def Let_def
      split: phase.splits option.splits if_splits prod.splits)

theorem tick_enforces_caps_witness:
  "phase (fst (Tracker_tick 2000 (Tracker_retrying 0 0 False (Tracker_new demo_limits 0)))) = Idle \<and>
   snd (Tracker_tick 2000 (Tracker_retrying 0 0 False (Tracker_new demo_limits 0))) =
     [Retry Step_Handoff 1 False]"
proof -
  let ?t = "Tracker_retrying 0 0 False (Tracker_new demo_limits 0)"
  have tick: "Tracker_tick 2000 ?t = (?t\<lparr>phase := Idle, attempts := 1\<rparr>, [Retry Step_Handoff 1 False])"
    by (simp add: rotation_eval)
  have "phase ?t = Handoff 900"
    by (simp add: rotation_eval)
  with tick_enforces_caps [OF tick] tick show ?thesis by simp
qed

section \<open>The threshold and the person's presence\<close>

fun person_times :: "rot_op list \<Rightarrow> instant list" where
  "person_times [] = []"
| "person_times (OpEvent (SUser True) now # ops) = now # person_times ops"
| "person_times (OpEvent (SResult _ True) now # ops) = now # person_times ops"
| "person_times (_ # ops) = person_times ops"

lemma keeps_last_person:
  "last_person (fst (cut step t)) = last_person t"
  "last_person (fst (failed step now t)) = last_person t"
  "last_person (Tracker_done t) = last_person t"
  "last_person (set_pending now t) = last_person t"
  by (simp_all add: cut_def failed_def Tracker_done_def set_pending_def Let_def)

lemma advance_last_person: "last_person (fst (advance now t)) = last_person t"
  by (simp add: advance_def keeps_last_person split: phase.splits option.splits)

lemma event_last_person:
  "last_person (fst (Tracker_event ev now t)) =
     (case ev of SUser True \<Rightarrow> now | SResult _ True \<Rightarrow> now | _ \<Rightarrow> last_person t)"
  by (cases ev)
     (auto simp: Tracker_event_def Let_def advance_last_person keeps_last_person
        split: option.splits bool.splits phase.splits)

lemma tick_last_person: "last_person (fst (Tracker_tick now t)) = last_person t"
  by (simp add: Tracker_tick_def case_prod_beta Let_def advance_last_person keeps_last_person)

lemma feed_last_person:
  "last_person (fst (rot_feed op t)) = last (last_person t # person_times [op])"
proof (cases op)
  case (OpMarker now)
  then show ?thesis
    using advance_last_person [of now "set_pending now t"]
    by (auto simp: marker_seen_def keeps_last_person split: prod.splits)
next
  case (OpEvent ev now)
  then show ?thesis
    using event_last_person [of ev now t]
    by (cases ev) (auto split: prod.splits bool.splits)
next
  case (OpTick now)
  then show ?thesis
    using tick_last_person [of now t] by (auto split: prod.splits)
qed (auto simp: cancel_def keeps_last_person set_note_written_def split: prod.splits if_splits)

lemma person_times_Cons: "person_times (op # ops) = person_times [op] @ person_times ops"
  by (cases "op # ops" rule: person_times.cases) auto

lemma run_last_person:
  "last_person (fst (rot_run ops t)) = last (last_person t # person_times ops)"
proof (induction ops arbitrary: t)
  case (Cons op ops)
  obtain t1 os where "rot_feed op t = (t1, os)" by fastforce
  with Cons.IH [of t1] feed_last_person [of op t] show ?case
    by (subst person_times_Cons) (auto split: prod.splits)
qed simp

text \<open>
  The supervisor starts a rotation on its own only in a session left alone: with the
  times of a person's presence (messages and channel turns) in order, each of them is at
  least the idle gap before the tick that reports the rotation, and so is the start; the
  context is at the threshold, no turn is running and no rotation is pending.
\<close>

theorem threshold_only_after_idle:
  assumes "rot_run ops (Tracker_new l start) = (t, os)" and "sorted (start # person_times ops @ [now])"
    and "Tracker_tick now t = (t1, as)" and "MarkPending \<in> set as"
  shows "(\<forall>x \<in> set (start # person_times ops). x + idle l \<le> now) \<and>
    enabled l \<and> context_tokens l \<le> ctx t \<and> \<not> turn t \<and> \<not> pending t"
proof -
  have "lim t = l"
    using rot_run_protocol [OF started_wf(1) assms(1)] by (simp add: Tracker_new_def)
  have last: "last_person t = last (start # person_times ops)"
    using run_last_person [of ops "Tracker_new l start"] assms(1) by (simp add: Tracker_new_def)
  have no_mark: "MarkPending \<notin> set (snd (advance now t))"
    by (auto simp: advance_def cut_def Let_def split: phase.splits option.splits)
  have trip: "enabled l" "\<not> pending t" "\<not> turn t" "context_tokens l \<le> ctx t" "idle l \<le> now - last_person t"
    using assms(3,4) no_mark \<open>lim t = l\<close>
    by (auto simp: Tracker_tick_def split: if_splits)
  have "x \<le> last_person t" if "x \<in> set (start # person_times ops)" for x
    using sorted_le_last [of "start # person_times ops" x] that assms(2)
    unfolding last by (simp add: sorted_append)
  moreover have "last_person t \<le> now"
    using assms(2) unfolding last by (simp add: sorted_append)
  ultimately show ?thesis
    using trip by fastforce
qed

theorem threshold_only_after_idle_witness:
  "\<exists>t os. rot_run [OpEvent (SUser True) 1, OpEvent (SAssistant False (Some 310000) False) 2,
       OpEvent (SResult False False) 3] (Tracker_new demo_limits 0) = (t, os) \<and>
     MarkPending \<in> set (snd (Tracker_tick 14401 t)) \<and> 1 + idle demo_limits \<le> 14401"
proof -
  let ?ops = "[OpEvent (SUser True) 1, OpEvent (SAssistant False (Some 310000) False) 2,
    OpEvent (SResult False False) 3]"
  obtain t os where run: "rot_run ?ops (Tracker_new demo_limits 0) = (t, os)" by fastforce
  then have mark: "MarkPending \<in> set (snd (Tracker_tick 14401 t))"
    by (auto simp: rotation_eval)
  have "sorted (0 # person_times ?ops @ [14401])" by simp
  from threshold_only_after_idle [OF run this, of "fst (Tracker_tick 14401 t)" "snd (Tracker_tick 14401 t)"] mark
  have "1 + idle demo_limits \<le> 14401" by simp
  with run mark show ?thesis by blast
qed

lemma disabled_feed:
  assumes "phase t = Idle" "\<not> pending t" "\<not> enabled (lim t)"
  shows "snd (rot_feed op t) = [] \<and> phase (fst (rot_feed op t)) = Idle \<and> \<not> pending (fst (rot_feed op t)) \<and>
    lim (fst (rot_feed op t)) = lim t"
proof (cases op)
  case (OpEvent ev now)
  with assms show ?thesis
    by (cases ev) (auto simp: Tracker_event_def advance_def Let_def split: option.splits bool.splits prod.splits)
qed (use assms in \<open>auto simp: marker_seen_def Tracker_tick_def advance_def cancel_def set_note_written_def\<close>)

text \<open>
  With rotation turned off nothing is ever done, marker or not.
\<close>

theorem disabled_never_rotates:
  assumes "\<not> enabled l"
  shows "snd (rot_run ops (Tracker_pending start nb n h (Tracker_new l start))) = []"
proof -
  have "phase t = Idle \<Longrightarrow> \<not> pending t \<Longrightarrow> \<not> enabled (lim t) \<Longrightarrow> snd (rot_run ops t) = []" for t
  proof (induction ops arbitrary: t)
    case (Cons op ops)
    with disabled_feed [of t op] Cons.IH [of "fst (rot_feed op t)"] show ?case
      by (simp add: case_prod_beta Let_def)
  qed simp
  then show ?thesis
    using assms by (simp add: Tracker_pending_def Tracker_new_def)
qed

theorem disabled_never_rotates_witness:
  "snd (rot_run [OpMarker 1, OpTick 90000] (Tracker_pending 0 None 0 False
     (Tracker_new (demo_limits\<lparr>enabled := False\<rparr>) 0))) = []"
  by (rule disabled_never_rotates) simp

end
