(* ===== verification/Registry.thy ===== *)
theory Registry
  imports Protocol Backlog
begin

text \<open>
  The session registry of the daemon (\<open>crates/siltad/src/daemon.rs\<close>, \<open>Registry\<close> and
  \<open>Claim\<close>): which sessions are connected, the events handed to a connection and not
  acknowledged, and the backlog of a session that is away. The channel to a connection is
  tokio's; what a \<open>try_send\<close> on it answered is an argument. Each method is one step under
  its locks; \<open>dispatch\<close> and the drop of a claim take their locks one after the other, so
  they are two steps each, and the histories below interleave them freely.
\<close>

section \<open>The data and the operations\<close>

definition BACKLOG_MAX :: nat where
  "BACKLOG_MAX = 100"

datatype try_send = Sent | SendFull | SendClosed

datatype deliver_error = NotConnected | QueueFull

type_synonym stamped = "u64 \<times> event"

record registry =
  inner :: "string set"
  backlogs :: "string \<rightharpoonup> event backlog"
  inflight :: "string \<rightharpoonup> stamped list"
  rg_max_age_ms :: u64

definition registry_new :: "u64 \<Rightarrow> registry" where
  "registry_new age = \<lparr>inner = {}, backlogs = Map.empty, inflight = Map.empty, rg_max_age_ms = age\<rparr>"

definition registry_claim :: "string \<Rightarrow> registry \<Rightarrow> registry option" where
  "registry_claim session r =
     (if session \<in> inner r then None else Some (r\<lparr>inner := insert session (inner r)\<rparr>))"

definition is_connected :: "string \<Rightarrow> registry \<Rightarrow> bool" where
  "is_connected session r = (session \<in> inner r)"

text \<open>The entries of the two tables, with their defaults.\<close>

definition inflight_of :: "string \<Rightarrow> registry \<Rightarrow> stamped list" where
  "inflight_of session r = (case inflight r session of Some l \<Rightarrow> l | None \<Rightarrow> [])"

definition backlog_of :: "string \<Rightarrow> registry \<Rightarrow> event backlog" where
  "backlog_of session r =
     (case backlogs r session of Some b \<Rightarrow> b | None \<Rightarrow> backlog_new BACKLOG_MAX (rg_max_age_ms r))"

definition registry_deliver :: "try_send \<Rightarrow> string \<Rightarrow> event \<Rightarrow> u64 \<Rightarrow> registry \<Rightarrow> registry \<times> (deliver_error + unit)" where
  "registry_deliver outcome session ev ts r =
     (if session \<notin> inner r then (r, Inl NotConnected)
      else let l = inflight_of session r @ [(ts, ev)] in
        case outcome of
          Sent \<Rightarrow> (r\<lparr>inflight := (inflight r)(session \<mapsto> l)\<rparr>, Inr ())
        | SendFull \<Rightarrow> (r\<lparr>inflight := (inflight r)(session \<mapsto> butlast l)\<rparr>, Inl QueueFull)
        | SendClosed \<Rightarrow> (r\<lparr>inflight := (inflight r)(session \<mapsto> butlast l)\<rparr>, Inl NotConnected))"

definition registry_enqueue :: "string \<Rightarrow> u64 \<Rightarrow> event \<Rightarrow> u64 \<Rightarrow> registry \<Rightarrow> registry \<times> nat \<times> nat" where
  "registry_enqueue session ts ev now r =
     (let (b, evicted) = backlog_push ts ev now (backlog_of session r)
      in (r\<lparr>backlogs := (backlogs r)(session \<mapsto> b)\<rparr>, backlog_len b, evicted))"

definition take_backlog :: "string \<Rightarrow> u64 \<Rightarrow> registry \<Rightarrow> registry \<times> stamped list \<times> nat" where
  "take_backlog session now r =
     (let (r1, its, evicted) =
            (case backlogs r session of
               Some b \<Rightarrow> (let (b1, its, evicted) = backlog_drain now b
                          in (r\<lparr>backlogs := (backlogs r)(session \<mapsto> b1)\<rparr>, its, evicted))
             | None \<Rightarrow> (r, [], 0))
      in (if its \<noteq> [] then r1\<lparr>inflight := (inflight r1)(session \<mapsto> inflight_of session r1 @ its)\<rparr> else r1,
          its, evicted))"

text \<open>The position of an event in flight, and its removal.\<close>

fun take_event :: "string \<Rightarrow> stamped list \<Rightarrow> (stamped \<times> stamped list) option" where
  "take_event eid [] = None"
| "take_event eid (x # xs) =
     (if ev_event_id (snd x) = eid then Some (x, xs)
      else case take_event eid xs of None \<Rightarrow> None | Some (y, ys) \<Rightarrow> Some (y, x # ys))"

definition registry_ack :: "string \<Rightarrow> string \<Rightarrow> registry \<Rightarrow> registry \<times> stamped option" where
  "registry_ack session eid r =
     (case inflight r session of
        None \<Rightarrow> (r, None)
      | Some l \<Rightarrow>
          (case take_event eid l of
             None \<Rightarrow> (r, None)
           | Some (x, l1) \<Rightarrow> (r\<lparr>inflight := (inflight r)(session \<mapsto> l1)\<rparr>, Some x)))"

definition registry_restore :: "string \<Rightarrow> u64 \<Rightarrow> registry \<Rightarrow> registry \<times> nat \<times> nat" where
  "registry_restore session now r =
     (let its = inflight_of session r; r1 = r\<lparr>inflight := (inflight r)(session := None)\<rparr> in
      if its = [] then (r1, 0, 0)
      else let (b, evicted) = backlog_restore its now (backlog_of session r1)
           in (r1\<lparr>backlogs := (backlogs r1)(session \<mapsto> b)\<rparr>, length its, evicted))"

text \<open>The drop of a claim: the name is freed, then the events in flight go back.\<close>

definition claim_release :: "string \<Rightarrow> registry \<Rightarrow> registry" where
  "claim_release session r = r\<lparr>inner := inner r - {session}\<rparr>"

definition claim_drop :: "string \<Rightarrow> u64 \<Rightarrow> registry \<Rightarrow> registry \<times> nat \<times> nat" where
  "claim_drop session now r = registry_restore session now (claim_release session r)"

datatype dispatch_result = Delivered | Queued nat | Dropped deliver_error

definition dispatch :: "try_send \<Rightarrow> string \<Rightarrow> event \<Rightarrow> u64 \<Rightarrow> u64 \<Rightarrow> registry \<Rightarrow> registry \<times> dispatch_result" where
  "dispatch outcome session ev ts now r =
     (case registry_deliver outcome session ev ts r of
        (r1, Inr _) \<Rightarrow> (r1, Delivered)
      | (r1, Inl NotConnected) \<Rightarrow>
          (let (r2, waiting, evicted) = registry_enqueue session ts ev now r1 in (r2, Queued waiting))
      | (r1, Inl err) \<Rightarrow> (r1, Dropped err))"

section \<open>The system of interleaved steps\<close>

text \<open>
  The registry with what the daemon holds in its hands: for each session the messages
  refused by \<open>deliver\<close> and not yet queued (\<open>limbo\<close>), and the ledger of everything that
  arrived, was acknowledged, was refused because the channel was full, or was evicted (as
  reported, a number).
\<close>

record system =
  reg :: registry
  limbo :: "string \<Rightarrow> stamped list"
  arrived :: "string \<Rightarrow> stamped multiset"
  acked :: "string \<Rightarrow> stamped multiset"
  refused :: "string \<Rightarrow> stamped multiset"
  evictions :: "string \<Rightarrow> nat"

definition system_start :: "u64 \<Rightarrow> system" where
  "system_start age = \<lparr>reg = registry_new age, limbo = (\<lambda>_. []), arrived = (\<lambda>_. {#}), acked = (\<lambda>_. {#}),
     refused = (\<lambda>_. {#}), evictions = (\<lambda>_. 0)\<rparr>"

datatype sys_op =
    Arrive try_send string event u64
  | Enqueue string u64
  | ClaimSession string
  | TakeBacklog string u64
  | AckEvent string string
  | Release string
  | RestoreInflight string u64

text \<open>
  \<open>Arrive\<close> is the \<open>deliver\<close> of a dispatch, \<open>Enqueue\<close> the second half of the oldest
  dispatch of the session that found it away; a step that is not possible leaves the
  system as it is.
\<close>

fun sys_step :: "sys_op \<Rightarrow> system \<Rightarrow> system" where
  "sys_step (Arrive outcome s ev ts) S =
     (let S1 = S\<lparr>arrived := (arrived S)(s := add_mset (ts, ev) (arrived S s))\<rparr> in
      case registry_deliver outcome s ev ts (reg S) of
        (r, Inr _) \<Rightarrow> S1\<lparr>reg := r\<rparr>
      | (r, Inl NotConnected) \<Rightarrow> S1\<lparr>reg := r, limbo := (limbo S)(s := limbo S s @ [(ts, ev)])\<rparr>
      | (r, Inl QueueFull) \<Rightarrow> S1\<lparr>reg := r, refused := (refused S)(s := add_mset (ts, ev) (refused S s))\<rparr>)"
| "sys_step (Enqueue s now) S =
     (case limbo S s of
        [] \<Rightarrow> S
      | (ts, ev) # rest \<Rightarrow>
          (let (r, _, n) = registry_enqueue s ts ev now (reg S)
           in S\<lparr>reg := r, limbo := (limbo S)(s := rest), evictions := (evictions S)(s := evictions S s + n)\<rparr>))"
| "sys_step (ClaimSession s) S = (case registry_claim s (reg S) of None \<Rightarrow> S | Some r \<Rightarrow> S\<lparr>reg := r\<rparr>)"
| "sys_step (TakeBacklog s now) S =
     (let (r, _, n) = take_backlog s now (reg S)
      in S\<lparr>reg := r, evictions := (evictions S)(s := evictions S s + n)\<rparr>)"
| "sys_step (AckEvent s eid) S =
     (case registry_ack s eid (reg S) of
        (r, None) \<Rightarrow> S\<lparr>reg := r\<rparr>
      | (r, Some x) \<Rightarrow> S\<lparr>reg := r, acked := (acked S)(s := add_mset x (acked S s))\<rparr>)"
| "sys_step (Release s) S = S\<lparr>reg := claim_release s (reg S)\<rparr>"
| "sys_step (RestoreInflight s now) S =
     (let (r, _, n) = registry_restore s now (reg S)
      in S\<lparr>reg := r, evictions := (evictions S)(s := evictions S s + n)\<rparr>)"

definition sys_run :: "sys_op list \<Rightarrow> system \<Rightarrow> system" where
  "sys_run ops S = foldl (\<lambda>S op. sys_step op S) S ops"

inductive reachable :: "u64 \<Rightarrow> system \<Rightarrow> bool" for age where
  start: "reachable age (system_start age)"
| step: "reachable age S \<Longrightarrow> reachable age (sys_step op S)"

section \<open>What each operation moves\<close>

lemma backlog_of_upd [simp]:
  "backlog_of s (r\<lparr>backlogs := (backlogs r)(t \<mapsto> b)\<rparr>) = (if s = t then b else backlog_of s r)"
  "backlog_of s (r\<lparr>inflight := f, backlogs := (backlogs r)(t \<mapsto> b)\<rparr>) = (if s = t then b else backlog_of s r)"
  "backlog_of s (r\<lparr>inflight := f\<rparr>) = backlog_of s r"
  "backlog_of s (r\<lparr>inner := c\<rparr>) = backlog_of s r"
  by (auto simp: backlog_of_def split: option.splits)

lemma inflight_of_upd [simp]:
  "inflight_of s (r\<lparr>inflight := (inflight r)(t \<mapsto> l)\<rparr>) = (if s = t then l else inflight_of s r)"
  "inflight_of s (r\<lparr>inflight := (inflight r)(t := None)\<rparr>) = (if s = t then [] else inflight_of s r)"
  "inflight_of s (r\<lparr>backlogs := g, inflight := (inflight r)(t \<mapsto> l)\<rparr>) = (if s = t then l else inflight_of s r)"
  "inflight_of s (r\<lparr>backlogs := g\<rparr>) = inflight_of s r"
  "inflight_of s (r\<lparr>inner := c\<rparr>) = inflight_of s r"
  by (auto simp: inflight_of_def)

lemma deliver_moves:
  assumes "registry_deliver outcome s ev ts r = (r1, res)"
  shows "backlog_of t r1 = backlog_of t r \<and> inner r1 = inner r \<and>
    inflight_of t r1 = (if t = s \<and> res = Inr () then inflight_of t r @ [(ts, ev)] else inflight_of t r)"
  using assms by (cases outcome) (auto simp: registry_deliver_def Let_def split: if_splits)

lemma enqueue_moves:
  assumes "registry_enqueue s ts ev now r = (r1, w, n)"
  shows "inflight_of t r1 = inflight_of t r \<and> inner r1 = inner r \<and> (t \<noteq> s \<longrightarrow> backlog_of t r1 = backlog_of t r) \<and>
    w = length (items (backlog_of s r1)) \<and>
    (\<exists>gone. add_mset (ts, ev) (mset (items (backlog_of s r))) = mset gone + mset (items (backlog_of s r1)) \<and>
       length gone = n)"
proof -
  obtain b k where b: "backlog_push ts ev now (backlog_of s r) = (b, k)" by fastforce
  with assms have "r1 = r\<lparr>backlogs := (backlogs r)(s \<mapsto> b)\<rparr>" "w = length (items b)" "n = k"
    by (auto simp: registry_enqueue_def backlog_len_def)
  with fq.push_conserves [OF b] show ?thesis by auto
qed

lemma take_backlog_moves:
  assumes "take_backlog s now r = (r1, its, n)"
  shows "(t \<noteq> s \<longrightarrow> inflight_of t r1 = inflight_of t r \<and> backlog_of t r1 = backlog_of t r) \<and> inner r1 = inner r \<and>
    inflight_of s r1 = inflight_of s r @ its \<and> items (backlog_of s r1) = [] \<and>
    (\<exists>gone. mset (items (backlog_of s r)) = mset gone + mset its \<and> length gone = n)"
proof (cases "backlogs r s")
  case None
  with assms show ?thesis
    by (auto simp: take_backlog_def backlog_of_def backlog_new_def)
next
  case (Some b)
  obtain b1 out k where b: "backlog_drain now b = (b1, out, k)" by (metis prod_cases3)
  have "backlog_of s r = b"
    by (simp add: backlog_of_def Some)
  with assms Some b fq.drain_conserves [OF b] show ?thesis
    by (auto simp: take_backlog_def split: if_splits)
qed

lemma take_event_mset: "take_event eid l = Some (x, l1) \<Longrightarrow> mset l = add_mset x (mset l1)"
  by (induction l arbitrary: l1) (auto split: if_splits option.splits)

lemma ack_moves:
  assumes "registry_ack s eid r = (r1, res)"
  shows "backlog_of t r1 = backlog_of t r \<and> inner r1 = inner r \<and> (t \<noteq> s \<longrightarrow> inflight_of t r1 = inflight_of t r) \<and>
    mset (inflight_of s r) = (case res of None \<Rightarrow> {#} | Some x \<Rightarrow> {#x#}) + mset (inflight_of s r1)"
proof (cases "inflight r s")
  case None
  with assms show ?thesis by (simp add: registry_ack_def)
next
  case (Some l)
  then have "inflight_of s r = l" by (simp add: inflight_of_def)
  with assms Some show ?thesis
    by (auto simp: registry_ack_def take_event_mset split: option.splits)
qed

lemma restore_moves:
  assumes "registry_restore s now r = (r1, k, n)"
  shows "(t \<noteq> s \<longrightarrow> inflight_of t r1 = inflight_of t r \<and> backlog_of t r1 = backlog_of t r) \<and> inner r1 = inner r \<and>
    inflight_of s r1 = [] \<and> k = length (inflight_of s r) \<and>
    (\<exists>gone. mset (inflight_of s r) + mset (items (backlog_of s r)) =
       mset gone + mset (items (backlog_of s r1)) \<and> length gone = n)"
proof (cases "inflight_of s r = []")
  case True
  with assms show ?thesis by (auto simp: registry_restore_def)
next
  case False
  obtain b j where b: "backlog_restore (inflight_of s r) now (backlog_of s r) = (b, j)" by fastforce
  with assms False fq.restore_conserves [OF b] show ?thesis
    by (auto simp: registry_restore_def Let_def)
qed

lemma claim_moves:
  "registry_claim s r = Some r1 \<Longrightarrow>
   inflight_of t r1 = inflight_of t r \<and> backlog_of t r1 = backlog_of t r"
  by (auto simp: registry_claim_def split: if_splits)

section \<open>Nothing is lost without being counted\<close>

definition assets :: "system \<Rightarrow> string \<Rightarrow> stamped multiset" where
  "assets S s = acked S s + mset (inflight_of s (reg S)) + mset (items (backlog_of s (reg S))) +
     mset (limbo S s) + refused S s"

definition ledger :: "system \<Rightarrow> string \<Rightarrow> bool" where
  "ledger S s \<longleftrightarrow> (\<exists>gone. arrived S s = assets S s + mset gone \<and> length gone = evictions S s)"

lemma ledger_shift:
  assumes "ledger S s" and "arrived S1 s = arrived S s + new"
    and "assets S s + new = assets S1 s + mset gone" and "evictions S1 s = evictions S s + length gone"
  shows "ledger S1 s"
proof -
  obtain g where "arrived S s = assets S s + mset g" "length g = evictions S s"
    using assms(1) unfolding ledger_def by blast
  with assms(2-4) have "arrived S1 s = assets S1 s + mset (g @ gone)" "length (g @ gone) = evictions S1 s"
    by (simp_all add: ac_simps)
  then show ?thesis unfolding ledger_def by blast
qed

lemma ledger_same:
  assumes "ledger S s" "arrived S1 s = arrived S s" "assets S1 s = assets S s" "evictions S1 s = evictions S s"
  shows "ledger S1 s"
  using assms by (simp add: ledger_def)

lemma ledger_evicted:
  assumes "ledger S s" "assets S s = assets S1 s + mset gone" "arrived S1 s = arrived S s"
    and "evictions S1 s = evictions S s + length gone"
  shows "ledger S1 s"
  using ledger_shift [OF assms(1), of S1 "{#}" gone] assms(2-4) by simp

lemma ledger_arrive: "ledger S s \<Longrightarrow> ledger (sys_step (Arrive outcome t ev ts) S) s"
proof -
  assume ok: "ledger S s"
  obtain r res where d: "registry_deliver outcome t ev ts (reg S) = (r, res)" by fastforce
  note moved = deliver_moves [OF d, of s]
  let ?S = "sys_step (Arrive outcome t ev ts) S"
  have "arrived ?S s = arrived S s + (if s = t then {#(ts, ev)#} else {#})"
    "assets ?S s = assets S s + (if s = t then {#(ts, ev)#} else {#})" "evictions ?S s = evictions S s"
    using moved d
    by (cases res; cases "projl res"; auto simp: Let_def assets_def split: deliver_error.splits)+
  with ledger_shift [OF ok, of ?S _ "[]"] show ?thesis by simp
qed

lemma ledger_enqueue: "ledger S s \<Longrightarrow> ledger (sys_step (Enqueue t now) S) s"
proof (cases "limbo S t")
  case (Cons x rest)
  assume ok: "ledger S s"
  obtain ts ev where x: "x = (ts, ev)" by fastforce
  obtain r w n where e: "registry_enqueue t ts ev now (reg S) = (r, w, n)" by (metis prod_cases3)
  note moved = enqueue_moves [OF e, of s]
  then obtain gone where g: "add_mset (ts, ev) (mset (items (backlog_of t (reg S)))) =
      mset gone + mset (items (backlog_of t r))" "length gone = n" by blast
  define S1 where "S1 = S\<lparr>reg := r, limbo := (limbo S)(t := rest), evictions := (evictions S)(t := evictions S t + n)\<rparr>"
  have S: "sys_step (Enqueue t now) S = S1"
    by (simp add: Cons x e S1_def)
  show ?thesis
  proof (cases "s = t")
    case True
    then have "assets S s = assets S1 s + mset gone"
      using g(1) moved by (simp add: S1_def assets_def Cons x)
    from ledger_evicted [OF ok this] g(2) True show ?thesis
      unfolding S by (simp add: S1_def)
  next
    case False
    with moved ledger_same [OF ok, of S1] show ?thesis
      unfolding S by (simp add: S1_def assets_def)
  qed
qed simp

lemma ledger_take: "ledger S s \<Longrightarrow> ledger (sys_step (TakeBacklog t now) S) s"
proof -
  assume ok: "ledger S s"
  obtain r its n where e: "take_backlog t now (reg S) = (r, its, n)" by (metis prod_cases3)
  note moved = take_backlog_moves [OF e, of s]
  then obtain gone where g: "mset (items (backlog_of t (reg S))) = mset gone + mset its" "length gone = n" by blast
  define S1 where "S1 = S\<lparr>reg := r, evictions := (evictions S)(t := evictions S t + n)\<rparr>"
  have S: "sys_step (TakeBacklog t now) S = S1"
    by (simp add: e S1_def)
  show ?thesis
  proof (cases "s = t")
    case True
    with g moved have "assets S s = assets S1 s + mset gone"
      by (simp add: S1_def assets_def ac_simps)
    from ledger_evicted [OF ok this] g(2) True show ?thesis
      unfolding S by (simp add: S1_def)
  next
    case False
    with moved ledger_same [OF ok, of S1] show ?thesis
      unfolding S by (simp add: S1_def assets_def)
  qed
qed

lemma ledger_restore: "ledger S s \<Longrightarrow> ledger (sys_step (RestoreInflight t now) S) s"
proof -
  assume ok: "ledger S s"
  obtain r k n where e: "registry_restore t now (reg S) = (r, k, n)" by (metis prod_cases3)
  note moved = restore_moves [OF e, of s]
  then obtain gone where g: "mset (inflight_of t (reg S)) + mset (items (backlog_of t (reg S))) =
      mset gone + mset (items (backlog_of t r))" "length gone = n" by blast
  define S1 where "S1 = S\<lparr>reg := r, evictions := (evictions S)(t := evictions S t + n)\<rparr>"
  have S: "sys_step (RestoreInflight t now) S = S1"
    by (simp add: e S1_def)
  show ?thesis
  proof (cases "s = t")
    case True
    then have "assets S s = acked S s + (mset (inflight_of t (reg S)) + mset (items (backlog_of t (reg S)))) +
        mset (limbo S s) + refused S s"
      by (simp add: assets_def ac_simps)
    with g(1) moved True have "assets S s = assets S1 s + mset gone"
      by (simp add: S1_def assets_def ac_simps)
    from ledger_evicted [OF ok this] g(2) True show ?thesis
      unfolding S by (simp add: S1_def)
  next
    case False
    with moved ledger_same [OF ok, of S1] show ?thesis
      unfolding S by (simp add: S1_def assets_def)
  qed
qed

lemma ledger_ack: "ledger S s \<Longrightarrow> ledger (sys_step (AckEvent t eid) S) s"
proof -
  assume ok: "ledger S s"
  obtain r res where e: "registry_ack t eid (reg S) = (r, res)" by fastforce
  from ack_moves [OF e, of s] show ?thesis
    by (intro ledger_same [OF ok]) (cases res; cases "s = t"; simp add: e assets_def)+
qed

lemma ledger_claim: "ledger S s \<Longrightarrow> ledger (sys_step (ClaimSession t) S) s"
proof (cases "registry_claim t (reg S)")
  case (Some r)
  assume ok: "ledger S s"
  show ?thesis
    by (rule ledger_same [OF ok]) (use claim_moves [OF Some, of s] Some in \<open>simp_all add: assets_def\<close>)
qed simp

lemma ledger_release: "ledger S s \<Longrightarrow> ledger (sys_step (Release t) S) s"
  by (rule ledger_same [of S]) (simp_all add: assets_def claim_release_def)

lemma ledger_step: "ledger S s \<Longrightarrow> ledger (sys_step op S) s"
  by (cases op)
     (simp_all only: ledger_arrive ledger_enqueue ledger_claim ledger_take ledger_ack ledger_release ledger_restore)

lemma reachable_ledger: "reachable age S \<Longrightarrow> ledger S s"
proof (induction rule: reachable.induct)
  case start
  then show ?case
    by (simp add: ledger_def assets_def system_start_def registry_new_def inflight_of_def backlog_of_def
        backlog_new_def)
next
  case (step S op)
  then show ?case by (simp only: ledger_step)
qed

section \<open>Properties\<close>

text \<open>
  C2: at least once. In every state the daemon can reach, with any interleaving of
  dispatches, connections, acknowledgements, drops and clock values, every message that
  arrived for a session is accounted for: acknowledged, in flight to the connection,
  waiting in the backlog, on its way into it, refused because the connection's queue was
  full, or one of the messages the backlog reported as evicted.
\<close>

theorem registry_conserves:
  assumes "reachable age S"
  shows "\<exists>gone. arrived S s = acked S s + mset (inflight_of s (reg S)) + mset (items (backlog_of s (reg S))) +
      mset (limbo S s) + refused S s + mset gone \<and> length gone = evictions S s"
  using reachable_ledger [OF assms, of s] by (simp add: ledger_def assets_def)

lemma reachable_run: "reachable age S \<Longrightarrow> reachable age (sys_run ops S)"
  unfolding sys_run_def by (induction ops arbitrary: S) (simp_all add: reachable.step)

definition demo_event :: "string \<Rightarrow> event" where
  "demo_event eid = \<lparr>ev_kind = EK_Message, ev_person = ''alice'', ev_role = Owner, ev_sender = ''@a:x'',
     ev_room_id = ''!r'', ev_room = Dm, ev_event_id = eid, ev_ts = [], ev_in_reply_to = None, ev_thread = None,
     ev_reacts_to = None, ev_text = ''hi'', ev_transcribed = False, ev_attachments = []\<rparr>"

lemmas registry_eval = sys_run_def system_start_def registry_new_def registry_deliver_def registry_enqueue_def
  registry_claim_def take_backlog_def registry_ack_def registry_restore_def claim_release_def inflight_of_def
  backlog_of_def backlog_new_def backlog_push_def backlog_drain_def backlog_restore_def evict_expired_def
  backlog_len_def expired_def BACKLOG_MAX_def saturating_add_def demo_event_def

theorem registry_conserves_witness:
  "let S = sys_run [ClaimSession ''s'', Arrive Sent ''s'' (demo_event ''$1'') 5, Release ''s'',
       RestoreInflight ''s'' 6] (system_start 1000)
   in inflight_of ''s'' (reg S) = [] \<and> items (backlog_of ''s'' (reg S)) = [(5, demo_event ''$1'')] \<and>
      (\<exists>gone. arrived S ''s'' = acked S ''s'' + mset (inflight_of ''s'' (reg S)) +
         mset (items (backlog_of ''s'' (reg S))) + mset (limbo S ''s'') + refused S ''s'' + mset gone \<and>
         length gone = evictions S ''s'')"
proof -
  let ?S = "sys_run [ClaimSession ''s'', Arrive Sent ''s'' (demo_event ''$1'') 5, Release ''s'',
    RestoreInflight ''s'' 6] (system_start 1000)"
  have "reachable 1000 ?S"
    by (rule reachable_run [OF reachable.start])
  from registry_conserves [OF this, of "''s''"] show ?thesis
    unfolding Let_def by (simp add: registry_eval)
qed

text \<open>
  A message can be left behind in the backlog of a connected session. A dispatch that
  found the session away queues the message after the session connected and emptied its
  backlog; nothing is under way then, and the message waits for the next connection.
\<close>

theorem registry_stranded:
  "\<exists>S. reachable age S \<and> is_connected ''s'' (reg S) \<and> limbo S ''s'' = [] \<and>
     inflight_of ''s'' (reg S) = [] \<and> items (backlog_of ''s'' (reg S)) = [(5, demo_event ''$1'')]"
proof -
  let ?S = "sys_run [Arrive Sent ''s'' (demo_event ''$1'') 5, ClaimSession ''s'', TakeBacklog ''s'' 6,
    Enqueue ''s'' 6] (system_start age)"
  have "reachable age ?S"
    by (rule reachable_run [OF reachable.start])
  moreover have "is_connected ''s'' (reg ?S) \<and> limbo ?S ''s'' = [] \<and> inflight_of ''s'' (reg ?S) = [] \<and>
      items (backlog_of ''s'' (reg ?S)) = [(5, demo_event ''$1'')]"
    by (simp add: registry_eval is_connected_def)
  ultimately show ?thesis by blast
qed

end
