(* ===== verification/Calendar.thy ===== *)
theory Calendar
  imports Rust_Str "HOL-Library.Signed_Division"
begin

text \<open>
  RFC 3339 times without a date library (\<open>crates/silta/src/time.rs\<close>). The integers of the
  algorithm are unbounded here: the days of a \<open>u64\<close> of milliseconds are below \<open>2 ^ 38\<close>,
  so nothing in it can overflow, and \<open>civil_from_days_correct\<close> shows that no unsigned
  difference is negative. Rust's \<open>/\<close> on signed integers truncates, which is \<open>sdiv\<close>. The
  calendar it is checked against counts the days of Gregorian years and months one by one.
\<close>

section \<open>The algorithm\<close>

definition civil_from_days :: "int \<Rightarrow> int \<times> int \<times> int" where
  "civil_from_days z0 =
     (let z = z0 + 719468;
          era = (if z \<ge> 0 then z else z - 146096) sdiv 146097;
          doe = z - era * 146097;
          yoe = (doe - doe div 1460 + doe div 36524 - doe div 146096) div 365;
          y = yoe + era * 400;
          doy = doe - (365 * yoe + yoe div 4 - yoe div 100);
          mp = (5 * doy + 2) div 153;
          d = doy - (153 * mp + 2) div 5 + 1;
          m = (if mp < 10 then mp + 3 else mp - 9)
      in (if m \<le> 2 then y + 1 else y, m, d))"

definition rfc3339_utc :: "u64 \<Rightarrow> string" where
  "rfc3339_utc unix_millis =
     (let secs = unat unix_millis div 1000;
          days = secs div 86400;
          rem = secs mod 86400;
          (year, month, day) = civil_from_days (int days)
      in zpad 4 (nat year) @ ''-'' @ zpad 2 (nat month) @ ''-'' @ zpad 2 (nat day) @ ''T'' @
         zpad 2 (rem div 3600) @ '':'' @ zpad 2 (rem mod 3600 div 60) @ '':'' @ zpad 2 (rem mod 60) @ ''Z'')"

section \<open>The calendar\<close>

definition leap :: "int \<Rightarrow> bool" where
  "leap y = (y mod 4 = 0 \<and> y mod 100 \<noteq> 0 \<or> y mod 400 = 0)"

definition year_len :: "int \<Rightarrow> int" where
  "year_len y = (if leap y then 366 else 365)"

definition month_len :: "int \<Rightarrow> int \<Rightarrow> int" where
  "month_len y m = (if m = 2 then (if leap y then 29 else 28) else if m \<in> {4, 6, 9, 11} then 30 else 31)"

definition valid_date :: "int \<Rightarrow> int \<Rightarrow> int \<Rightarrow> bool" where
  "valid_date y m d = (1 \<le> m \<and> m \<le> 12 \<and> 1 \<le> d \<and> d \<le> month_len y m)"

text \<open>The days from 1970-01-01 to a date, counted: whole years, whole months, days.\<close>

definition days_since_1970 :: "int \<Rightarrow> int \<Rightarrow> int \<Rightarrow> int" where
  "days_since_1970 y m d = (\<Sum>k\<leftarrow>[1970..y - 1]. year_len k) + (\<Sum>k\<leftarrow>[1..m - 1]. month_len y k) + (d - 1)"

section \<open>The year of an era\<close>

text \<open>The days before the March-based year \<open>y\<close>, and the source's year of the day of an era.\<close>

definition march_days :: "int \<Rightarrow> int" where
  "march_days y = 365 * y + y div 4 - y div 100 + y div 400"

definition year_of_era :: "int \<Rightarrow> int" where
  "year_of_era doe = (doe - doe div 1460 + doe div 36524 - doe div 146096) div 365"

lemma year_of_era_ends:
  "list_all (\<lambda>y. year_of_era (march_days y) = y \<and> year_of_era (march_days (y + 1) - 1) = y) [0..399]"
  by code_simp

lemma div_step: "0 < n \<Longrightarrow> (d + 1) div n = d div n + (if n dvd d + 1 then 1 else 0)" for d n :: int
proof -
  assume n: "0 < n"
  have "d mod n + 1 \<le> n" using n pos_mod_bound [of n d] by linarith
  moreover have "d + 1 = n * (d div n) + (d mod n + 1)" by simp
  ultimately show ?thesis
  proof (cases "d mod n + 1 = n")
    case True
    then have "d + 1 = n * (d div n + 1)"
      using \<open>d + 1 = n * (d div n) + (d mod n + 1)\<close> by (simp add: algebra_simps)
    with n show ?thesis by simp
  next
    case False
    have "0 \<le> d mod n" using n by simp
    then have "(d mod n + 1) div n = 0" "\<not> n dvd d mod n + 1"
      using False \<open>d mod n + 1 \<le> n\<close> by (auto simp: zdvd_not_zless)
    moreover have "(d + 1) div n = d div n + (d mod n + 1) div n"
      using n \<open>d + 1 = n * (d div n) + (d mod n + 1)\<close> by (metis div_mult_self2 add.commute less_irrefl)
    moreover have "n dvd d + 1 \<longleftrightarrow> n dvd d mod n + 1"
      by (metis dvd_add_right_iff dvd_triv_left \<open>d + 1 = n * (d div n) + (d mod n + 1)\<close>)
    ultimately show ?thesis by simp
  qed
qed

lemma leap_dvd: "leap y \<longleftrightarrow> 4 dvd y \<and> \<not> 100 dvd y \<or> 400 dvd y"
  by (simp add: leap_def dvd_eq_mod_eq_0)

lemma march_days_step: "march_days (y + 1) = march_days y + year_len (y + 1)"
proof -
  have centuries: "100 dvd y + 1 \<Longrightarrow> 4 dvd y + 1" "400 dvd y + 1 \<Longrightarrow> 100 dvd y + 1"
    by (rule dvd_trans [rotated], assumption, simp)+
  have "march_days (y + 1) = march_days y + 365 + (if 4 dvd y + 1 then 1 else 0) -
      (if 100 dvd y + 1 then 1 else 0) + (if 400 dvd y + 1 then 1 else 0)"
    unfolding march_days_def div_step [of 4 y, simplified] div_step [of 100 y, simplified]
      div_step [of 400 y, simplified] by simp
  with centuries show ?thesis
    by (cases "4 dvd y + 1"; cases "100 dvd y + 1"; cases "400 dvd y + 1")
       (simp_all add: year_len_def leap_dvd)
qed

lemma march_days_mono: "a \<le> b \<Longrightarrow> march_days a \<le> march_days b"
proof (induction rule: int_ge_induct)
  case (step b)
  then show ?case using march_days_step [of b] by (auto simp: year_len_def split: if_splits)
qed simp

lemma year_of_era_mono: "a \<le> b \<Longrightarrow> year_of_era a \<le> year_of_era b"
proof (induction rule: int_ge_induct)
  case (step b)
  have "146096 dvd b + 1 \<Longrightarrow> 36524 dvd b + 1"
    by (rule dvd_trans [rotated], assumption, simp)
  then have "b - b div 1460 + b div 36524 - b div 146096 \<le>
      (b + 1) - (b + 1) div 1460 + (b + 1) div 36524 - (b + 1) div 146096"
    by (auto simp: div_step)
  then have "year_of_era b \<le> year_of_era (b + 1)"
    unfolding year_of_era_def by (rule zdiv_mono1) simp
  with step show ?case by linarith
qed simp

lemma year_exists:
  "0 \<le> n \<Longrightarrow> 0 \<le> doe \<Longrightarrow> doe < march_days n \<Longrightarrow>
   \<exists>y. 0 \<le> y \<and> y < n \<and> march_days y \<le> doe \<and> doe < march_days (y + 1)"
proof (induction n rule: int_ge_induct)
  case (step n)
  show ?case
  proof (cases "doe < march_days n")
    case True
    with step obtain y where "0 \<le> y" "y < n" "march_days y \<le> doe" "doe < march_days (y + 1)" by auto
    then show ?thesis by (intro exI [of _ y]) auto
  next
    case False
    with step show ?thesis by (intro exI [of _ n]) auto
  qed
qed (auto simp: march_days_def)

lemma year_of_era_correct:
  assumes "0 \<le> doe" "doe < 146097"
  shows "0 \<le> year_of_era doe" "year_of_era doe < 400"
    "march_days (year_of_era doe) \<le> doe" "doe < march_days (year_of_era doe + 1)"
proof -
  have "doe < march_days 400"
    using assms(2) by (simp add: march_days_def)
  then obtain y where y: "0 \<le> y" "y < 400" "march_days y \<le> doe" "doe < march_days (y + 1)"
    using year_exists [of 400 doe] assms(1) by auto
  then have "year_of_era (march_days y) = y" "year_of_era (march_days (y + 1) - 1) = y"
    using year_of_era_ends by (auto simp: list_all_iff)
  moreover have "year_of_era (march_days y) \<le> year_of_era doe"
    "year_of_era doe \<le> year_of_era (march_days (y + 1) - 1)"
    using y(3,4) by (auto intro!: year_of_era_mono)
  ultimately have "year_of_era doe = y" by linarith
  with y show "0 \<le> year_of_era doe" "year_of_era doe < 400"
    "march_days (year_of_era doe) \<le> doe" "doe < march_days (year_of_era doe + 1)" by auto
qed

section \<open>The month of a March-based year\<close>

lemma month_table:
  "list_all (\<lambda>doy. let mp = (5 * doy + 2) div 153; d = doy - (153 * mp + 2) div 5 + 1 in
     0 \<le> mp \<and> mp \<le> 11 \<and> 1 \<le> d \<and> (10 \<le> mp \<longleftrightarrow> 306 \<le> doy) \<and>
     d \<le> (if mp = 11 then (if doy = 365 then 29 else 28) else if mp \<in> {1, 3, 6, 8} then 30 else 31)) [0..365]"
  by code_simp

lemma month_of_year:
  fixes doy :: int
  assumes "0 \<le> doy" "doy \<le> 365"
  defines "mp \<equiv> (5 * doy + 2) div 153"
  defines "d \<equiv> doy - (153 * mp + 2) div 5 + 1"
  shows "0 \<le> mp" "mp \<le> 11" "1 \<le> d" "10 \<le> mp \<longleftrightarrow> 306 \<le> doy"
    "d \<le> (if mp = 11 then (if doy = 365 then 29 else 28) else if mp \<in> {1, 3, 6, 8} then 30 else 31)"
proof -
  have "doy \<in> set [0..365]"
    using assms(1,2) by simp
  with month_table show "0 \<le> mp" "mp \<le> 11" "1 \<le> d" "10 \<le> mp \<longleftrightarrow> 306 \<le> doy"
    "d \<le> (if mp = 11 then (if doy = 365 then 29 else 28) else if mp \<in> {1, 3, 6, 8} then 30 else 31)"
    unfolding list_all_iff Let_def mp_def d_def by blast+
qed

lemma year_sum:
  "1970 \<le> y \<Longrightarrow> (\<Sum>k\<leftarrow>[1970..y - 1]. year_len k) = march_days (y - 1) + 365 - 719527"
proof (induction rule: int_ge_induct)
  case base
  then show ?case by (simp add: march_days_def)
next
  case (step y)
  then have "[1970..y + 1 - 1] = [1970..y - 1] @ [y]"
    using upto_rec2 [of 1970 y] by simp
  with step march_days_step [of "y - 1"] show ?case by simp
qed

lemma months_of_year: "(1 :: int) \<le> m \<Longrightarrow> m \<le> 12 \<Longrightarrow> m \<in> {1, 2, 3, 4, 5, 6, 7, 8, 9, 10, 11, 12}"
  by simp presburger

lemma month_sum:
  assumes "3 \<le> m" "m \<le> 12"
  shows "(\<Sum>k\<leftarrow>[1..m - 1]. month_len y k) = 59 + (if leap y then 1 else 0) + (153 * (m - 3) + 2) div 5"
  using months_of_year [of m] assms by (auto simp: upto.simps month_len_def)

section \<open>The algorithm is the calendar\<close>

lemma march_days_split:
  "march_days (yoe + era * 400) = era * 146097 + march_days yoe"
proof -
  have "(yoe + era * 400) div 4 = yoe div 4 + era * 100" "(yoe + era * 400) div 100 = yoe div 100 + era * 4"
    "(yoe + era * 400) div 400 = yoe div 400 + era"
    by linarith+
  then show ?thesis
    by (simp add: march_days_def)
qed

lemma mod_period: "k dvd n \<Longrightarrow> (y + e * n) mod k = y mod k" for k n y e :: int
  by (metis dvd_mult mod_add_self2 mod_add_right_eq dvd_imp_mod_0 add.right_neutral)

lemma leap_period: "leap (y + e * 400) = leap y"
  unfolding leap_def by (simp add: mod_period)

lemma civil_from_days_counts:
  assumes "0 \<le> z" and "civil_from_days z = (y, m, d)"
  shows "1970 \<le> y \<and> valid_date y m d \<and> days_since_1970 y m d = z"
proof -
  define Z where "Z = z + 719468"
  define era where "era = Z div 146097"
  define doe where "doe = Z - era * 146097"
  define yoe where "yoe = year_of_era doe"
  define y0 where "y0 = yoe + era * 400"
  define doy where "doy = doe - march_days yoe"
  define mp where "mp = (5 * doy + 2) div 153"
  have era: "(if Z \<ge> 0 then Z else Z - 146096) sdiv 146097 = era"
    using assms(1) by (simp add: Z_def era_def signed_divide_int_def)
  have doe: "0 \<le> doe" "doe < 146097"
    by (simp_all add: doe_def era_def minus_div_mult_eq_mod)
  note year = year_of_era_correct [OF doe, folded yoe_def]
  have "yoe div 400 = 0"
    using year(1,2) by simp
  then have doy_src: "doe - (365 * yoe + yoe div 4 - yoe div 100) = doy"
    by (simp add: doy_def march_days_def)
  have total: "Z = march_days y0 + doy"
    by (simp add: y0_def march_days_split doy_def doe_def)
  have len: "march_days (yoe + 1) = march_days yoe + year_len (yoe + 1)"
    by (rule march_days_step)
  have leap_y0: "leap (yoe + 1) = leap (y0 + 1)"
    using leap_period [of "yoe + 1" era] by (simp add: y0_def ac_simps)
  have doy: "0 \<le> doy" "doy \<le> 365" "doy = 365 \<longrightarrow> leap (y0 + 1)"
    using year(3,4) len leap_y0 by (auto simp: doy_def year_len_def split: if_splits)
  note month = month_of_year [OF doy(1,2), folded mp_def]
  have civil: "m = (if mp < 10 then mp + 3 else mp - 9)" "d = doy - (153 * mp + 2) div 5 + 1"
    "y = (if m \<le> 2 then y0 + 1 else y0)"
    using assms(2) unfolding civil_from_days_def Let_def Z_def [symmetric] era doe_def [symmetric]
      year_of_era_def [symmetric] yoe_def [symmetric] y0_def [symmetric] doy_src mp_def [symmetric] by auto
  show ?thesis
  proof (cases "mp < 10")
    case True
    then have m: "m = mp + 3" "y = y0" "doy < 306"
      using civil month(1,4) by auto
    have "1970 \<le> y0"
      using march_days_mono [of y0 1969] total m(3) assms(1) by (force simp: march_days_def Z_def)
    moreover have "valid_date y m d"
      using month True m civil(2) by (auto simp: valid_date_def month_len_def split: if_splits)
    moreover have "days_since_1970 y m d = z"
      using year_sum [of y0] month_sum [of m y0] march_days_step [of "y0 - 1"] month(1) True m total
        \<open>1970 \<le> y0\<close> civil(2)
      by (simp add: days_since_1970_def Z_def year_len_def split: if_splits)
    ultimately show ?thesis by (simp add: m(2))
  next
    case False
    then have m: "m = mp - 9" "y = y0 + 1" "mp = 10 \<or> mp = 11"
      using civil month(2) by auto
    have "1969 \<le> y0"
      using march_days_mono [of y0 1968] total doy(2) assms(1) by (force simp: march_days_def Z_def)
    moreover have "valid_date y m d"
      using month m civil(2) doy(3) by (auto simp: valid_date_def month_len_def split: if_splits)
    moreover have "days_since_1970 y m d = z"
    proof -
      have "(\<Sum>k\<leftarrow>[1..m - 1]. month_len y k) = (153 * mp + 2) div 5 - 306"
        using m(1,3) by (auto simp: upto.simps [of 1] upto.simps [of 2] month_len_def)
      then show ?thesis
        using year_sum [of "y0 + 1"] m(2) total \<open>1969 \<le> y0\<close> civil(2)
        by (simp add: days_since_1970_def Z_def)
    qed
    ultimately show ?thesis by (simp add: m(2))
  qed
qed

section \<open>Properties\<close>

text \<open>
  For every number of days since 1970 the algorithm gives a valid date of the
  Gregorian calendar, the one that is that many days after 1970-01-01 when years and
  months are counted one by one.
\<close>

theorem civil_from_days_correct:
  assumes "0 \<le> z" and "civil_from_days z = (y, m, d)"
  shows "1970 \<le> y \<and> valid_date y m d \<and> days_since_1970 y m d = z"
  using assms by (rule civil_from_days_counts)

theorem civil_from_days_correct_witness:
  "civil_from_days 20700 = (2026, 9, 4) \<and> valid_date 2026 9 4 \<and> days_since_1970 2026 9 4 = 20700"
proof -
  have "civil_from_days 20700 = (2026, 9, 4)" by code_simp
  with civil_from_days_correct [of 20700] show ?thesis by simp
qed

end
