(* ===== verification/Backup.thy ===== *)
theory Backup
  imports Calendar "HOL-Library.List_Lexorder" "HOL-Library.Char_ord"
begin

text \<open>
  The store's copies (\<open>crates/siltad/src/backup.rs\<close>): their names, the run of a backup and which
  copies are kept. The directory is the list of its entries' names, each with whether it is a
  directory, in the order in which it is read; a removal that fails leaves the entry. The
  outcome of every file operation and of the copy of each database (SQLite's \<open>VACUUM INTO\<close>) is
  part of \<open>backup_io\<close>; the bytes copied are not modelled. Names compare by their bytes, as
  \<open>String\<close> does.
\<close>

section \<open>The operations\<close>

definition stamp :: "u64 \<Rightarrow> string" where
  "stamp now = map (\<lambda>c. if c = CHR '':'' then CHR ''-'' else c) (rfc3339_utc now)"

definition is_stamp :: "string \<Rightarrow> bool" where
  "is_stamp name =
     (length name = 20 \<and> ends_with ''Z'' name \<and>
      list_all (\<lambda>u. is_ascii_digit u \<or> u \<in> {''-'', ''T'', ''Z''}) (chars name))"

type_synonym dir_entries = "(string \<times> bool) list"

record backup_io =
  bk_create_ok :: bool
  bk_chmod_ok :: bool
  bk_clear_ok :: bool
  bk_mkdir_ok :: bool
  bk_rename_ok :: bool
  bk_list_ok :: bool
  bk_entry_ok :: "string \<Rightarrow> bool"
  bk_remove_ok :: "string \<Rightarrow> bool"
  bk_copy_ok :: "string \<Rightarrow> bool"

definition is_leftover :: "string \<Rightarrow> bool" where
  "is_leftover n = (starts_with ''.'' n \<and> ends_with ''.tmp'' n)"

text \<open>
  \<open>prune\<close>: the first pass removes leftovers and collects the copies, the second removes the
  oldest beyond \<open>keep\<close>. Each gives whether it succeeded and the names removed.
\<close>

fun prune_scan :: "backup_io \<Rightarrow> dir_entries \<Rightarrow> string list \<Rightarrow> string list \<Rightarrow> bool \<times> string list \<times> string list" where
  "prune_scan io [] gone copies = (True, gone, copies)"
| "prune_scan io ((n, dir) # es) gone copies =
     (if \<not> bk_entry_ok io n then (False, gone, copies)
      else if \<not> dir then prune_scan io es gone copies
      else if is_leftover n
      then if bk_remove_ok io n then prune_scan io es (gone @ [n]) copies else (False, gone, copies)
      else if is_stamp n then prune_scan io es gone (copies @ [n])
      else prune_scan io es gone copies)"

fun remove_oldest :: "backup_io \<Rightarrow> nat \<Rightarrow> string list \<Rightarrow> string list \<Rightarrow> bool \<times> string list" where
  "remove_oldest io keep [] gone = (True, gone)"
| "remove_oldest io keep (c # cs) gone =
     (if length (c # cs) > keep
      then if bk_remove_ok io c then remove_oldest io keep cs (gone @ [c]) else (False, gone)
      else (True, gone))"

definition prune :: "backup_io \<Rightarrow> dir_entries \<Rightarrow> nat \<Rightarrow> bool \<times> string list" where
  "prune io entries keep =
     (if \<not> bk_list_ok io then (False, [])
      else case prune_scan io entries [] [] of
        (False, gone, _) \<Rightarrow> (False, gone)
      | (True, gone, copies) \<Rightarrow> remove_oldest io keep (sort copies) gone)"

text \<open>
  \<open>run\<close>: the store's databases and the two plain files are copied into a temporary
  directory, which is then renamed. A copy that fails ends the run with the temporary
  directory left behind.
\<close>

datatype read_dir = Listing "string list" | Not_Found | Unreadable

record store_view =
  store_entries :: read_dir
  plain_files :: "string list"

datatype backup_error =
    Not_A_Stamp
  | Cannot_Create
  | Cannot_Protect
  | Exists_Already
  | Cannot_Remove
  | Cannot_Make_Temporary
  | Cannot_Read
  | Copy_Failed string
  | Cannot_Rename
  | Prune_Failed

fun copy_all :: "(string \<Rightarrow> bool) \<Rightarrow> string list \<Rightarrow> backup_error + string list" where
  "copy_all copy_ok [] = Inr []"
| "copy_all copy_ok (n # ns) =
     (if copy_ok n
      then case copy_all copy_ok ns of Inl e \<Rightarrow> Inl e | Inr done \<Rightarrow> Inr (n # done)
      else Inl (Copy_Failed n))"

definition copy_store :: "store_view \<Rightarrow> (string \<Rightarrow> bool) \<Rightarrow> backup_error + string list" where
  "copy_store st copy_ok =
     (let plain = filter (\<lambda>n. n \<in> set (plain_files st)) [''session.json'', ''delivered.json'']
      in case store_entries st of
           Listing ns \<Rightarrow> copy_all copy_ok (sort (filter (ends_with ''.sqlite3'') ns) @ plain)
         | Not_Found \<Rightarrow> copy_all copy_ok plain
         | Unreadable \<Rightarrow> Inl Cannot_Read)"

definition tmp_name :: "string \<Rightarrow> string" where
  "tmp_name s = ''.'' @ s @ ''.tmp''"

definition run_backup ::
  "store_view \<Rightarrow> backup_io \<Rightarrow> dir_entries \<Rightarrow> nat \<Rightarrow> string \<Rightarrow> dir_entries \<times> (backup_error + string list)"
where
  "run_backup st io to keep s =
     (if \<not> is_stamp s then (to, Inl Not_A_Stamp)
      else if \<not> bk_create_ok io then (to, Inl Cannot_Create)
      else if \<not> bk_chmod_ok io then (to, Inl Cannot_Protect)
      else if s \<in> fst ` set to then (to, Inl Exists_Already)
      else if tmp_name s \<in> fst ` set to \<and> (\<not> bk_clear_ok io \<or> (tmp_name s, False) \<in> set to) then (to, Inl Cannot_Remove)
      else let bare = filter (\<lambda>e. fst e \<noteq> tmp_name s) to
           in if \<not> bk_mkdir_ok io then (bare, Inl Cannot_Make_Temporary)
              else case copy_store st (bk_copy_ok io) of
                Inl e \<Rightarrow> ((tmp_name s, True) # bare, Inl e)
              | Inr files \<Rightarrow>
                  if \<not> bk_rename_ok io then ((tmp_name s, True) # bare, Inl Cannot_Rename)
                  else let moved = (s, True) # bare; (ok, gone) = prune io moved keep
                       in (filter (\<lambda>e. \<not> (snd e \<and> fst e \<in> set gone)) moved, if ok then Inr files else Inl Prune_Failed))"

section \<open>Comparing padded numbers\<close>

lemma div_mod_less:
  "0 < n \<Longrightarrow> (a div n < b div n \<or> a div n = b div n \<and> a mod n < b mod n) \<longleftrightarrow> a < b" for a b n :: nat
proof -
  assume n: "0 < n"
  have "a div n < b div n \<Longrightarrow> a < b"
    by (meson div_le_mono leD leI)
  moreover have "b div n < a div n \<Longrightarrow> \<not> a < b"
    by (meson div_le_mono leD less_imp_le)
  moreover have "a div n = b div n \<Longrightarrow> a mod n < b mod n \<longleftrightarrow> a < b"
    using div_mult_mod_eq [of a n] div_mult_mod_eq [of b n] by (metis add_less_cancel_left)
  ultimately show ?thesis by force
qed

lemma append_less_same_length:
  fixes xs ys us vs :: "'a :: linorder list"
  assumes "length xs = length us"
  shows "xs @ ys < us @ vs \<longleftrightarrow> xs < us \<or> xs = us \<and> ys < vs"
  using assms by (induction xs us rule: list_induct2) auto

lemma digit_less: "a < 10 \<Longrightarrow> b < 10 \<Longrightarrow> digit a < digit b \<longleftrightarrow> a < b"
  by (simp add: digit_def less_char_def)

lemma digit_eq: "a < 10 \<Longrightarrow> b < 10 \<Longrightarrow> digit a = digit b \<longleftrightarrow> a = b"
  by (metis digit_less less_irrefl linorder_neqE_nat)

lemma digit_0: "digit 0 = CHR ''0''"
  by code_simp

lemma dec_snoc: "10 \<le> n \<Longrightarrow> dec n = dec (n div 10) @ [digit (n mod 10)]"
  by (simp add: dec.simps [of n])

lemma zpad_snoc:
  "n < 10 ^ Suc w \<Longrightarrow> 0 < w \<Longrightarrow> zpad (Suc w) n = zpad w (n div 10) @ [digit (n mod 10)]"
proof (cases "n < 10")
  case True
  assume "0 < w"
  with True show ?thesis
    by (cases w) (simp_all add: zpad_def dec.simps [of n] dec.simps [of 0] digit_0 replicate_append_same)
next
  case False
  then show ?thesis
    by (simp add: zpad_def dec_snoc)
qed

lemma zpad_less:
  "0 < w \<Longrightarrow> a < 10 ^ w \<Longrightarrow> b < 10 ^ w \<Longrightarrow> zpad w a < zpad w b \<longleftrightarrow> a < b"
proof (induction w arbitrary: a b)
  case (Suc w)
  show ?case
  proof (cases "w = 0")
    case True
    with Suc.prems show ?thesis
      by (simp add: zpad_def dec.simps [of a] dec.simps [of b] digit_less)
  next
    case False
    then have div: "a div 10 < 10 ^ w" "b div 10 < 10 ^ w"
      using Suc.prems by (simp_all add: less_mult_imp_div_less ac_simps)
    have "zpad (Suc w) a < zpad (Suc w) b \<longleftrightarrow>
        zpad w (a div 10) < zpad w (b div 10) \<or>
        zpad w (a div 10) = zpad w (b div 10) \<and> digit (a mod 10) < digit (b mod 10)"
      using False Suc.prems div by (simp add: zpad_snoc append_less_same_length length_zpad)
    also have "\<dots> \<longleftrightarrow> a div 10 < b div 10 \<or> a div 10 = b div 10 \<and> a mod 10 < b mod 10"
      using False div Suc.IH [of "a div 10" "b div 10"] Suc.IH [of "b div 10" "a div 10"]
      by (auto simp: digit_less)
    also have "\<dots> \<longleftrightarrow> a < b"
      by (rule div_mod_less) simp
    finally show ?thesis .
  qed
qed simp

lemma zpad_eq: "0 < w \<Longrightarrow> a < 10 ^ w \<Longrightarrow> b < 10 ^ w \<Longrightarrow> zpad w a = zpad w b \<longleftrightarrow> a = b"
  by (metis less_irrefl linorder_neqE_nat zpad_less)

section \<open>Dates in order\<close>

lemma sum_upto_mono:
  assumes "\<And>k. 0 \<le> f k" and "a \<le> (b :: int)"
  shows "(\<Sum>k\<leftarrow>[1..a]. f k) \<le> ((\<Sum>k\<leftarrow>[1..b]. f k) :: int)"
  using assms(2)
proof (induction rule: int_ge_induct)
  case (step b)
  then show ?case
    using upto_rec2 [of 1 "b + 1"] assms(1) [of "b + 1"] by (cases "1 \<le> b + 1") auto
qed simp

lemma month_len_pos: "0 \<le> month_len y m"
  by (simp add: month_len_def)

lemma day_in_month:
  assumes "valid_date y m d"
  shows "(\<Sum>k\<leftarrow>[1..m - 1]. month_len y k) + (d - 1) < (\<Sum>k\<leftarrow>[1..m]. month_len y k)"
  using assms upto_rec2 [of 1 m] by (simp add: valid_date_def)

lemma months_make_year: "(\<Sum>k\<leftarrow>[1..12]. month_len y k) = year_len y"
  by (simp add: upto.simps month_len_def year_len_def)

lemma day_in_year:
  assumes "valid_date y m d"
  shows "0 \<le> (\<Sum>k\<leftarrow>[1..m - 1]. month_len y k) + (d - 1)"
    "(\<Sum>k\<leftarrow>[1..m - 1]. month_len y k) + (d - 1) < year_len y"
proof -
  have "(\<Sum>k\<leftarrow>[1..m]. month_len y k) \<le> (\<Sum>k\<leftarrow>[1..12]. month_len y k)"
    using assms by (intro sum_upto_mono month_len_pos) (simp add: valid_date_def)
  with day_in_month [OF assms] show "(\<Sum>k\<leftarrow>[1..m - 1]. month_len y k) + (d - 1) < year_len y"
    by (simp add: months_make_year)
  have "0 \<le> (\<Sum>k\<leftarrow>[1..m - 1]. month_len y k)"
    by (rule sum_list_nonneg) (auto simp: month_len_pos)
  then show "0 \<le> (\<Sum>k\<leftarrow>[1..m - 1]. month_len y k) + (d - 1)"
    using assms by (simp add: valid_date_def)
qed

lemma year_sum_step:
  assumes "1970 \<le> y1" "y1 < y2"
  shows "(\<Sum>k\<leftarrow>[1970..y1 - 1]. year_len k) + year_len y1 \<le> (\<Sum>k\<leftarrow>[1970..y2 - 1]. year_len k)"
proof -
  have "march_days (y1 - 1) + year_len y1 = march_days y1"
    using march_days_step [of "y1 - 1"] by simp
  moreover have "march_days y1 \<le> march_days (y2 - 1)"
    using assms by (intro march_days_mono) simp
  ultimately show ?thesis
    using assms by (simp add: year_sum)
qed

lemma dates_in_order:
  assumes "valid_date y1 m1 d1" "valid_date y2 m2 d2" "1970 \<le> y1" "1970 \<le> y2"
    and "y1 < y2 \<or> y1 = y2 \<and> (m1 < m2 \<or> m1 = m2 \<and> d1 < d2)"
  shows "days_since_1970 y1 m1 d1 < days_since_1970 y2 m2 d2"
  using assms(5)
proof (elim disjE conjE)
  assume "y1 < y2"
  from year_sum_step [OF assms(3) this] day_in_year(2) [OF assms(1)] day_in_year(1) [OF assms(2)]
  show ?thesis by (simp add: days_since_1970_def)
next
  assume y: "y1 = y2" and m: "m1 < m2"
  have "(\<Sum>k\<leftarrow>[1..m1]. month_len y1 k) \<le> (\<Sum>k\<leftarrow>[1..m2 - 1]. month_len y1 k)"
    using m by (intro sum_upto_mono month_len_pos) simp
  with day_in_month [OF assms(1)] assms(2) y show ?thesis
    by (simp add: days_since_1970_def valid_date_def)
qed (simp add: days_since_1970_def)

lemma days_less_date:
  assumes "valid_date y1 m1 d1" "valid_date y2 m2 d2" "1970 \<le> y1" "1970 \<le> y2"
    and "days_since_1970 y1 m1 d1 < days_since_1970 y2 m2 d2"
  shows "y1 < y2 \<or> y1 = y2 \<and> (m1 < m2 \<or> m1 = m2 \<and> d1 < d2)"
proof (rule ccontr)
  assume no: "\<not> ?thesis"
  then consider "y2 = y1" "m2 = m1" "d2 = d1" |
      "y2 < y1 \<or> y2 = y1 \<and> (m2 < m1 \<or> m2 = m1 \<and> d2 < d1)" by linarith
  then show False
  proof cases
    case 2
    from dates_in_order [OF assms(2,1,4,3) this] assms(5) show False by simp
  qed (use assms(5) in simp)
qed

section \<open>Stamps in order\<close>

text \<open>The fields of a time, as the source prints them.\<close>

definition secs_of :: "u64 \<Rightarrow> nat" where
  "secs_of t = unat t div 1000"

definition date_of :: "u64 \<Rightarrow> int \<times> int \<times> int" where
  "date_of t = civil_from_days (int (secs_of t div 86400))"

lemma date_of_valid:
  assumes "date_of t = (y, m, d)"
  shows "1970 \<le> y" "valid_date y m d" "days_since_1970 y m d = int (secs_of t div 86400)"
  using civil_from_days_counts [of "int (secs_of t div 86400)" y m d] assms by (simp_all add: date_of_def)

lemma rfc3339_fields:
  assumes "date_of t = (y, m, d)"
  shows "rfc3339_utc t = zpad 4 (nat y) @ ''-'' @ zpad 2 (nat m) @ ''-'' @ zpad 2 (nat d) @ ''T'' @
    zpad 2 (secs_of t mod 86400 div 3600) @ '':'' @ zpad 2 (secs_of t mod 86400 mod 3600 div 60) @ '':'' @
    zpad 2 (secs_of t mod 86400 mod 60) @ ''Z''"
  using assms by (simp add: rfc3339_utc_def date_of_def secs_of_def Let_def)

lemma of_char_digit: "d < 10 \<Longrightarrow> of_char (digit d) = (48 + d :: nat)"
  by (simp add: digit_def)

lemma dec_digits: "c \<in> set (dec n) \<Longrightarrow> \<exists>d < 10. c = digit d"
proof (induction n rule: dec.induct)
  case (1 n)
  then show ?case
    using mod_less_divisor [of 10 n] by (cases "n < 10") (auto simp: dec.simps [of n] simp del: mod_less_divisor)
qed

lemma zpad_digits: "c \<in> set (zpad w n) \<Longrightarrow> \<exists>d < 10. c = digit d"
  using dec_digits digit_0 by (force simp: zpad_def)

lemma byte_zpad: "c \<in> set (zpad w n) \<Longrightarrow> 48 \<le> byte c \<and> byte c \<le> 57"
  using zpad_digits [of c w n] of_char_digit by (force simp: byte_def)

lemma zpad_no_colon: "map (\<lambda>c. if c = CHR '':'' then CHR ''-'' else c) (zpad w n) = zpad w n"
  using byte_zpad [of "CHR '':''" w n] by (intro map_idI) (auto simp: byte_def)

lemma stamp_fields:
  assumes "date_of t = (y, m, d)"
  shows "stamp t = zpad 4 (nat y) @ ''-'' @ zpad 2 (nat m) @ ''-'' @ zpad 2 (nat d) @ ''T'' @
    zpad 2 (secs_of t mod 86400 div 3600) @ ''-'' @ zpad 2 (secs_of t mod 86400 mod 3600 div 60) @ ''-'' @
    zpad 2 (secs_of t mod 86400 mod 60) @ ''Z''"
  by (simp add: stamp_def rfc3339_fields [OF assms] zpad_no_colon)

lemma chars_ascii: "\<forall>c \<in> set s. \<not> is_cont c \<Longrightarrow> chars s = map (\<lambda>c. [c]) s"
proof (induction s)
  case (Cons c s)
  then have "takeWhile is_cont s = []" "dropWhile is_cont s = s"
    by (cases s; simp)+
  with Cons show ?case by simp
qed simp

lemma date_bounds: "valid_date y m d \<Longrightarrow> nat m < 100 \<and> nat d < 100"
  by (auto simp: valid_date_def month_len_def split: if_splits)

lemma time_bounds:
  "n mod 86400 div 3600 < 100" "n mod 86400 mod 3600 div 60 < 100" "n mod 86400 mod 60 < (100 :: nat)"
proof -
  have "n mod 86400 < 86400" "n mod 86400 mod 3600 < 3600" "n mod 86400 mod 60 < 60" by simp_all
  then show "n mod 86400 div 3600 < 100" "n mod 86400 mod 3600 div 60 < 100" "n mod 86400 mod 60 < 100"
    by linarith+
qed

lemma ends_with_append: "ends_with p (s @ p)"
  by (simp add: ends_with_def)

lemma is_stamp_stamp:
  assumes "date_of t = (y, m, d)" and "y < 10000"
  shows "is_stamp (stamp t)"
proof -
  note fields = stamp_fields [OF assms(1)]
  have lens: "length (zpad 4 (nat y)) = 4" "length (zpad 2 (nat m)) = 2" "length (zpad 2 (nat d)) = 2"
    using assms(2) date_bounds [OF date_of_valid(2) [OF assms(1)]] by (auto intro!: length_zpad)
  have len: "length (stamp t) = 20"
    unfolding fields by (simp add: lens length_zpad time_bounds)
  have ok: "byte c \<in> {48..57} \<or> c \<in> {CHR ''-'', CHR ''T'', CHR ''Z''}" if "c \<in> set (stamp t)" for c
    using that byte_zpad unfolding fields by fastforce
  then have "chars (stamp t) = map (\<lambda>c. [c]) (stamp t)"
    by (intro chars_ascii) (force simp: is_cont_def byte_def)
  moreover have "ends_with ''Z'' (stamp t)"
    unfolding fields append_assoc [symmetric] by (rule ends_with_append)
  ultimately show ?thesis
    using len ok by (auto simp: is_stamp_def list_all_iff is_ascii_digit_def)
qed

text \<open>The order of the printed fields is the order of time.\<close>

lemma time_of_day_less:
  "(a div 3600 < b div 3600 \<or> a div 3600 = b div 3600 \<and>
     (a mod 3600 div 60 < b mod 3600 div 60 \<or> a mod 3600 div 60 = b mod 3600 div 60 \<and> a mod 60 < b mod 60)) \<longleftrightarrow>
   a < b" for a b :: nat
proof -
  have "a mod 60 = a mod 3600 mod 60" "b mod 60 = b mod 3600 mod 60"
    by (simp_all add: mod_mod_cancel)
  then show ?thesis
    using div_mod_less [of 3600 a b] div_mod_less [of 60 "a mod 3600" "b mod 3600"] by simp
qed

lemma first_field_less: "length a = length b \<Longrightarrow> a < b \<Longrightarrow> a @ s < b @ u" for a b s u :: string
  by (simp add: append_less_same_length)

lemma first_field_same: "s < u \<Longrightarrow> a @ s < a @ u" for a s u :: string
  by (simp add: append_less_same_length)

lemmas field_order = first_field_less first_field_same

lemma zpad_field_less:
  assumes "0 < w" "x < y" "y < 10 ^ w"
  shows "zpad w x @ s < zpad w y @ u"
proof (rule first_field_less)
  have "x < 10 ^ w" using assms by simp
  then show "length (zpad w x) = length (zpad w y)" "zpad w x < zpad w y"
    using assms by (simp_all add: length_zpad zpad_less)
qed

lemma stamp_less:
  assumes "date_of t = (y, m, d)" "date_of u = (y', m', d')" "y < 10000" "y' < 10000" "secs_of t < secs_of u"
  shows "stamp t < stamp u"
proof -
  note v = date_of_valid [OF assms(1)] date_of_valid [OF assms(2)]
  have pos: "0 \<le> y" "0 \<le> m" "0 \<le> d" using v by (auto simp: valid_date_def)
  have top: "nat y' < 10 ^ 4" "nat m' < 10 ^ 2" "nat d' < 10 ^ 2"
    using date_bounds [OF v(5)] assms(4) by auto
  have "secs_of t div 86400 < secs_of u div 86400 \<or> secs_of t div 86400 = secs_of u div 86400 \<and>
      secs_of t mod 86400 < secs_of u mod 86400"
    using div_mod_less [of 86400 "secs_of t" "secs_of u"] assms(5) by simp
  then show ?thesis
  proof (elim disjE conjE)
    assume "secs_of t div 86400 < secs_of u div 86400"
    then have "y < y' \<or> y = y' \<and> (m < m' \<or> m = m' \<and> d < d')"
      using days_less_date [OF v(2,5,1,4)] v(3,6) by simp
    then have "nat y < nat y' \<or> y = y' \<and> (nat m < nat m' \<or> m = m' \<and> nat d < nat d')"
      using pos by auto
    then show ?thesis
      unfolding stamp_fields [OF assms(1)] stamp_fields [OF assms(2)]
      by (elim disjE conjE) (simp_all only:, (intro first_field_same zpad_field_less top; simp)+)
  next
    assume day: "secs_of t div 86400 = secs_of u div 86400" and tod: "secs_of t mod 86400 < secs_of u mod 86400"
    then have same: "y' = y" "m' = m" "d' = d"
      using assms(1,2) by (simp_all add: date_of_def)
    have "secs_of t mod 86400 div 3600 < secs_of u mod 86400 div 3600 \<or>
        secs_of t mod 86400 div 3600 = secs_of u mod 86400 div 3600 \<and>
        (secs_of t mod 86400 mod 3600 div 60 < secs_of u mod 86400 mod 3600 div 60 \<or>
         secs_of t mod 86400 mod 3600 div 60 = secs_of u mod 86400 mod 3600 div 60 \<and>
         secs_of t mod 86400 mod 60 < secs_of u mod 86400 mod 60)"
      using tod by (simp only: time_of_day_less)
    then show ?thesis
      unfolding stamp_fields [OF assms(1)] stamp_fields [OF assms(2)] same
      by (elim disjE conjE) (simp_all only:, (intro first_field_same zpad_field_less; simp add: time_bounds)+)
  qed
qed

lemma date_below_10000:
  assumes "date_of t = (y, m, d)" and "unat t < 253402300800000"
  shows "y < 10000"
proof (rule ccontr)
  assume "\<not> y < 10000"
  note v = date_of_valid [OF assms(1)]
  have "march_days 9999 \<le> march_days (y - 1)"
    using \<open>\<not> y < 10000\<close> by (intro march_days_mono) simp
  then have "2932897 \<le> days_since_1970 y m d"
    using day_in_year(1) [OF v(2)] v(1) by (simp add: days_since_1970_def year_sum march_days_def)
  moreover have "secs_of t div 86400 < 2932897"
    using assms(2) by (simp add: secs_of_def less_mult_imp_div_less)
  ultimately show False using v(3) by simp
qed

section \<open>Which copies are kept\<close>

lemma stamp_not_leftover: "is_stamp n \<Longrightarrow> \<not> is_leftover n"
proof
  assume "is_stamp n" "is_leftover n"
  then have "drop (20 - 4) n = ''.tmp''" "drop 19 n = ''Z''"
    by (auto simp: is_stamp_def is_leftover_def ends_with_def)
  then show False using drop_drop [of 3 16 n] by simp
qed

definition copies_in :: "dir_entries \<Rightarrow> string list" where
  "copies_in to = sort (filter is_stamp (map fst (filter snd to)))"

lemma leftover_not_stamp: "is_leftover n \<Longrightarrow> \<not> is_stamp n"
  using stamp_not_leftover by blast

lemma prune_scan_gone:
  "prune_scan io es gone copies = (ok, gone', copies') \<Longrightarrow>
     (list_all is_leftover gone \<longrightarrow> list_all is_leftover gone') \<and>
     (ok \<longrightarrow> copies' = copies @ filter is_stamp (map fst (filter snd es)))"
proof (induction es arbitrary: gone copies)
  case (Cons e es)
  obtain n dir where e: "e = (n, dir)" by (meson surj_pair)
  consider (skip) "bk_entry_ok io n" "\<not> dir \<or> \<not> is_leftover n \<and> \<not> is_stamp n"
    | (left) "bk_entry_ok io n" "dir" "is_leftover n" "bk_remove_ok io n"
    | (copy) "bk_entry_ok io n" "dir" "is_stamp n"
    | (stop) "\<not> bk_entry_ok io n \<or> dir \<and> is_leftover n \<and> \<not> bk_remove_ok io n"
    by blast
  then show ?case
  proof cases
    case skip
    with Cons.prems have "prune_scan io es gone copies = (ok, gone', copies')" by (cases dir) (simp_all add: e)
    from Cons.IH [OF this] skip show ?thesis by (auto simp: e)
  next
    case left
    with Cons.prems have "prune_scan io es (gone @ [n]) copies = (ok, gone', copies')" by (simp add: e)
    from Cons.IH [OF this] left leftover_not_stamp show ?thesis by (auto simp: e)
  next
    case copy
    with Cons.prems have "prune_scan io es gone (copies @ [n]) = (ok, gone', copies')"
      using stamp_not_leftover [OF copy(3)] by (simp add: e)
    from Cons.IH [OF this] copy show ?thesis by (auto simp: e)
  next
    case stop
    then have "prune_scan io (e # es) gone copies = (False, gone, copies)" by (cases "bk_entry_ok io n") (simp_all add: e)
    with Cons.prems show ?thesis by simp
  qed
qed simp

lemma remove_oldest_gone:
  "remove_oldest io keep cs gone = (ok, gone') \<Longrightarrow>
     \<exists>k \<le> length cs - keep. gone' = gone @ take k cs \<and> (ok \<longrightarrow> k = length cs - keep)"
proof (induction io keep cs gone rule: remove_oldest.induct)
  case (2 io keep c cs gone)
  show ?case
  proof (cases "length (c # cs) > keep \<and> bk_remove_ok io c")
    case True
    with 2 obtain k where "k \<le> length cs - keep" "gone' = (gone @ [c]) @ take k cs" "ok \<longrightarrow> k = length cs - keep" by auto
    with True show ?thesis by (intro exI [of _ "Suc k"]) (auto simp: Suc_diff_le)
  next
    case False
    with 2 show ?thesis by (auto split: if_splits intro: exI [of _ 0])
  qed
qed simp

lemma prune_gone:
  assumes "prune io to keep = (ok, gone)"
  shows "\<exists>left k. gone = left @ take k (copies_in to) \<and> k \<le> length (copies_in to) - keep \<and> list_all is_leftover left \<and>
    (ok \<longrightarrow> k = length (copies_in to) - keep)"
proof (cases "bk_list_ok io")
  case True
  obtain ok1 g cs where sc: "prune_scan io to [] [] = (ok1, g, cs)" by (metis prod_cases3)
  have left: "list_all is_leftover g"
    using prune_scan_gone [OF sc] by simp
  show ?thesis
  proof (cases ok1)
    case ok: True
    with prune_scan_gone [OF sc] have "sort cs = copies_in to" by (simp add: copies_in_def)
    with True ok sc assms have "remove_oldest io keep (copies_in to) g = (ok, gone)" by (simp add: prune_def)
    from remove_oldest_gone [OF this] left show ?thesis by blast
  next
    case False
    with True sc assms left show ?thesis by (intro exI [of _ gone] exI [of _ 0]) (auto simp: prune_def)
  qed
qed (use assms in \<open>auto simp: prune_def intro: exI [of _ "[]"] exI [of _ 0]\<close>)

lemma set_copies_in: "set (copies_in to) = {n. is_stamp n \<and> (n, True) \<in> set to}"
  by (force simp: copies_in_def)

lemma distinct_copies_in: "distinct (map fst to) \<Longrightarrow> distinct (copies_in to)"
  by (simp add: copies_in_def distinct_map_filter)

lemma sorted_copies_in: "sorted (copies_in to)"
  by (simp add: copies_in_def)

lemma not_leftover_stamp_tmp: "is_stamp n \<Longrightarrow> n \<noteq> tmp_name s"
proof
  assume "is_stamp n" "n = tmp_name s"
  then have "is_leftover n"
    by (simp add: is_leftover_def starts_with_def tmp_name_def ends_with_def)
  with stamp_not_leftover [OF \<open>is_stamp n\<close>] show False ..
qed

lemma copies_in_cons_bare:
  assumes "is_stamp s"
  shows "copies_in ((s, True) # filter (\<lambda>e. fst e \<noteq> tmp_name s) to) = insort s (copies_in to)"
proof -
  have "filter is_stamp (map fst (filter snd (filter (\<lambda>e. fst e \<noteq> tmp_name s) to))) =
      filter is_stamp (map fst (filter snd to))"
    using not_leftover_stamp_tmp by (induction to) auto
  then show ?thesis
    using assms by (simp add: copies_in_def)
qed

lemma copies_in_filter:
  "copies_in (filter (\<lambda>e. \<not> (snd e \<and> P (fst e))) to) = filter (\<lambda>n. \<not> P n) (copies_in to)"
proof -
  have "map fst (filter snd (filter (\<lambda>e. \<not> (snd e \<and> P (fst e))) to)) =
      filter (\<lambda>n. \<not> P n) (map fst (filter snd to))"
    by (induction to) auto
  then show ?thesis
    by (simp add: copies_in_def filter_sort conj_commute)
qed

lemma filter_prefix_out:
  assumes "distinct xs"
  shows "filter (\<lambda>x. x \<notin> set (take n xs)) xs = drop n xs"
proof -
  have "set (take n xs) \<inter> set (drop n xs) = {}"
    using assms set_take_disj_set_drop_if_distinct [of xs n n] by simp
  then have "filter (\<lambda>x. x \<notin> set (take n xs)) (take n xs @ drop n xs) = drop n xs"
    unfolding filter_append by (auto simp: filter_empty_conv intro!: filter_True)
  then show ?thesis by simp
qed

lemma copies_after_prune:
  assumes "distinct (map fst to)" and "prune io to keep = (ok, gone)"
  shows "\<exists>k \<le> length (copies_in to) - keep. (ok \<longrightarrow> k = length (copies_in to) - keep) \<and>
    copies_in (filter (\<lambda>e. \<not> (snd e \<and> fst e \<in> set gone)) to) = drop k (copies_in to)"
proof -
  let ?cs = "copies_in to"
  from prune_gone [OF assms(2)] obtain left k where k: "gone = left @ take k ?cs" "k \<le> length ?cs - keep"
    "list_all is_leftover left" "ok \<longrightarrow> k = length ?cs - keep" by blast
  have "x \<in> set gone \<longleftrightarrow> x \<in> set (take k ?cs)" if "x \<in> set ?cs" for x
    using k(1,3) that stamp_not_leftover by (auto simp: set_copies_in list_all_iff)
  then have "filter (\<lambda>x. x \<notin> set gone) ?cs = filter (\<lambda>x. x \<notin> set (take k ?cs)) ?cs"
    by (intro filter_cong) auto
  then have "copies_in (filter (\<lambda>e. \<not> (snd e \<and> fst e \<in> set gone)) to) = drop k ?cs"
    unfolding copies_in_filter [where P = "\<lambda>n. n \<in> set gone"] filter_prefix_out [OF distinct_copies_in [OF assms(1)]] .
  with k show ?thesis by blast
qed

lemma insort_newest: "sorted xs \<Longrightarrow> \<forall>x \<in> set xs. x < s \<Longrightarrow> insort s xs = xs @ [s]"
  by (induction xs) auto

lemma copy_all_Inr: "copy_all ok ns = Inr fs \<longleftrightarrow> fs = ns \<and> list_all ok ns"
proof (induction ns arbitrary: fs)
  case (Cons n ns)
  then show ?case by (cases "copy_all ok ns") auto
qed auto

lemma copy_all_errors: "copy_all ok ns = Inl e \<Longrightarrow> e \<noteq> Prune_Failed"
  by (induction ns) (auto split: if_splits sum.splits)

lemma copy_store_errors: "copy_store st ok = Inl e \<Longrightarrow> e \<noteq> Prune_Failed"
  using copy_all_errors by (auto simp: copy_store_def Let_def split: read_dir.splits)

lemma run_backup_moved:
  assumes "run_backup st io to keep s = (to', r)" and "distinct (map fst to)" and "r = Inr files \<or> r = Inl Prune_Failed"
  shows "\<exists>k \<le> Suc (length (copies_in to)) - keep. (r = Inr files \<longrightarrow> k = Suc (length (copies_in to)) - keep) \<and>
      copies_in to' = drop k (insort s (copies_in to))"
    and "is_stamp s" "\<exists>fs. copy_store st (bk_copy_ok io) = Inr fs \<and> (r = Inr files \<longrightarrow> fs = files)"
proof -
  let ?moved = "(s, True) # filter (\<lambda>e. fst e \<noteq> tmp_name s) to"
  obtain ok gone where pr: "prune io ?moved keep = (ok, gone)" by (meson surj_pair)
  from assms(1,3) have s: "is_stamp s" "s \<notin> fst ` set to" "\<exists>fs. copy_store st (bk_copy_ok io) = Inr fs \<and> (r = Inr files \<longrightarrow> fs = files)"
      "r = Inr files \<longrightarrow> ok" and to': "to' = filter (\<lambda>e. \<not> (snd e \<and> fst e \<in> set gone)) ?moved"
    by (auto simp: run_backup_def Let_def pr split: if_splits sum.splits dest: copy_store_errors)
  have "distinct (map fst ?moved)"
    using assms(2) s(2) by (auto simp: distinct_map_filter)
  from copies_after_prune [OF this pr] show "\<exists>k \<le> Suc (length (copies_in to)) - keep.
      (r = Inr files \<longrightarrow> k = Suc (length (copies_in to)) - keep) \<and> copies_in to' = drop k (insort s (copies_in to))"
    using s(4) unfolding to' copies_in_cons_bare [OF s(1)] by auto
  show "is_stamp s" "\<exists>fs. copy_store st (bk_copy_ok io) = Inr fs \<and> (r = Inr files \<longrightarrow> fs = files)" using s by blast+
qed

lemma run_backup_error:
  assumes "run_backup st io to keep s = (to', Inl e)" "e \<noteq> Prune_Failed"
  shows "copies_in to' = copies_in to"
proof -
  have "to' \<in> {to, filter (\<lambda>e. fst e \<noteq> tmp_name s) to, (tmp_name s, True) # filter (\<lambda>e. fst e \<noteq> tmp_name s) to}"
    using assms by (auto simp: run_backup_def Let_def split: if_splits sum.splits prod.splits)
  moreover have "filter is_stamp (map fst (filter snd (filter (\<lambda>e. fst e \<noteq> tmp_name s) to))) =
      filter is_stamp (map fst (filter snd to))"
    using not_leftover_stamp_tmp by (induction to) auto
  moreover have "\<not> is_stamp (tmp_name s)"
    using not_leftover_stamp_tmp by blast
  ultimately show ?thesis by (auto simp: copies_in_def)
qed

section \<open>Properties\<close>

text \<open>
  Up to the year 9999 the name given to a copy passes the name check that pruning
  applies, and the names of two copies made in different seconds sort by time.
\<close>

theorem stamp_sorts_by_time:
  assumes "unat t < 253402300800000" and "unat u < 253402300800000"
    and "unat t div 1000 < unat u div 1000"
  shows "is_stamp (stamp t) \<and> is_stamp (stamp u) \<and> stamp t < stamp u"
proof -
  obtain y m d y' m' d' where dates: "date_of t = (y, m, d)" "date_of u = (y', m', d')"
    by (metis prod_cases3)
  note below = date_below_10000 [OF dates(1) assms(1)] date_below_10000 [OF dates(2) assms(2)]
  show ?thesis
    using is_stamp_stamp [OF dates(1) below(1)] is_stamp_stamp [OF dates(2) below(2)]
      stamp_less [OF dates below] assms(3) by (simp add: secs_of_def)
qed

theorem stamp_sorts_by_time_witness:
  "stamp 1788500000000 < stamp 1788500001000 \<and> is_stamp (stamp 1788500000000)"
  using stamp_sorts_by_time [of 1788500000000 1788500001000] by simp


definition demo_backup_io :: backup_io where
  "demo_backup_io = \<lparr>bk_create_ok = True, bk_chmod_ok = True, bk_clear_ok = True, bk_mkdir_ok = True, bk_rename_ok = True,
     bk_list_ok = True, bk_entry_ok = \<lambda>_. True, bk_remove_ok = \<lambda>_. True, bk_copy_ok = \<lambda>_. True\<rparr>"


end
