(* ===== verification/Line.thy ===== *)
theory Line
  imports Protocol
begin

text \<open>
  Line framing (\<open>crates/silta/src/line.rs\<close>). The stream under a reader is the sequence of
  results of \<open>fill_buf\<close>: the bytes at hand, of which \<open>consume\<close> drops a prefix, or a failed
  read; the list ends at the end of the file, and an empty buffer is the end of the file
  too. The JSON serialiser and parser are parameters, with what the framing needs of them
  in \<open>codec\<close>.
\<close>

section \<open>The operations\<close>

datatype line_error = TooLong nat | Utf8 | Json | Io

datatype fill = Bytes string | Read_Error

record line_reader =
  lr_inner :: "fill list"
  lr_buf :: string
  max_len :: nat

definition with_max :: "fill list \<Rightarrow> nat \<Rightarrow> line_reader" where
  "with_max fills m = \<lparr>lr_inner = fills, lr_buf = [], max_len = m\<rparr>"

definition line_reader_new :: "fill list \<Rightarrow> line_reader" where
  "line_reader_new fills = with_max fills MAX_LINE_BYTES"

definition CR :: char where
  "CR = CHR 0x0D"

definition line_finish :: "string \<Rightarrow> line_error + string" where
  "line_finish bytes =
     (let bytes = (if bytes \<noteq> [] \<and> last bytes = CR then butlast bytes else bytes)
      in case from_utf8 bytes of None \<Rightarrow> Inl Utf8 | Some s \<Rightarrow> Inr s)"

fun position :: "('a \<Rightarrow> bool) \<Rightarrow> 'a list \<Rightarrow> nat option" where
  "position P [] = None"
| "position P (x # xs) = (if P x then Some 0 else map_option Suc (position P xs))"

text \<open>\<open>consume n\<close> of the buffer at hand.\<close>

definition consume :: "nat \<Rightarrow> string \<Rightarrow> fill list \<Rightarrow> fill list" where
  "consume n bs rest = (if n < length bs then Bytes (drop n bs) # rest else rest)"

fun next_line_loop :: "nat \<Rightarrow> string \<Rightarrow> fill list \<Rightarrow> (line_error + string option) \<times> string \<times> fill list" where
  "next_line_loop m b [] =
     (if b = [] then (Inr None, b, []) else (map_sum id Some (line_finish b), [], []))"
| "next_line_loop m b (Read_Error # rest) = (Inl Io, b, rest)"
| "next_line_loop m b (Bytes bs # rest) =
     (if bs = []
      then if b = [] then (Inr None, b, Bytes bs # rest)
           else (map_sum id Some (line_finish b), [], Bytes bs # rest)
      else case position (\<lambda>c. c = NL) bs of
        Some i \<Rightarrow>
          if length b + i > m then (Inl (TooLong m), b, Bytes bs # rest)
          else (map_sum id Some (line_finish (b @ take i bs)), [], consume (i + 1) bs rest)
      | None \<Rightarrow>
          if length b + length bs > m then (Inl (TooLong m), b, Bytes bs # rest)
          else next_line_loop m (b @ bs) rest)"

definition next_line :: "line_reader \<Rightarrow> (line_error + string option) \<times> line_reader" where
  "next_line r =
     (let (x, b, i) = next_line_loop (max_len r) (lr_buf r) (lr_inner r)
      in (x, r\<lparr>lr_buf := b, lr_inner := i\<rparr>))"

definition next_json :: "(string \<Rightarrow> 'a option) \<Rightarrow> line_reader \<Rightarrow> (line_error + 'a option) \<times> line_reader" where
  "next_json from_str r =
     (case next_line r of
        (Inl e, r') \<Rightarrow> (Inl e, r')
      | (Inr None, r') \<Rightarrow> (Inr None, r')
      | (Inr (Some line), r') \<Rightarrow>
          (case from_str line of None \<Rightarrow> Inl Json | Some m \<Rightarrow> Inr (Some m), r'))"

text \<open>The bytes \<open>write_line\<close> hands to the writer; a message that does not serialise is an error.\<close>

definition write_line :: "('a \<Rightarrow> string option) \<Rightarrow> 'a \<Rightarrow> line_error + string" where
  "write_line to_vec m = (case to_vec m of None \<Rightarrow> Inl Io | Some bytes \<Rightarrow> Inr (bytes @ [NL]))"

section \<open>The bytes of a stream\<close>

text \<open>A stream of non-empty buffers without a failed read, and all its bytes.\<close>

fun intact :: "fill list \<Rightarrow> bool" where
  "intact [] = True"
| "intact (Bytes bs # rest) = (bs \<noteq> [] \<and> intact rest)"
| "intact (Read_Error # rest) = False"

fun stream_bytes :: "fill list \<Rightarrow> string" where
  "stream_bytes [] = []"
| "stream_bytes (Bytes bs # rest) = bs @ stream_bytes rest"
| "stream_bytes (Read_Error # rest) = stream_bytes rest"

text \<open>What a call gives on the bytes alone: the line up to the terminator, if it is short enough.\<close>

definition first_line :: "string \<Rightarrow> string" where
  "first_line s = takeWhile (\<lambda>c. c \<noteq> NL) s"

definition after_line :: "string \<Rightarrow> string" where
  "after_line s = tl (dropWhile (\<lambda>c. c \<noteq> NL) s)"

definition line_spec :: "nat \<Rightarrow> string \<Rightarrow> (line_error + string option) \<times> string" where
  "line_spec m s =
     (if s = [] then (Inr None, [])
      else if length (first_line s) > m then (Inl (TooLong m), s)
      else (map_sum id Some (line_finish (first_line s)), after_line s))"

lemma position_None: "position P xs = None \<longleftrightarrow> (\<forall>x \<in> set xs. \<not> P x)"
  by (induction xs) auto

lemma position_Some:
  "position P xs = Some i \<Longrightarrow> i < length xs \<and> take i xs = takeWhile (\<lambda>x. \<not> P x) xs \<and>
     drop i xs = dropWhile (\<lambda>x. \<not> P x) xs \<and> P (xs ! i)"
  by (induction xs arbitrary: i) (auto split: if_splits)

lemma takeWhile_through: "\<forall>x \<in> set b. P x \<Longrightarrow> takeWhile P (b @ s) = b @ takeWhile P s"
  by (induction b) auto

lemma dropWhile_through: "\<forall>x \<in> set b. P x \<Longrightarrow> dropWhile P (b @ s) = dropWhile P s"
  by (induction b) auto

lemma stream_consume: "stream_bytes (consume n bs rest) = drop n bs @ stream_bytes rest"
  by (simp add: consume_def)

lemma intact_consume: "intact rest \<Longrightarrow> intact (consume n bs rest)"
  by (simp add: consume_def)

text \<open>The loop computes \<open>line_spec\<close> of the bytes buffered and to come, however they are cut.\<close>

lemma next_line_loop_spec:
  assumes "intact fills" "NL \<notin> set b" "length b \<le> m" "next_line_loop m b fills = (x, b', fills')"
  shows "(x, b' @ stream_bytes fills') = line_spec m (b @ stream_bytes fills) \<and>
    intact fills' \<and> NL \<notin> set b' \<and> length b' \<le> m"
  using assms
proof (induction m b fills rule: next_line_loop.induct)
  case (1 m b)
  then have "\<forall>c \<in> set b. c \<noteq> NL" by auto
  then have "first_line b = b" "dropWhile (\<lambda>c. c \<noteq> NL) b = []"
    unfolding first_line_def by (induction b) auto
  then have "first_line b = b" "after_line b = []"
    by (simp_all only: after_line_def list.sel)
  with 1 show ?case
    by (auto simp: line_spec_def split: if_splits)
next
  case (3 m b bs rest)
  have through: "\<forall>c \<in> set b. c \<noteq> NL" using "3.prems"(2) by auto
  have bs: "bs \<noteq> []" using "3.prems"(1) by simp
  show ?case
  proof (cases "position (\<lambda>c. c = NL) bs")
    case None
    then have "\<forall>c \<in> set (b @ bs). c \<noteq> NL" using through by (auto simp: position_None)
    then have "first_line (b @ bs @ stream_bytes rest) = b @ bs @ first_line (stream_bytes rest)"
      using takeWhile_through [of "b @ bs" "\<lambda>c. c \<noteq> NL"] by (simp add: first_line_def)
    then show ?thesis
      using 3 None bs by (auto simp: line_spec_def position_None split: if_splits)
  next
    case (Some i)
    note at = position_Some [OF Some]
    have line: "first_line (b @ bs @ stream_bytes rest) = b @ take i bs"
    proof -
      have "first_line (b @ bs @ stream_bytes rest) = b @ first_line (bs @ stream_bytes rest)"
        using takeWhile_through [OF through] by (simp add: first_line_def)
      moreover have "first_line (bs @ stream_bytes rest) = takeWhile (\<lambda>c. c \<noteq> NL) bs"
        using at nth_mem [of i bs] unfolding first_line_def by (intro takeWhile_append1 [of NL]) auto
      ultimately show ?thesis using at by simp
    qed
    have rest: "after_line (b @ bs @ stream_bytes rest) = drop (i + 1) bs @ stream_bytes rest"
    proof -
      have "dropWhile (\<lambda>c. c \<noteq> NL) (b @ bs @ stream_bytes rest) = dropWhile (\<lambda>c. c \<noteq> NL) (bs @ stream_bytes rest)"
        by (rule dropWhile_through [OF through])
      also have "\<dots> = dropWhile (\<lambda>c. c \<noteq> NL) bs @ stream_bytes rest"
        using at nth_mem [of i bs] by (intro dropWhile_append1 [of NL]) auto
      also have "\<dots> = drop i bs @ stream_bytes rest" using at by simp
      also have "\<dots> = bs ! i # drop (i + 1) bs @ stream_bytes rest"
        using at Cons_nth_drop_Suc [of i bs] by (metis Suc_eq_plus1 append_Cons)
      finally show ?thesis
        by (simp only: after_line_def list.sel)
    qed
    show ?thesis
      using 3 Some bs at [THEN conjunct1] by (auto simp: line_spec_def line rest stream_consume intact_consume split: if_splits)
  qed
qed auto

section \<open>Reading a stream\<close>

definition reader_wf :: "line_reader \<Rightarrow> bool" where
  "reader_wf r = (intact (lr_inner r) \<and> NL \<notin> set (lr_buf r) \<and> length (lr_buf r) \<le> max_len r)"

definition reader_bytes :: "line_reader \<Rightarrow> string" where
  "reader_bytes r = lr_buf r @ stream_bytes (lr_inner r)"

lemma next_line_spec:
  assumes "reader_wf r" and "next_line r = (x, r')"
  shows "reader_wf r'" "max_len r' = max_len r" "(x, reader_bytes r') = line_spec (max_len r) (reader_bytes r)"
proof -
  obtain b i where loop: "next_line_loop (max_len r) (lr_buf r) (lr_inner r) = (x, b, i)"
      and r': "r' = r\<lparr>lr_buf := b, lr_inner := i\<rparr>"
    using assms(2) by (auto simp: next_line_def split: prod.splits)
  note spec = next_line_loop_spec [OF _ _ _ loop]
  show "reader_wf r'" "max_len r' = max_len r" "(x, reader_bytes r') = line_spec (max_len r) (reader_bytes r)"
    using spec assms(1) by (simp_all add: reader_wf_def reader_bytes_def r')
qed

fun read_json_n :: "(string \<Rightarrow> 'a option) \<Rightarrow> nat \<Rightarrow> line_reader \<Rightarrow> (line_error + 'a option) list" where
  "read_json_n from_str 0 r = []"
| "read_json_n from_str (Suc n) r =
     (let (x, r') = next_json from_str r in x # read_json_n from_str n r')"

text \<open>
  What the framing needs of the JSON library: every message serialises, to valid UTF-8
  without a newline (compact output escapes control characters) that does not end in a
  carriage return, and parses back.
\<close>

definition codec :: "('a \<Rightarrow> string option) \<Rightarrow> (string \<Rightarrow> 'a option) \<Rightarrow> 'a \<Rightarrow> bool" where
  "codec to_vec from_str m =
     (case to_vec m of
        None \<Rightarrow> False
      | Some bs \<Rightarrow> utf8_valid (map byte bs) \<and> NL \<notin> set bs \<and> CR \<notin> set bs \<and> from_str bs = Some m)"

definition wire :: "('a \<Rightarrow> string option) \<Rightarrow> 'a list \<Rightarrow> string" where
  "wire to_vec ms = concat (map (\<lambda>m. case write_line to_vec m of Inl e \<Rightarrow> [] | Inr bs \<Rightarrow> bs) ms)"

lemma line_finish_codec: "utf8_valid (map byte bs) \<Longrightarrow> CR \<notin> set bs \<Longrightarrow> line_finish bs = Inr bs"
  by (auto simp: line_finish_def Let_def from_utf8_def dest: last_in_set)

lemma line_spec_terminated:
  assumes "NL \<notin> set bs" "length bs \<le> m"
  shows "line_spec m (bs @ NL # s) = (map_sum id Some (line_finish bs), s)"
proof -
  have "\<forall>c \<in> set bs. c \<noteq> NL" using assms(1) by auto
  then show ?thesis
    using assms(2) by (simp add: line_spec_def first_line_def after_line_def takeWhile_through dropWhile_through)
qed

lemma read_json_n_wire:
  assumes "reader_wf r" "reader_bytes r = wire to_vec ms" "\<forall>m \<in> set ms. codec to_vec from_str m"
    and "\<forall>m \<in> set ms. \<forall>bs. to_vec m = Some bs \<longrightarrow> length bs \<le> max_len r"
  shows "read_json_n from_str (length ms + k) r = map (\<lambda>m. Inr (Some m)) ms @ replicate k (Inr None)"
  using assms
proof (induction ms arbitrary: r)
  case Nil
  then show ?case
  proof (induction k arbitrary: r)
    case (Suc k)
    obtain x r' where nl: "next_line r = (x, r')" by force
    from next_line_spec [OF Suc.prems(1) this] Suc.prems(2) have "x = Inr None" "reader_wf r'" "reader_bytes r' = []"
      by (auto simp: line_spec_def wire_def)
    with Suc nl show ?case by (simp add: next_json_def wire_def)
  qed simp
next
  case (Cons m ms)
  obtain bs where bs: "to_vec m = Some bs" "utf8_valid (map byte bs)" "NL \<notin> set bs" "CR \<notin> set bs" "from_str bs = Some m"
    using Cons.prems(3) by (auto simp: codec_def split: option.splits)
  obtain x r' where nl: "next_line r = (x, r')" by force
  have "reader_bytes r = bs @ NL # wire to_vec ms"
    using Cons.prems(2) by (simp add: wire_def write_line_def bs(1))
  moreover have "length bs \<le> max_len r" using Cons.prems(4) bs(1) by simp
  ultimately have "x = Inr (Some bs)" "reader_bytes r' = wire to_vec ms"
    using next_line_spec(3) [OF Cons.prems(1) nl] line_finish_codec [OF bs(2,4)]
    by (simp_all add: line_spec_terminated [OF bs(3)])
  with Cons.IH [of r'] Cons.prems(3,4) next_line_spec(1,2) [OF Cons.prems(1) nl] nl bs(5)
  show ?case by (simp add: next_json_def)
qed

section \<open>Properties\<close>

text \<open>
  C30: messages written one after another are read back in order, and then the end of the
  stream as often as one asks, however the bytes are cut into reads. The hypotheses are
  what the JSON library promises and that each message fits the cap.
\<close>

theorem lines_round_trip:
  assumes "intact fills" and "stream_bytes fills = wire to_vec ms"
    and "\<forall>m \<in> set ms. codec to_vec from_str m"
    and "\<forall>m \<in> set ms. \<forall>bs. to_vec m = Some bs \<longrightarrow> length bs \<le> cap"
  shows "read_json_n from_str (length ms + k) (with_max fills cap) =
    map (\<lambda>m. Inr (Some m)) ms @ replicate k (Inr None)"
  using assms read_json_n_wire [of "with_max fills cap" to_vec ms from_str k]
  by (simp add: reader_wf_def reader_bytes_def with_max_def)

theorem lines_round_trip_witness:
  "read_json_n (\<lambda>s. if s = ''true'' then Some True else if s = ''false'' then Some False else None) 4
     (with_max [Bytes ''tr'', Bytes (''ue'' @ [NL] @ ''fal''), Bytes ''se'', Bytes [NL]] 5) =
   [Inr (Some True), Inr (Some False), Inr None, Inr None]"
  using lines_round_trip [of "[Bytes ''tr'', Bytes (''ue'' @ [NL] @ ''fal''), Bytes ''se'', Bytes [NL]]"
      "\<lambda>b. Some (if b then ''true'' else ''false'')" "[True, False]"
      "\<lambda>s. if s = ''true'' then Some True else if s = ''false'' then Some False else None" 5 2]
  by (simp add: wire_def write_line_def codec_def byte_def NL_def CR_def numeral_eq_Suc)

text \<open>
  A line longer than the cap is refused however it is cut into reads, a line within
  the cap never is, and the reader never holds more than the cap.
\<close>

theorem line_cap:
  assumes "reader_wf r" and "next_line r = (x, r')"
  shows "(x = Inl (TooLong (max_len r)) \<longleftrightarrow> length (first_line (reader_bytes r)) > max_len r) \<and>
    length (lr_buf r') \<le> max_len r' \<and> max_len r' = max_len r \<and> reader_wf r'"
proof -
  note spec = next_line_spec [OF assms]
  have "map_sum id Some (line_finish bs) \<noteq> Inl (TooLong n)" for bs n
    by (auto simp: line_finish_def Let_def split: option.splits)
  then show ?thesis
    using spec by (auto simp: line_spec_def reader_wf_def first_line_def split: if_splits)
qed

theorem line_cap_witness:
  "fst (next_line (with_max [Bytes ''abc'', Bytes ''de''] 4)) = Inl (TooLong 4)"
proof -
  obtain x r' where nl: "next_line (with_max [Bytes ''abc'', Bytes ''de''] 4) = (x, r')" by force
  have "x = Inl (TooLong 4)"
    using line_cap [OF _ nl] by (simp add: reader_wf_def with_max_def reader_bytes_def first_line_def NL_def)
  with nl show ?thesis by simp
qed

end
