(* ===== verification/Text_Chunks.thy ===== *)
theory Text_Chunks
  imports Rust_Str
begin

text \<open>
  Splitting of outbound text (\<open>crates/silta/src/text.rs\<close>). The functions work on the list of
  characters of the text; where the source keeps byte offsets \<open>start..pos\<close> into the text,
  the model keeps the characters between them. A failed \<open>assert!\<close> is \<open>None\<close>.
\<close>

section \<open>The operations\<close>

definition ulen :: "ustr \<Rightarrow> nat" where
  "ulen s = length (concat s)"

definition NLu :: uchar where
  "NLu = [NL]"

definition CRu :: uchar where
  "CRu = [CHR 0x0D]"

definition trim_eol :: "ustr \<Rightarrow> ustr" where
  "trim_eol line = rev (dropWhile (\<lambda>c. c = CRu \<or> c = NLu) (rev line))"

definition fence_line :: "ustr \<Rightarrow> bool" where
  "fence_line s = (starts_with [''`'', ''`'', ''`''] s \<or> starts_with [''~'', ''~'', ''~''] s)"

definition blank_line :: "ustr \<Rightarrow> bool" where
  "blank_line s = (trim_u s = [])"

text \<open>The loop of \<open>paragraphs\<close>: the paragraphs found, the text since \<open>start\<close>, \<open>in_fence\<close>, \<open>last_blank\<close>.\<close>

fun paragraphs_loop :: "ustr list \<Rightarrow> ustr list \<Rightarrow> ustr \<Rightarrow> bool \<Rightarrow> bool \<Rightarrow> ustr list \<times> ustr" where
  "paragraphs_loop [] out region in_fence last_blank = (out, region)"
| "paragraphs_loop (line # lines) out region in_fence last_blank =
     (let trimmed = trim_eol line;
          in_fence = (if fence_line trimmed then \<not> in_fence else in_fence);
          blank = blank_line trimmed
      in if blank \<and> \<not> in_fence
         then paragraphs_loop lines
                (if \<not> last_blank \<and> region \<noteq> [] then out @ [trim_end_u region] else out) [] in_fence True
         else paragraphs_loop lines out (region @ line) in_fence False)"

definition paragraphs :: "ustr \<Rightarrow> ustr list" where
  "paragraphs text =
     (let (out, region) = paragraphs_loop (split_inclusive NLu text) [] [] False False
      in if region \<noteq> [] \<and> trim_end_u region \<noteq> [] then out @ [trim_end_u region] else out)"

fun split_chars_loop :: "nat \<Rightarrow> ustr \<Rightarrow> ustr \<Rightarrow> ustr list" where
  "split_chars_loop max_bytes cur [] = (if cur \<noteq> [] then [cur] else [])"
| "split_chars_loop max_bytes cur (c # cs) =
     (if ulen cur + length c > max_bytes then cur # split_chars_loop max_bytes [c] cs
      else split_chars_loop max_bytes (cur @ [c]) cs)"

definition split_chars :: "ustr \<Rightarrow> nat \<Rightarrow> ustr list" where
  "split_chars line max_bytes = split_chars_loop max_bytes [] line"

definition split_lines :: "ustr \<Rightarrow> nat \<Rightarrow> ustr list" where
  "split_lines paragraph max_bytes =
     concat (map (\<lambda>line. if ulen line \<le> max_bytes then [line] else split_chars line max_bytes)
               (split_on NLu paragraph))"

definition flush :: "ustr list \<times> ustr \<Rightarrow> ustr list \<times> ustr" where
  "flush = (\<lambda>(chunks, current). if current \<noteq> [] then (chunks @ [current], []) else (chunks, current))"

definition append_piece :: "ustr \<Rightarrow> nat \<Rightarrow> ustr \<Rightarrow> ustr list \<times> ustr \<Rightarrow> ustr list \<times> ustr" where
  "append_piece sep max_bytes piece = (\<lambda>(chunks, current).
     if current = [] then (chunks, piece)
     else if ulen current + ulen sep + ulen piece \<le> max_bytes then (chunks, current @ sep @ piece)
     else (fst (flush (chunks, current)), piece))"

definition chunk_paragraph :: "nat \<Rightarrow> ustr \<Rightarrow> ustr list \<times> ustr \<Rightarrow> ustr list \<times> ustr" where
  "chunk_paragraph max_bytes paragraph st =
     (if ulen paragraph > max_bytes
      then fold (append_piece [NLu] max_bytes) (split_lines paragraph max_bytes) (flush st)
      else append_piece [NLu, NLu] max_bytes paragraph st)"

definition chunk_text_u :: "ustr \<Rightarrow> nat \<Rightarrow> ustr list" where
  "chunk_text_u text max_bytes =
     (let text = trim_end_u text
      in if text = [] then []
         else if ulen text \<le> max_bytes then [text]
         else fst (flush (fold (chunk_paragraph max_bytes) (paragraphs text) ([], []))))"

definition chunk_text :: "string \<Rightarrow> nat \<Rightarrow> string list option" where
  "chunk_text text max_bytes =
     (if 4 \<le> max_bytes then Some (map concat (chunk_text_u (chars text) max_bytes)) else None)"

section \<open>Size\<close>

lemma ulen_simps [simp]: "ulen [] = 0" "ulen (c # s) = length c + ulen s" "ulen (s @ t) = ulen s + ulen t"
  by (simp_all add: ulen_def)

definition small_chars :: "nat \<Rightarrow> ustr \<Rightarrow> bool" where
  "small_chars n s = (\<forall>c \<in> set s. c \<noteq> [] \<and> length c \<le> n)"

lemma small_chars_simps [simp]:
  "small_chars n []" "small_chars n (s @ t) = (small_chars n s \<and> small_chars n t)"
  "small_chars n (c # s) = (c \<noteq> [] \<and> length c \<le> n \<and> small_chars n s)"
  by (auto simp: small_chars_def)

definition fits :: "nat \<Rightarrow> ustr \<Rightarrow> bool" where
  "fits m p = (ulen p \<le> m \<and> small_chars m p)"

lemma split_chars_loop_fits:
  "small_chars m cs \<Longrightarrow> fits m cur \<Longrightarrow> p \<in> set (split_chars_loop m cur cs) \<Longrightarrow> fits m p"
  by (induction m cur cs rule: split_chars_loop.induct) (auto simp: fits_def split: if_splits)

lemma split_on_set: "p \<in> set (split_on c xs) \<Longrightarrow> set p \<subseteq> set xs"
  by (induction xs arbitrary: p) (fastforce split: list.splits if_splits)+

lemma split_lines_fits:
  assumes "small_chars m s" "p \<in> set (split_lines s m)"
  shows "fits m p"
proof -
  obtain l where l: "l \<in> set (split_on NLu s)" "p \<in> set (if ulen l \<le> m then [l] else split_chars l m)"
    using assms(2) by (auto simp: split_lines_def)
  moreover have "small_chars m l"
    using assms(1) split_on_set [OF l(1)] by (auto simp: small_chars_def)
  ultimately show ?thesis
    using split_chars_loop_fits [of m l "[]" p] by (auto simp: split_chars_def fits_def split: if_splits)
qed

definition chunks_fit :: "nat \<Rightarrow> ustr list \<times> ustr \<Rightarrow> bool" where
  "chunks_fit m = (\<lambda>(chunks, current). (\<forall>c \<in> set chunks. c \<noteq> [] \<and> fits m c) \<and> fits m current)"

lemma flush_fit: "chunks_fit m st \<Longrightarrow> chunks_fit m (flush st)"
  by (auto simp: chunks_fit_def flush_def fits_def split: prod.splits)

lemma append_piece_fit:
  "chunks_fit m st \<Longrightarrow> fits m p \<Longrightarrow> small_chars m sep \<Longrightarrow> chunks_fit m (append_piece sep m p st)"
  by (auto simp: chunks_fit_def append_piece_def flush_def fits_def split: prod.splits if_splits)

lemma fold_append_fit:
  "chunks_fit m st \<Longrightarrow> \<forall>p \<in> set ps. fits m p \<Longrightarrow> small_chars m sep \<Longrightarrow>
     chunks_fit m (fold (append_piece sep m) ps st)"
  by (induction ps arbitrary: st) (simp_all add: append_piece_fit)

lemma chunk_paragraph_fit:
  "0 < m \<Longrightarrow> chunks_fit m st \<Longrightarrow> small_chars m p \<Longrightarrow> chunks_fit m (chunk_paragraph m p st)"
  using split_lines_fits [of m p]
  by (auto simp: chunk_paragraph_def NLu_def intro!: fold_append_fit flush_fit append_piece_fit)
    (simp add: fits_def)

lemma fold_chunk_fit:
  "0 < m \<Longrightarrow> chunks_fit m st \<Longrightarrow> \<forall>p \<in> set ps. small_chars m p \<Longrightarrow>
     chunks_fit m (fold (chunk_paragraph m) ps st)"
  by (induction ps arbitrary: st) (simp_all add: chunk_paragraph_fit)

lemma trim_end_u_set: "set (trim_end_u s) \<subseteq> set s"
  by (auto simp: trim_end_u_def dest: set_dropWhileD)

lemma paragraphs_loop_set:
  assumes "\<forall>l \<in> set ls. set l \<subseteq> A" "\<forall>p \<in> set out. set p \<subseteq> A" "set r \<subseteq> A"
    and "paragraphs_loop ls out r f b = (out', r')"
  shows "(\<forall>p \<in> set out'. set p \<subseteq> A) \<and> set r' \<subseteq> A"
  using assms
proof (induction ls arbitrary: out r f b)
  case (Cons line lines)
  have "set (trim_end_u r) \<subseteq> A" using Cons.prems(3) trim_end_u_set by blast
  then have out: "\<forall>p \<in> set (if \<not> b \<and> r \<noteq> [] then out @ [trim_end_u r] else out). set p \<subseteq> A"
    using Cons.prems(2) by auto
  have lines: "\<forall>l \<in> set lines. set l \<subseteq> A" and grown: "set (r @ line) \<subseteq> A"
    using Cons.prems(1,3) by auto
  define f' where "f' = (if fence_line (trim_eol line) then \<not> f else f)"
  show ?case
  proof (cases "blank_line (trim_eol line) \<and> \<not> f'")
    case True
    then have "paragraphs_loop lines (if \<not> b \<and> r \<noteq> [] then out @ [trim_end_u r] else out) [] f' True = (out', r')"
      using Cons.prems(4) by (simp only: paragraphs_loop.simps Let_def f'_def [symmetric] if_True simp_thms)
    from Cons.IH [OF lines out _ this] show ?thesis by simp
  next
    case False
    then have "paragraphs_loop lines out (r @ line) f' False = (out', r')"
      using Cons.prems(4) by (simp only: paragraphs_loop.simps Let_def f'_def [symmetric] if_False simp_thms)
    from Cons.IH [OF lines Cons.prems(2) grown this] show ?thesis .
  qed
qed auto

lemma paragraphs_set: "p \<in> set (paragraphs t) \<Longrightarrow> set p \<subseteq> set t"
proof -
  assume p: "p \<in> set (paragraphs t)"
  obtain out r where loop: "paragraphs_loop (split_inclusive NLu t) [] [] False False = (out, r)" by force
  have "\<forall>l \<in> set (split_inclusive NLu t). set l \<subseteq> set t"
    using set_concat [of "split_inclusive NLu t"] by auto
  from paragraphs_loop_set [OF this _ _ loop] p loop trim_end_u_set [of r] show ?thesis
    by (auto simp: paragraphs_def split: if_splits)
qed

lemma chunk_text_u_fit:
  assumes "0 < m" "small_chars m t" "c \<in> set (chunk_text_u t m)"
  shows "concat c \<noteq> [] \<and> length (concat c) \<le> m"
proof -
  have sub: "small_chars m s" if "set s \<subseteq> set t" for s
    using assms(2) that by (auto simp: small_chars_def)
  have "small_chars m p" if "p \<in> set (paragraphs (trim_end_u t))" for p
    using paragraphs_set [OF that] trim_end_u_set [of t] by (intro sub) blast
  then have "chunks_fit m (flush (fold (chunk_paragraph m) (paragraphs (trim_end_u t)) ([], [])))"
    using assms(1) by (intro flush_fit fold_chunk_fit) (auto simp: chunks_fit_def fits_def)
  then have "c \<noteq> [] \<and> fits m c"
    using assms(3) sub [OF trim_end_u_set]
    by (auto simp: chunk_text_u_def Let_def chunks_fit_def fits_def split: if_splits prod.splits)
  then show ?thesis
    by (cases c) (auto simp: fits_def ulen_def)
qed

section \<open>Content\<close>

text \<open>The visible characters of a text.\<close>

definition ink :: "ustr \<Rightarrow> ustr" where
  "ink s = filter (\<lambda>c. \<not> is_whitespace c) s"

lemma ink_simps [simp]: "ink [] = []" "ink (s @ t) = ink s @ ink t"
  by (simp_all add: ink_def)

lemma NLu_whitespace: "is_whitespace NLu" "is_whitespace CRu"
  by code_simp+

lemma ink_NLu [simp]: "ink (NLu # s) = ink s"
  by (simp add: ink_def NLu_whitespace)

lemma ink_Nil_iff: "ink s = [] \<longleftrightarrow> (\<forall>c \<in> set s. is_whitespace c)"
  by (auto simp: ink_def filter_empty_conv)

lemma ink_trim_end [simp]: "ink (trim_end_u s) = ink s"
proof -
  obtain ws where "s = trim_end_u s @ ws" "\<forall>u \<in> set ws. is_whitespace u"
    using trim_end_u_prefix by blast
  then show ?thesis by (metis append_Nil2 ink_Nil_iff ink_simps(2))
qed

lemma ink_trim_eol: "ink (trim_eol s) = ink s"
proof -
  let ?P = "\<lambda>c. c = CRu \<or> c = NLu"
  have "s = rev (takeWhile ?P (rev s) @ dropWhile ?P (rev s))" by simp
  then have "s = trim_eol s @ rev (takeWhile ?P (rev s))"
    unfolding trim_eol_def rev_append by simp
  moreover have "ink (rev (takeWhile ?P (rev s))) = []"
    using NLu_whitespace by (auto simp: ink_Nil_iff dest!: set_takeWhileD)
  ultimately show ?thesis by (metis append_Nil2 ink_simps(2))
qed

lemma ink_blank: "blank_line (trim_eol s) \<Longrightarrow> ink s = []"
  using ink_trim_eol [of s] by (simp add: blank_line_def trim_u_Nil ink_Nil_iff [symmetric])

lemma paragraphs_loop_ink:
  "paragraphs_loop ls out r f b = (out', r') \<Longrightarrow> (b \<longrightarrow> r = []) \<Longrightarrow>
     concat (map ink out') @ ink r' = concat (map ink out) @ ink r @ ink (concat ls)"
proof (induction ls out r f b rule: paragraphs_loop.induct)
  case (2 line lines out region in_fence last_blank)
  then show ?case
    using ink_blank [of line] by (auto simp: Let_def split: if_splits)
qed auto

lemma paragraphs_ink: "concat (map ink (paragraphs t)) = ink t"
proof -
  obtain out r where loop: "paragraphs_loop (split_inclusive NLu t) [] [] False False = (out, r)" by force
  have "ink r = []" if "trim_end_u r = []"
    using that by (metis ink_simps(1) ink_trim_end)
  with paragraphs_loop_ink [OF loop] loop show ?thesis
    by (auto simp: paragraphs_def)
qed

lemma split_chars_loop_concat: "concat (split_chars_loop m cur cs) = cur @ cs"
  by (induction m cur cs rule: split_chars_loop.induct) auto

lemma concat_ink: "concat (map ink ps) = ink (concat ps)"
  by (induction ps) auto

lemma ink_concat_map: "(\<And>l. ink (concat (f l)) = ink l) \<Longrightarrow> ink (concat (concat (map f ls))) = ink (concat ls)"
  by (induction ls) auto

lemma join_ink: "ink (join [NLu] ps) = concat (map ink ps)"
  by (induction "[NLu]" ps rule: join.induct) auto

lemma split_lines_ink: "concat (map ink (split_lines s m)) = ink s"
proof -
  have "ink (concat (if ulen l \<le> m then [l] else split_chars l m)) = ink l" for l
    by (simp add: split_chars_def split_chars_loop_concat)
  then have "concat (map ink (split_lines s m)) = concat (map ink (split_on NLu s))"
    unfolding split_lines_def concat_ink by (simp add: ink_concat_map)
  then show ?thesis
    using join_ink [of "split_on NLu s"] by (simp add: join_split_on)
qed

definition ink_of :: "ustr list \<times> ustr \<Rightarrow> ustr" where
  "ink_of = (\<lambda>(chunks, current). concat (map ink chunks) @ ink current)"

lemma ink_of_flush [simp]: "ink_of (flush st) = ink_of st"
  by (auto simp: ink_of_def flush_def split: prod.splits)

lemma ink_of_append [simp]: "ink sep = [] \<Longrightarrow> ink_of (append_piece sep m p st) = ink_of st @ ink p"
  by (auto simp: ink_of_def append_piece_def flush_def split: prod.splits if_splits)

lemma ink_of_fold_append:
  "ink sep = [] \<Longrightarrow> ink_of (fold (append_piece sep m) ps st) = ink_of st @ concat (map ink ps)"
  by (induction ps arbitrary: st) auto

lemma ink_of_chunk_paragraph: "ink_of (chunk_paragraph m p st) = ink_of st @ ink p"
  by (simp add: chunk_paragraph_def ink_of_fold_append split_lines_ink)

lemma ink_of_fold_chunk: "ink_of (fold (chunk_paragraph m) ps st) = ink_of st @ concat (map ink ps)"
  by (induction ps arbitrary: st) (auto simp: ink_of_chunk_paragraph)

lemma flush_current: "snd (flush st) = []"
  by (auto simp: flush_def split: prod.splits)

lemma chunk_text_u_ink: "concat (map ink (chunk_text_u t m)) = ink t"
proof -
  let ?st = "flush (fold (chunk_paragraph m) (paragraphs (trim_end_u t)) ([], []))"
  have "ink_of ?st = ink t"
    unfolding ink_of_flush ink_of_fold_chunk paragraphs_ink by (simp add: ink_of_def)
  then have "concat (map ink (fst ?st)) = ink t"
    using flush_current [of "fold (chunk_paragraph m) (paragraphs (trim_end_u t)) ([], [])"]
    by (simp add: ink_of_def split_beta)
  moreover have "ink t = []" if "trim_end_u t = []"
    using that by (metis ink_simps(1) ink_trim_end)
  ultimately show ?thesis
    by (auto simp: chunk_text_u_def Let_def)
qed

section \<open>Characters of valid text\<close>

lemma utf8_start:
  assumes "utf8_valid (map byte s)"
  shows "takeWhile is_cont s = []" "dropWhile is_cont s = s"
proof -
  have "\<not> is_cont (hd s)" if "s \<noteq> []"
    using assms that by (cases s) (auto simp: is_cont_def split: list.splits if_splits)
  then show "takeWhile is_cont s = []" "dropWhile is_cont s = s"
    by (cases s; simp)+
qed

lemma utf8_two_bytes:
  assumes "utf8_valid (a # b # bs)" "\<not> a < 0x80" "a \<le> 0xDF"
  shows "0x80 \<le> b \<and> b < 0xC0 \<and> utf8_valid bs"
proof (cases "0xC2 \<le> a")
  case False
  with assms show ?thesis
    by (cases bs; cases "tl bs") simp_all
qed (use assms in simp)

lemma utf8_step:
  assumes "utf8_valid (map byte (c # cs))"
  shows "length (takeWhile is_cont cs) \<le> 3 \<and> utf8_valid (map byte (dropWhile is_cont cs))"
proof (cases "byte c < 0x80")
  case True
  with assms utf8_start [of cs] show ?thesis by simp
next
  case multi: False
  with assms obtain b r where cs: "cs = b # r" by (cases cs) auto
  show ?thesis
  proof (cases "byte c \<le> 0xDF")
    case True
    with assms multi cs have "is_cont b \<and> utf8_valid (map byte r)"
      using utf8_two_bytes [of "byte c" "byte b" "map byte r"] by (simp only: list.map is_cont_def simp_thms)
    with utf8_start [of r] cs show ?thesis by simp
  next
    case big: False
    with assms multi cs obtain d r' where r: "r = d # r'" by (cases r) auto
    show ?thesis
    proof (cases "byte c \<le> 0xEF")
      case True
      with assms multi big cs r have "is_cont b \<and> is_cont d \<and> utf8_valid (map byte r')"
        by (auto simp: is_cont_def split: if_splits)
      with utf8_start [of r'] cs r show ?thesis by simp
    next
      case False
      with assms multi big cs r obtain e r'' where r': "r' = e # r''" by (cases r') auto
      with assms multi big False cs r have "is_cont b \<and> is_cont d \<and> is_cont e \<and> utf8_valid (map byte r'')"
        by (auto simp: is_cont_def split: if_splits)
      with utf8_start [of r''] cs r r' show ?thesis by simp
    qed
  qed
qed

lemma utf8_small_chars: "utf8_valid (map byte s) \<Longrightarrow> small_chars 4 (chars s)"
proof (induction s rule: chars.induct)
  case (2 c cs)
  then show ?case
    using utf8_step [of c cs] by (auto simp: small_chars_def)
qed (simp add: small_chars_def)

section \<open>Properties\<close>

text \<open>
  C37: for a text (any valid UTF-8) and a cap of at least four bytes, every chunk is
  non-empty and within the cap, and the visible characters of the chunks, one after
  another, are those of the text: only white space is dropped or added.
\<close>

theorem chunk_text_keeps_content:
  assumes "utf8_valid (map byte text)" and "4 \<le> max_bytes"
  shows "\<exists>chunks. chunk_text text max_bytes = Some (map concat chunks) \<and>
    (\<forall>c \<in> set chunks. concat c \<noteq> [] \<and> length (concat c) \<le> max_bytes) \<and>
    concat (map ink chunks) = ink (chars text) \<and>
    (chunks \<noteq> [] \<longleftrightarrow> ink (chars text) \<noteq> [])"
proof (intro exI conjI)
  let ?cs = "chunk_text_u (chars text) max_bytes"
  show "chunk_text text max_bytes = Some (map concat ?cs)"
    using assms(2) by (simp add: chunk_text_def)
  have small: "small_chars max_bytes (chars text)"
    using utf8_small_chars [OF assms(1)] assms(2) by (fastforce simp: small_chars_def)
  show ink: "concat (map ink ?cs) = ink (chars text)"
    by (rule chunk_text_u_ink)
  show "\<forall>c \<in> set ?cs. concat c \<noteq> [] \<and> length (concat c) \<le> max_bytes"
    using chunk_text_u_fit [OF _ small] assms(2) by simp
  show "?cs \<noteq> [] \<longleftrightarrow> ink (chars text) \<noteq> []"
  proof
    assume "?cs \<noteq> []"
    then have "trim_end_u (chars text) \<noteq> []" by (auto simp: chunk_text_u_def Let_def)
    then show "ink (chars text) \<noteq> []" by (simp add: trim_end_u_Nil ink_Nil_iff)
  qed (use ink in auto)
qed

theorem chunk_text_keeps_content_witness:
  "\<exists>chunks. chunk_text ''hello world'' 6 = Some (map concat chunks) \<and>
    (\<forall>c \<in> set chunks. concat c \<noteq> [] \<and> length (concat c) \<le> 6) \<and>
    concat (map ink chunks) = ink (chars ''hello world'') \<and> chunks \<noteq> []"
proof -
  have "utf8_valid (map byte ''hello world'')" "ink (chars ''hello world'') \<noteq> []" by code_simp+
  with chunk_text_keeps_content [of "''hello world''" 6] show ?thesis by simp
qed

text \<open>
  A fenced block that fits the cap can still be split: directly after a line of text it
  belongs to one paragraph, and a paragraph above the cap is cut at its lines.
\<close>

theorem short_fence_split:
  "let fence = ''```'' @ [NL] @ ''x'' @ [NL] @ ''```''
   in length fence \<le> 20 \<and>
      chunk_text (''aaaaaaaaaaaaaaaa'' @ [NL] @ fence) 20 =
        Some [''aaaaaaaaaaaaaaaa'' @ [NL] @ ''```'', ''x'' @ [NL] @ ''```'']"
  by code_simp

end
