(* ===== verification/File_Transfer.thy ===== *)
theory File_Transfer
  imports Protocol Text_Chunks "HOL-Library.AList"
begin

text \<open>
  Files over the socket (\<open>crates/silta/src/transfer.rs\<close>): sending a file in chunks, the
  receiving side of a connection, the safe file names and the retention sweep. The file
  system is a map of paths to inodes and the bytes of each inode, so that two handles on
  one path share their bytes and a handle outlives the removal of its path. The map of
  open transfers is an association list. Parameters: the base64 codec, the extensions of
  a MIME type (\<open>mime_guess\<close>) and the outcome of each file operation. \<open>human_size\<close> is
  floating point and is not modelled.
\<close>

section \<open>Sending\<close>

definition CHUNK_BYTES :: nat where
  "CHUNK_BYTES = 1024 * 1024"

definition NAME_MAX :: nat where
  "NAME_MAX = 100"

datatype piece = P_Header file_header | P_Chunk file_chunk | P_End file_end

text \<open>A file being read is the list of what its \<open>read\<close> calls have at hand; an empty read is its end.\<close>

fun read_chunk :: "nat \<Rightarrow> string list \<Rightarrow> string \<times> string list" where
  "read_chunk space [] = ([], [])"
| "read_chunk space (p # ps) =
     (if space = 0 \<or> p = [] then ([], p # ps)
      else if length p \<le> space
      then let (bs, rest) = read_chunk (space - length p) ps in (p @ bs, rest)
      else (take space p, drop space p # ps))"

lemma read_chunk_concat: "read_chunk space src = (bs, rest) \<Longrightarrow> concat src = bs @ concat rest"
proof (induction space src arbitrary: bs rest rule: read_chunk.induct)
  case (2 space p ps)
  then show ?case by (auto split: if_splits prod.splits)
qed simp

lemma read_chunk_length: "read_chunk space src = (bs, rest) \<Longrightarrow> length bs \<le> space"
proof (induction space src arbitrary: bs rest rule: read_chunk.induct)
  case (2 space p ps)
  then show ?case by (fastforce split: if_splits prod.splits)
qed simp

function send_chunks :: "(string \<Rightarrow> string) \<Rightarrow> string \<Rightarrow> string list \<Rightarrow> piece list" where
  "send_chunks encode transfer src =
     (let (bs, rest) = read_chunk CHUNK_BYTES src
      in if bs = [] then []
         else P_Chunk \<lparr>fc_transfer = transfer, fc_data = encode bs\<rparr> # send_chunks encode transfer rest)"
  by pat_completeness auto
termination
  by (relation "measure (\<lambda>(_, _, src). length (concat src))")
    (auto dest: arg_cong [where f = length, OF read_chunk_concat [OF sym]])

declare send_chunks.simps [simp del]

definition send :: "(string \<Rightarrow> string) \<Rightarrow> file_header \<Rightarrow> string list \<Rightarrow> piece list" where
  "send encode header src =
     P_Header header # send_chunks encode (fh_transfer header) src @
       [P_End \<lparr>fe_transfer = fh_transfer header\<rparr>]"

section \<open>Names\<close>

definition safe_id :: "string \<Rightarrow> string" where
  "safe_id ident =
     concat (map (\<lambda>c. if is_ascii_alphanumeric c \<or> c = ''-'' \<or> c = ''_'' then c else ''_'')
               (chars (dropWhile (\<lambda>c. c = CHR ''$'') ident)))"

function pop_long :: "nat \<Rightarrow> ustr \<Rightarrow> ustr" where
  "pop_long n out = (if ulen out > n then pop_long n (butlast out) else out)"
  by pat_completeness auto
termination
  by (relation "measure (\<lambda>(_, out). length out)") (auto intro: diff_less)

declare pop_long.simps [simp del]

definition safe_name :: "(string \<Rightarrow> string list option) \<Rightarrow> string \<Rightarrow> string \<Rightarrow> string" where
  "safe_name exts name mime =
     (let base = rev (takeWhile (\<lambda>c. c \<noteq> ''/'' \<and> c \<noteq> [CHR 0x5C]) (rev (chars name)));
          out = map (\<lambda>c. if is_control c \<or> c = ''/'' \<or> c = [CHR 0x5C] \<or> c = '':'' then ''_'' else c) base;
          out = dropWhile (\<lambda>c. c = ''.'') (trim_u out);
          out = pop_long NAME_MAX out
      in if out = []
         then ''file'' @ (case exts mime of Some (e # _) \<Rightarrow> ''.'' @ e | _ \<Rightarrow> [])
         else concat out)"

section \<open>The file system\<close>

record fs =
  fs_inodes :: "nat \<Rightarrow> string"
  fs_paths :: "string \<rightharpoonup> nat"
  fs_next :: nat

text \<open>Opening with \<open>create\<close> and \<open>truncate\<close>, writing at an offset, removing a path.\<close>

definition fs_open :: "string \<Rightarrow> fs \<Rightarrow> nat \<times> fs" where
  "fs_open path s =
     (case fs_paths s path of
        Some i \<Rightarrow> (i, s\<lparr>fs_inodes := (fs_inodes s)(i := [])\<rparr>)
      | None \<Rightarrow> (fs_next s, s\<lparr>fs_inodes := (fs_inodes s)(fs_next s := []),
                   fs_paths := (fs_paths s)(path \<mapsto> fs_next s), fs_next := fs_next s + 1\<rparr>))"

definition overwrite :: "nat \<Rightarrow> string \<Rightarrow> string \<Rightarrow> string" where
  "overwrite off bs old =
     take off old @ replicate (off - length old) (CHR 0x00) @ bs @ drop (off + length bs) old"

definition fs_write :: "nat \<Rightarrow> nat \<Rightarrow> string \<Rightarrow> fs \<Rightarrow> fs" where
  "fs_write i off bs s = s\<lparr>fs_inodes := (fs_inodes s)(i := overwrite off bs (fs_inodes s i))\<rparr>"

definition fs_remove :: "string \<Rightarrow> fs \<Rightarrow> fs" where
  "fs_remove path s = s\<lparr>fs_paths := (fs_paths s)(path := None)\<rparr>"

definition file_at :: "fs \<Rightarrow> string \<Rightarrow> string option" where
  "file_at s path = map_option (fs_inodes s) (fs_paths s path)"

section \<open>Receiving\<close>

datatype transfer_error =
    TE_Unknown string
  | TE_Duplicate string
  | TE_TooLarge u64 u64
  | TE_SizeMismatch string u64 u64
  | TE_Base64 string
  | TE_Io

record received_file =
  rd_header :: file_header
  rd_path :: string

text \<open>The position of the handle is the number of bytes written, \<open>op_received\<close>.\<close>

record open_file =
  op_header :: file_header
  op_inode :: nat
  op_path :: string
  op_received :: u64

record receiver =
  rv_dir :: string
  rv_prefix :: string
  rv_max_bytes :: u64
  rv_open :: "(string \<times> open_file) list"

definition receiver_new :: "string \<Rightarrow> string \<Rightarrow> u64 \<Rightarrow> receiver" where
  "receiver_new dir prefix max_bytes =
     \<lparr>rv_dir = dir, rv_prefix = prefix, rv_max_bytes = max_bytes, rv_open = []\<rparr>"

definition path_join :: "string \<Rightarrow> string \<Rightarrow> string" where
  "path_join d p =
     (if starts_with ''/'' p then p else if d = [] \<or> ends_with ''/'' d then d @ p else d @ ''/'' @ p)"

definition path_for :: "(string \<Rightarrow> string list option) \<Rightarrow> receiver \<Rightarrow> file_header \<Rightarrow> string" where
  "path_for exts r h =
     path_join (rv_dir r)
       (rv_prefix r @ safe_id (fh_transfer h) @ ''-'' @ safe_name exts (fh_name h) (fh_mime h))"

type_synonym rx = "receiver \<times> fs"

definition receiver_begin ::
  "(string \<Rightarrow> string list option) \<Rightarrow> bool \<Rightarrow> file_header \<Rightarrow> rx \<Rightarrow> (transfer_error + unit) \<times> rx"
where
  "receiver_begin exts io_ok h = (\<lambda>(r, s).
     if map_of (rv_open r) (fh_transfer h) \<noteq> None then (Inl (TE_Duplicate (fh_transfer h)), r, s)
     else if fh_size h > rv_max_bytes r then (Inl (TE_TooLarge (fh_size h) (rv_max_bytes r)), r, s)
     else if \<not> io_ok then (Inl TE_Io, r, s)
     else let path = path_for exts r h; (i, s') = fs_open path s;
              o' = \<lparr>op_header = h, op_inode = i, op_path = path, op_received = 0\<rparr>
          in (Inr (), r\<lparr>rv_open := AList.update (fh_transfer h) o' (rv_open r)\<rparr>, s'))"

definition receiver_discard :: "string \<Rightarrow> rx \<Rightarrow> rx" where
  "receiver_discard transfer = (\<lambda>(r, s).
     case map_of (rv_open r) transfer of
       None \<Rightarrow> (r, s)
     | Some f \<Rightarrow> (r\<lparr>rv_open := AList.delete transfer (rv_open r)\<rparr>, fs_remove (op_path f) s))"

text \<open>A write that fails may have written a part.\<close>

datatype write_outcome = Written | Failed_After nat

definition receiver_chunk ::
  "(string \<Rightarrow> string option) \<Rightarrow> write_outcome \<Rightarrow> file_chunk \<Rightarrow> rx \<Rightarrow> (transfer_error + unit) \<times> rx"
where
  "receiver_chunk decode w c = (\<lambda>(r, s).
     let transfer = fc_transfer c
     in case map_of (rv_open r) transfer of
          None \<Rightarrow> (Inl (TE_Unknown transfer), r, s)
        | Some f \<Rightarrow>
            (case decode (fc_data c) of
               None \<Rightarrow> (Inl (TE_Base64 transfer), receiver_discard transfer (r, s))
             | Some bytes \<Rightarrow>
                 let received = op_received f + of_nat (length bytes); declared = fh_size (op_header f)
                 in if received > declared
                    then (Inl (TE_SizeMismatch transfer received declared), receiver_discard transfer (r, s))
                    else case w of
                      Failed_After n \<Rightarrow>
                        (Inl TE_Io, receiver_discard transfer
                           (r, fs_write (op_inode f) (unat (op_received f)) (take n bytes) s))
                    | Written \<Rightarrow>
                        (Inr (),
                         r\<lparr>rv_open := AList.update transfer (f\<lparr>op_received := received\<rparr>) (rv_open r)\<rparr>,
                         fs_write (op_inode f) (unat (op_received f)) bytes s)))"

definition receiver_end :: "bool \<Rightarrow> file_end \<Rightarrow> rx \<Rightarrow> (transfer_error + received_file) \<times> rx" where
  "receiver_end flush_ok e = (\<lambda>(r, s).
     case map_of (rv_open r) (fe_transfer e) of
       None \<Rightarrow> (Inl (TE_Unknown (fe_transfer e)), r, s)
     | Some f \<Rightarrow>
         let r' = r\<lparr>rv_open := AList.delete (fe_transfer e) (rv_open r)\<rparr>
         in if \<not> flush_ok then (Inl TE_Io, r', fs_remove (op_path f) s)
            else if op_received f \<noteq> fh_size (op_header f)
            then (Inl (TE_SizeMismatch (fe_transfer e) (op_received f) (fh_size (op_header f))), r',
                  fs_remove (op_path f) s)
            else (Inr \<lparr>rd_header = op_header f, rd_path = op_path f\<rparr>, r', s))"

definition abort_all :: "rx \<Rightarrow> rx" where
  "abort_all = (\<lambda>(r, s). fold receiver_discard (map fst (rv_open r)) (r, s))"

section \<open>The sweep\<close>

text \<open>Times are counted from the epoch; an entry whose metadata cannot be read ends the sweep.\<close>

record dir_file =
  df_name :: string
  df_is_file :: bool
  df_modified :: nat
  df_removable :: bool

fun sweep_entries :: "nat \<Rightarrow> dir_file option list \<Rightarrow> nat \<Rightarrow> string list \<Rightarrow> (unit + nat) \<times> string list" where
  "sweep_entries cutoff [] removed gone = (Inr removed, gone)"
| "sweep_entries cutoff (None # es) removed gone = (Inl (), gone)"
| "sweep_entries cutoff (Some e # es) removed gone =
     (if df_is_file e \<and> df_modified e < cutoff \<and> df_removable e
      then sweep_entries cutoff es (removed + 1) (gone @ [df_name e])
      else sweep_entries cutoff es removed gone)"

datatype dir_listing = DL_Entries "dir_file option list" | DL_NotFound | DL_Error

definition sweep :: "nat \<Rightarrow> nat \<Rightarrow> dir_listing \<Rightarrow> (unit + nat) \<times> string list" where
  "sweep now max_age d =
     (case d of
        DL_NotFound \<Rightarrow> (Inr 0, [])
      | DL_Error \<Rightarrow> (Inl (), [])
      | DL_Entries es \<Rightarrow> sweep_entries (now - max_age) es 0 [])"

definition swept :: "nat \<Rightarrow> dir_file \<Rightarrow> bool" where
  "swept cutoff e = (df_is_file e \<and> df_modified e < cutoff \<and> df_removable e)"

lemma sweep_entries_eq:
  "sweep_entries cutoff (map Some es) n gone =
     (Inr (n + length (filter (swept cutoff) es)), gone @ map df_name (filter (swept cutoff) es))"
  by (induction es arbitrary: n gone) (auto simp: swept_def)

section \<open>Writing at the end of a file\<close>

text \<open>
  The file operations a transfer relies on: a write at the length of the contents appends,
  and a write through another handle changes nothing.
\<close>

locale positioned_file =
  fixes contents :: "'s \<Rightarrow> 'h \<Rightarrow> string"
    and write_at :: "'h \<Rightarrow> nat \<Rightarrow> string \<Rightarrow> 's \<Rightarrow> 's"
  assumes write_end: "contents (write_at h (length (contents s h)) bs s) h = contents s h @ bs"
    and write_frame: "h' \<noteq> h \<Longrightarrow> contents (write_at h off bs s) h' = contents s h'"
begin

fun write_all :: "'h \<Rightarrow> nat \<Rightarrow> string list \<Rightarrow> 's \<Rightarrow> 's" where
  "write_all h off [] s = s"
| "write_all h off (b # bs) s = write_all h (off + length b) bs (write_at h off b s)"

lemma write_all_appends:
  "off = length (contents s h) \<Longrightarrow> contents (write_all h off bs s) h = contents s h @ concat bs"
  by (induction h off bs s rule: write_all.induct) (simp_all add: write_end)

lemma write_all_frame: "h' \<noteq> h \<Longrightarrow> contents (write_all h off bs s) h' = contents s h'"
  by (induction h off bs s rule: write_all.induct) (simp_all add: write_frame)

end

interpretation disk: positioned_file fs_inodes fs_write
  by unfold_locales (simp_all add: fs_write_def overwrite_def)

lemma fs_paths_write [simp]: "fs_paths (fs_write i off bs s) = fs_paths s"
  by (simp add: fs_write_def)

lemma write_all_paths [simp]: "fs_paths (disk.write_all i off bs s) = fs_paths s"
  by (induction bs arbitrary: off s) simp_all

section \<open>Sending and receiving\<close>

fun receive_pieces ::
  "(string \<Rightarrow> string list option) \<Rightarrow> (string \<Rightarrow> string option) \<Rightarrow> piece list \<Rightarrow> rx \<Rightarrow>
     (transfer_error + received_file option) \<times> rx"
where
  "receive_pieces exts decode [] st = (Inr None, st)"
| "receive_pieces exts decode (P_Header h # ps) st =
     (case receiver_begin exts True h st of
        (Inl e, st') \<Rightarrow> (Inl e, st') | (Inr _, st') \<Rightarrow> receive_pieces exts decode ps st')"
| "receive_pieces exts decode (P_Chunk c # ps) st =
     (case receiver_chunk decode Written c st of
        (Inl e, st') \<Rightarrow> (Inl e, st') | (Inr _, st') \<Rightarrow> receive_pieces exts decode ps st')"
| "receive_pieces exts decode (P_End e # ps) st =
     (case receiver_end True e st of
        (Inl e, st') \<Rightarrow> (Inl e, st') | (Inr f, st') \<Rightarrow> (Inr (Some f), st'))"

text \<open>The blocks a file is sent in.\<close>

function blocks :: "string list \<Rightarrow> string list" where
  "blocks src =
     (let (bs, rest) = read_chunk CHUNK_BYTES src in if bs = [] then [] else bs # blocks rest)"
  by pat_completeness auto
termination
  by (relation "measure (\<lambda>src. length (concat src))")
    (auto dest: arg_cong [where f = length, OF read_chunk_concat [OF sym]])

declare blocks.simps [simp del]

lemma send_chunks_blocks:
  "send_chunks encode t src = map (\<lambda>b. P_Chunk \<lparr>fc_transfer = t, fc_data = encode b\<rparr>) (blocks src)"
  by (induction src rule: blocks.induct) (simp add: send_chunks.simps blocks.simps split: prod.splits)

lemma read_chunk_empty:
  assumes "read_chunk (Suc n) src = ([], rest)" and "\<forall>p \<in> set src. p \<noteq> []"
  shows "src = []"
  using assms by (cases src) (auto split: if_splits prod.splits)

lemma read_chunk_rest:
  "read_chunk n src = (bs, rest) \<Longrightarrow> \<forall>p \<in> set src. p \<noteq> [] \<Longrightarrow> \<forall>p \<in> set rest. p \<noteq> []"
  by (induction n src arbitrary: bs rest rule: read_chunk.induct) (auto split: if_splits prod.splits)

lemma concat_blocks: "\<forall>p \<in> set src. p \<noteq> [] \<Longrightarrow> concat (blocks src) = concat src"
proof (induction src rule: blocks.induct)
  case (1 src)
  obtain bs rest where read: "read_chunk CHUNK_BYTES src = (bs, rest)" by force
  show ?case
  proof (cases "bs = []")
    case True
    obtain n where "CHUNK_BYTES = Suc n" by (cases CHUNK_BYTES) (auto simp: CHUNK_BYTES_def)
    with read True 1(2) have "src = []" using read_chunk_empty [of n src rest] by simp
    then show ?thesis using read True by (simp add: blocks.simps)
  next
    case False
    from read_chunk_rest [OF read 1(2)] 1(1) [OF read [symmetric]] False
    have "concat (blocks rest) = concat rest" by auto
    then show ?thesis
      using read False read_chunk_concat [OF read] by (simp add: blocks.simps [of src])
  qed
qed

lemma word_of_unat_sum:
  assumes "unat a + n \<le> unat (b :: u64)"
  shows "unat (a + of_nat n) = unat a + n" "\<not> a + of_nat n > b"
proof -
  have "unat a + n < 2 ^ 64"
    using assms unat_lt_pow [of b] by simp
  then show eq: "unat (a + of_nat n) = unat a + n"
    by (simp add: unat_word_ariths unat_of_nat take_bit_nat_eq_self mod_add_right_eq)
  then show "\<not> a + of_nat n > b"
    using assms by (simp add: word_less_nat_alt)
qed

definition with_received :: "string \<Rightarrow> open_file \<Rightarrow> nat \<Rightarrow> receiver \<Rightarrow> receiver \<Rightarrow> bool" where
  "with_received t f n r r' =
     (\<exists>al. r' = r\<lparr>rv_open := al\<rparr> \<and> map_of al = (map_of (rv_open r))(t \<mapsto> f\<lparr>op_received := of_nat n\<rparr>))"

lemma receive_blocks:
  assumes dec: "\<forall>b. decode (encode b) = Some b"
    and "map_of (rv_open r) t = Some f"
    and "unat (op_received f) = length (fs_inodes s (op_inode f))"
    and "length (fs_inodes s (op_inode f)) + length (concat bs) \<le> unat (fh_size (op_header f))"
  shows "\<exists>r'. with_received t f (length (fs_inodes s (op_inode f)) + length (concat bs)) r r' \<and>
    receive_pieces exts decode (map (\<lambda>b. P_Chunk \<lparr>fc_transfer = t, fc_data = encode b\<rparr>) bs @ ps) (r, s) =
    receive_pieces exts decode ps (r', disk.write_all (op_inode f) (length (fs_inodes s (op_inode f))) bs s)"
  using assms(2-4)
proof (induction bs arbitrary: r s f)
  case Nil
  have "of_nat (length (fs_inodes s (op_inode f))) = op_received f"
    using arg_cong [OF Nil.prems(2), of "of_nat :: nat \<Rightarrow> u64"] by simp
  then have "f\<lparr>op_received := of_nat (length (fs_inodes s (op_inode f)))\<rparr> = f"
    by (cases f) simp
  with Nil have "with_received t f (length (fs_inodes s (op_inode f))) r r"
    unfolding with_received_def by (intro exI [of _ "rv_open r"]) (auto simp: map_upd_triv)
  then show ?case by auto
next
  case (Cons b bs)
  let ?n = "length (fs_inodes s (op_inode f))"
  define f' where "f' = f\<lparr>op_received := op_received f + of_nat (length b)\<rparr>"
  define r1 where "r1 = r\<lparr>rv_open := AList.update t f' (rv_open r)\<rparr>"
  define s1 where "s1 = fs_write (op_inode f) ?n b s"
  have "unat (op_received f) + length b \<le> unat (fh_size (op_header f))"
    using Cons.prems by simp
  note sum = word_of_unat_sum [OF this]
  have chunk: "receiver_chunk decode Written \<lparr>fc_transfer = t, fc_data = encode b\<rparr> (r, s) = (Inr (), r1, s1)"
    using dec sum(2) Cons.prems(1,2)
    by (simp add: receiver_chunk_def Let_def r1_def s1_def f'_def)
  have grown: "fs_inodes s1 (op_inode f') = fs_inodes s (op_inode f) @ b"
    by (simp add: s1_def f'_def disk.write_end)
  have "\<exists>r'. with_received t f' (length (fs_inodes s1 (op_inode f')) + length (concat bs)) r1 r' \<and>
    receive_pieces exts decode (map (\<lambda>b. P_Chunk \<lparr>fc_transfer = t, fc_data = encode b\<rparr>) bs @ ps) (r1, s1) =
    receive_pieces exts decode ps (r', disk.write_all (op_inode f') (length (fs_inodes s1 (op_inode f'))) bs s1)"
    using Cons.prems sum(1) grown
    by (intro Cons.IH) (auto simp: r1_def f'_def update_conv')
  then obtain r' where r': "with_received t f' (?n + length b + length (concat bs)) r1 r'"
    and rec: "receive_pieces exts decode (map (\<lambda>b. P_Chunk \<lparr>fc_transfer = t, fc_data = encode b\<rparr>) bs @ ps) (r1, s1) =
      receive_pieces exts decode ps (r', disk.write_all (op_inode f) (?n + length b) bs s1)"
    unfolding grown by (auto simp: f'_def)
  from r' have "with_received t f (?n + length (concat (b # bs))) r r'"
    by (auto simp: with_received_def r1_def f'_def update_conv' add.assoc)
  with chunk rec show ?case by (auto simp: s1_def)
qed

lemma fs_open_inode:
  assumes "fs_open path s = (i, s')"
  shows "fs_inodes s' i = []" "fs_paths s' path = Some i"
  using assms by (auto simp: fs_open_def split: option.splits)

definition fs_wf :: "fs \<Rightarrow> bool" where
  "fs_wf s = (\<forall>p i. fs_paths s p = Some i \<longrightarrow> i < fs_next s \<and> (\<forall>q. fs_paths s q = Some i \<longrightarrow> q = p))"

lemma fs_open_frame:
  assumes "fs_wf s" "fs_open path s = (i, s')" "q \<noteq> path"
  shows "fs_paths s' q = fs_paths s q" "fs_paths s q = Some j \<Longrightarrow> j \<noteq> i \<and> fs_inodes s' j = fs_inodes s j"
  using assms by (auto simp: fs_open_def fs_wf_def split: option.splits) fastforce+

lemma send_receive:
  assumes "\<forall>b. decode (encode b) = Some b" "\<forall>p \<in> set src. p \<noteq> []"
    and "fh_size h = of_nat (length (concat src))" "length (concat src) \<le> unat (rv_max_bytes r)"
    and "map_of (rv_open r) (fh_transfer h) = None" "fs_wf s"
  shows "\<exists>r' s'. receive_pieces exts decode (send encode h src) (r, s) =
      (Inr (Some \<lparr>rd_header = h, rd_path = path_for exts r h\<rparr>), r', s') \<and>
    map_of (rv_open r') = map_of (rv_open r) \<and> file_at s' (path_for exts r h) = Some (concat src) \<and>
    (\<forall>q. q \<noteq> path_for exts r h \<longrightarrow> file_at s' q = file_at s q)"
proof -
  let ?t = "fh_transfer h" and ?p = "path_for exts r h"
  obtain i s1 where op: "fs_open ?p s = (i, s1)" by force
  define f where "f = \<lparr>op_header = h, op_inode = i, op_path = ?p, op_received = 0\<rparr>"
  define r1 where "r1 = r\<lparr>rv_open := AList.update ?t f (rv_open r)\<rparr>"
  have size: "unat (fh_size h) = length (concat src)"
    using assms(3,4) unat_lt_pow [of "rv_max_bytes r"] by (simp add: unat_of_nat take_bit_nat_eq_self)
  then have started: "receiver_begin exts True h (r, s) = (Inr (), r1, s1)"
    using assms(4,5) op by (simp add: receiver_begin_def Let_def f_def r1_def word_less_nat_alt)
  note fresh = fs_open_inode [OF op]
  have bl: "concat (blocks src) = concat src" by (rule concat_blocks [OF assms(2)])
  obtain r2 where r2: "with_received ?t f (length (concat src)) r1 r2"
    and rec: "receive_pieces exts decode (send_chunks encode ?t src @ [P_End \<lparr>fe_transfer = ?t\<rparr>]) (r1, s1) =
      receive_pieces exts decode [P_End \<lparr>fe_transfer = ?t\<rparr>] (r2, disk.write_all i 0 (blocks src) s1)"
    using receive_blocks [of decode encode r1 ?t f s1 "blocks src" exts "[P_End \<lparr>fe_transfer = ?t\<rparr>]"]
      assms(1) fresh(1) size bl by (auto simp: r1_def f_def update_conv' send_chunks_blocks)
  define s2 where "s2 = disk.write_all i 0 (blocks src) s1"
  obtain al where al: "r2 = r1\<lparr>rv_open := al\<rparr>"
    "map_of al = (map_of (rv_open r1))(?t \<mapsto> f\<lparr>op_received := fh_size h\<rparr>)"
    using r2 assms(3) unfolding with_received_def by auto
  have ended: "receiver_end True \<lparr>fe_transfer = ?t\<rparr> (r2, s2) =
      (Inr \<lparr>rd_header = h, rd_path = ?p\<rparr>, r2\<lparr>rv_open := AList.delete ?t al\<rparr>, s2)"
    by (simp add: receiver_end_def al Let_def f_def)
  have "fs_inodes s2 i = concat src"
    using disk.write_all_appends [of 0 s1 i "blocks src"] fresh(1) bl by (simp add: s2_def)
  then have at: "file_at s2 ?p = Some (concat src)"
    by (simp add: file_at_def s2_def fresh(2))
  have frame: "file_at s2 q = file_at s q" if "q \<noteq> ?p" for q
    using fs_open_frame [OF assms(6) op that]
    by (cases "fs_paths s q") (auto simp: file_at_def s2_def disk.write_all_frame)
  have "map_of (rv_open (r2\<lparr>rv_open := AList.delete ?t al\<rparr>)) = map_of (rv_open r)"
    using assms(5) by (auto simp: delete_conv' al(2) r1_def update_conv' fun_eq_iff)
  with started rec ended at frame show ?thesis
    by (auto simp: send_def s2_def)
qed

section \<open>Safe names\<close>

text \<open>A file name without separators or control characters, that is not hidden and not empty.\<close>

definition plain_char :: "uchar \<Rightarrow> bool" where
  "plain_char c = (c \<noteq> [] \<and> \<not> is_control c \<and> c \<noteq> ''/'' \<and> c \<noteq> [CHR 0x5C])"

definition plain_name :: "string \<Rightarrow> bool" where
  "plain_name s = (\<exists>u. concat u = s \<and> u \<noteq> [] \<and> list_all plain_char u \<and> hd u \<noteq> ''.'')"

lemma pop_long_ulen: "ulen (pop_long n s) \<le> n"
  by (induction n s rule: pop_long.induct) (simp add: pop_long.simps)

lemma pop_long_prefix: "\<exists>t. s = pop_long n s @ t"
proof (induction n s rule: pop_long.induct)
  case (1 n s)
  show ?case
  proof (cases "ulen s > n")
    case True
    with 1 obtain t where "butlast s = pop_long n (butlast s) @ t" by blast
    moreover have "s = butlast s @ [last s]" using True by (cases s) auto
    ultimately have "s = pop_long n (butlast s) @ (t @ [last s])" by (metis append.assoc)
    then show ?thesis using True by (metis pop_long.simps)
  qed (simp add: pop_long.simps)
qed

lemma safe_name_chars:
  fixes name :: string
  defines "base \<equiv> rev (takeWhile (\<lambda>c. c \<noteq> ''/'' \<and> c \<noteq> [CHR 0x5C]) (rev (chars name)))"
  shows "list_all plain_char
    (map (\<lambda>c. if is_control c \<or> c = ''/'' \<or> c = [CHR 0x5C] \<or> c = '':'' then ''_'' else c) base)"
proof -
  have "plain_char ''_''" by code_simp
  moreover have "u \<noteq> []" if "u \<in> set base" for u
    using that chars_nonempty [of u name] by (auto simp: base_def dest: set_takeWhileD)
  ultimately show ?thesis by (auto simp: list_all_iff plain_char_def)
qed

lemma set_trim_u: "set (trim_u s) \<subseteq> set s"
  unfolding trim_u_def trim_start_u_def using trim_end_u_set set_dropWhileD by fast

lemma safe_name_ok:
  assumes "\<forall>e es. exts mime = Some (e # es) \<longrightarrow> list_all plain_char (chars e) \<and> length e \<le> 95"
  shows "plain_name (safe_name exts name mime) \<and> length (safe_name exts name mime) \<le> NAME_MAX"
proof -
  define base where "base = rev (takeWhile (\<lambda>c. c \<noteq> ''/'' \<and> c \<noteq> [CHR 0x5C]) (rev (chars name)))"
  define u where "u = map (\<lambda>c. if is_control c \<or> c = ''/'' \<or> c = [CHR 0x5C] \<or> c = '':'' then ''_'' else c) base"
  define v where "v = dropWhile (\<lambda>c. c = ''.'') (trim_u u)"
  define w where "w = pop_long NAME_MAX v"
  obtain t where t: "v = w @ t" using pop_long_prefix [of v NAME_MAX] unfolding w_def by blast
  have "set w \<subseteq> set u"
    using t set_trim_u [of u] set_dropWhileD [of _ "\<lambda>c. c = ''.''" "trim_u u"]
    unfolding v_def by (metis (no_types, lifting) Un_iff set_append subset_eq)
  then have plain: "list_all plain_char w"
    using safe_name_chars [of name] by (auto simp: u_def base_def list_all_iff)
  have head: "hd w \<noteq> ''.''" if "w \<noteq> []"
    using that t hd_dropWhile [of "\<lambda>c. c = ''.''" "trim_u u"] unfolding v_def by (metis append_is_Nil_conv hd_append2)
  have eq: "safe_name exts name mime =
      (if w = [] then ''file'' @ (case exts mime of Some (e # _) \<Rightarrow> ''.'' @ e | _ \<Rightarrow> []) else concat w)"
    by (simp only: safe_name_def Let_def base_def u_def v_def w_def)
  show ?thesis
  proof (cases "w = []")
    case True
    define x where "x = (case exts mime of Some (e # _) \<Rightarrow> ''.'' @ e | _ \<Rightarrow> [])"
    define y where "y = (case exts mime of Some (e # _) \<Rightarrow> ''.'' # chars e | _ \<Rightarrow> [])"
    have "plain_char ''.''" by code_simp
    then have y: "concat y = x" "list_all plain_char y" and x: "length x \<le> 96"
      using assms by (auto simp: x_def y_def split: option.splits list.splits)
    have "list_all plain_char [''f'', ''i'', ''l'', ''e'']" by code_simp
    with y have "plain_name (''file'' @ x)"
      unfolding plain_name_def by (intro exI [of _ "[''f'', ''i'', ''l'', ''e''] @ y"]) auto
    with x True show ?thesis by (simp add: eq NAME_MAX_def flip: x_def)
  next
    case False
    with plain head have "plain_name (concat w)" by (auto simp: plain_name_def)
    with False pop_long_ulen [of NAME_MAX v] show ?thesis by (simp add: eq w_def ulen_def)
  qed
qed

lemma safe_id_chars: "c \<in> set (safe_id t) \<Longrightarrow> c \<noteq> CHR ''/'' \<and> c \<noteq> CHR 0x5C \<and> c \<noteq> CHR ''.''"
proof -
  have "c \<noteq> CHR ''/'' \<and> c \<noteq> CHR 0x5C \<and> c \<noteq> CHR ''.''" if u: "is_ascii_alphanumeric u" "c \<in> set u" for u
  proof -
    obtain b where "u = [b]" using u(1)
      by (cases u rule: remdups_adj.cases) (simp_all add: is_ascii_alphanumeric_def)
    with u show ?thesis by (auto simp: is_ascii_alphanumeric_def byte_def)
  qed
  then show "c \<in> set (safe_id t) \<Longrightarrow> ?thesis"
    by (auto simp: safe_id_def split: if_splits)
qed

section \<open>Bounds\<close>

definition receiver_wf :: "receiver \<Rightarrow> bool" where
  "receiver_wf r =
     (\<forall>t f. map_of (rv_open r) t = Some f \<longrightarrow>
        op_received f \<le> fh_size (op_header f) \<and> fh_size (op_header f) \<le> rv_max_bytes r)"

lemma receiver_wf_new: "receiver_wf (receiver_new d p m)"
  by (simp add: receiver_wf_def receiver_new_def)

lemma receiver_wf_begin:
  "receiver_wf r \<Longrightarrow> receiver_begin exts ok h (r, s) = (x, r', s') \<Longrightarrow>
     receiver_wf r' \<and> rv_max_bytes r' = rv_max_bytes r"
  by (auto simp: receiver_begin_def receiver_wf_def Let_def update_conv' split: if_splits prod.splits)

lemma receiver_wf_discard:
  "receiver_wf r \<Longrightarrow> receiver_discard t (r, s) = (r', s') \<Longrightarrow> receiver_wf r' \<and> rv_max_bytes r' = rv_max_bytes r"
  by (auto simp: receiver_discard_def receiver_wf_def delete_conv' split: option.splits if_splits)

lemma receiver_wf_update:
  "receiver_wf r \<Longrightarrow> map_of (rv_open r) t = Some f \<Longrightarrow> n \<le> fh_size (op_header f) \<Longrightarrow>
     receiver_wf (r\<lparr>rv_open := AList.update t (f\<lparr>op_received := n\<rparr>) (rv_open r)\<rparr>)"
  by (auto simp: receiver_wf_def update_conv' split: if_splits)

lemma receiver_wf_chunk:
  assumes "receiver_wf r" "receiver_chunk decode w c (r, s) = (x, r', s')"
  shows "receiver_wf r' \<and> rv_max_bytes r' = rv_max_bytes r"
  using assms(2) receiver_wf_discard [OF assms(1)] assms(1)
  by (auto simp: receiver_chunk_def Let_def not_less
      split: option.splits if_splits write_outcome.splits intro: receiver_wf_update)

lemma receiver_wf_end:
  "receiver_wf r \<Longrightarrow> receiver_end ok e (r, s) = (x, r', s') \<Longrightarrow> receiver_wf r' \<and> rv_max_bytes r' = rv_max_bytes r"
  by (auto simp: receiver_end_def receiver_wf_def Let_def delete_conv' split: option.splits if_splits)

lemma receiver_wf_discards:
  "receiver_wf r \<Longrightarrow> fold receiver_discard ts (r, s) = (r', s') \<Longrightarrow> receiver_wf r' \<and> rv_max_bytes r' = rv_max_bytes r"
proof (induction ts arbitrary: r s)
  case (Cons t ts)
  obtain r1 s1 where "receiver_discard t (r, s) = (r1, s1)" by force
  with Cons receiver_wf_discard [OF Cons.prems(1) this] show ?case by fastforce
qed simp

datatype rx_op =
    Rx_Begin bool file_header
  | Rx_Chunk write_outcome file_chunk
  | Rx_End bool file_end
  | Rx_Abort

fun rx_step :: "(string \<Rightarrow> string list option) \<Rightarrow> (string \<Rightarrow> string option) \<Rightarrow> rx_op \<Rightarrow> rx \<Rightarrow> rx" where
  "rx_step exts decode (Rx_Begin ok h) st = snd (receiver_begin exts ok h st)"
| "rx_step exts decode (Rx_Chunk w c) st = snd (receiver_chunk decode w c st)"
| "rx_step exts decode (Rx_End ok e) st = snd (receiver_end ok e st)"
| "rx_step exts decode Rx_Abort st = abort_all st"

definition rx_run :: "(string \<Rightarrow> string list option) \<Rightarrow> (string \<Rightarrow> string option) \<Rightarrow> rx_op list \<Rightarrow> rx \<Rightarrow> rx" where
  "rx_run exts decode ops st = fold (rx_step exts decode) ops st"

lemma rx_step_wf:
  assumes "receiver_wf r" "rx_step exts decode e (r, s) = (r', s')"
  shows "receiver_wf r' \<and> rv_max_bytes r' = rv_max_bytes r"
proof (cases e)
  case (Rx_Begin ok h)
  with assms show ?thesis
    using receiver_wf_begin [OF assms(1), of exts ok h s] by (cases "receiver_begin exts ok h (r, s)") auto
next
  case (Rx_Chunk w c)
  with assms show ?thesis
    using receiver_wf_chunk [OF assms(1), of decode w c s] by (cases "receiver_chunk decode w c (r, s)") auto
next
  case (Rx_End ok e)
  with assms show ?thesis
    using receiver_wf_end [OF assms(1), of ok e s] by (cases "receiver_end ok e (r, s)") auto
next
  case Rx_Abort
  with assms show ?thesis
    using receiver_wf_discards [OF assms(1)] by (auto simp: abort_all_def)
qed

lemma rx_run_wf:
  "receiver_wf r \<Longrightarrow> rx_run exts decode ops (r, s) = (r', s') \<Longrightarrow> receiver_wf r' \<and> rv_max_bytes r' = rv_max_bytes r"
proof (induction ops arbitrary: r s)
  case (Cons e ops)
  obtain r1 s1 where "rx_step exts decode e (r, s) = (r1, s1)" by force
  with Cons rx_step_wf [OF Cons.prems(1) this] show ?case by (fastforce simp: rx_run_def)
qed (simp add: rx_run_def)

section \<open>Properties\<close>

text \<open>
  C29: a file sent as a transfer arrives whole: whatever sizes its reads have, the receiver
  ends with the sender's header and the file's bytes at the path it chose, the open
  transfers are what they were and no other file has changed. The hypotheses are that
  base64 decodes what it encodes, that the header declares the file's size and that the
  size is within the receiver's limit.
\<close>

theorem transfer_round_trip:
  assumes "\<forall>b. decode (encode b) = Some b" "\<forall>p \<in> set src. p \<noteq> []"
    and "fh_size h = of_nat (length (concat src))" "length (concat src) \<le> unat (rv_max_bytes r)"
    and "map_of (rv_open r) (fh_transfer h) = None" "fs_wf s"
  shows "\<exists>r' s'. receive_pieces exts decode (send encode h src) (r, s) =
      (Inr (Some \<lparr>rd_header = h, rd_path = path_for exts r h\<rparr>), r', s') \<and>
    map_of (rv_open r') = map_of (rv_open r) \<and> file_at s' (path_for exts r h) = Some (concat src) \<and>
    (\<forall>q. q \<noteq> path_for exts r h \<longrightarrow> file_at s' q = file_at s q)"
  using assms by (rule send_receive)

theorem transfer_round_trip_witness:
  "\<exists>r' s'. receive_pieces (\<lambda>_. None) Some
      (send (\<lambda>b. b) \<lparr>fh_transfer = ''t1'', fh_name = ''a.txt'', fh_mime = ''text/plain'', fh_size = 5\<rparr> [''hel'', ''lo''])
      (receiver_new ''/in'' [] 10, \<lparr>fs_inodes = \<lambda>_. [], fs_paths = Map.empty, fs_next = 0\<rparr>) =
    (Inr (Some \<lparr>rd_header = \<lparr>fh_transfer = ''t1'', fh_name = ''a.txt'', fh_mime = ''text/plain'', fh_size = 5\<rparr>,
       rd_path = ''/in/t1-a.txt''\<rparr>), r', s') \<and> file_at s' ''/in/t1-a.txt'' = Some ''hello''"
proof -
  let ?h = "\<lparr>fh_transfer = ''t1'', fh_name = ''a.txt'', fh_mime = ''text/plain'', fh_size = 5\<rparr> :: file_header"
  have path: "path_for (\<lambda>_. None) (receiver_new ''/in'' [] 10) ?h = ''/in/t1-a.txt''"
    by code_simp
  show ?thesis
    using transfer_round_trip [of Some "\<lambda>b. b" "[''hel'', ''lo'']" ?h "receiver_new ''/in'' [] 10"
        "\<lparr>fs_inodes = \<lambda>_. [], fs_paths = Map.empty, fs_next = 0\<rparr>" "\<lambda>_. None"]
    unfolding path by (auto simp: receiver_new_def fs_wf_def)
qed



text \<open>
  C38: whatever lines a peer sends and whichever file operations fail, an open transfer
  never holds more bytes than it declared nor declares more than the limit, and a
  transfer ends well only with exactly the bytes it declared.
\<close>

theorem receiver_bounded:
  assumes "rx_run exts decode ops (receiver_new d p m, s) = (r, s')"
  shows "(\<forall>t f. map_of (rv_open r) t = Some f \<longrightarrow>
      op_received f \<le> fh_size (op_header f) \<and> fh_size (op_header f) \<le> m) \<and>
    (\<forall>ok e x st. receiver_end ok e (r, s') = (Inr x, st) \<longrightarrow>
      (\<exists>f. map_of (rv_open r) (fe_transfer e) = Some f \<and> op_received f = fh_size (rd_header x) \<and>
         fh_size (rd_header x) \<le> m))"
proof -
  have "receiver_wf r \<and> rv_max_bytes r = m"
    using rx_run_wf [OF receiver_wf_new assms] by (simp add: receiver_new_def)
  then show ?thesis
    by (auto simp: receiver_wf_def receiver_end_def Let_def split: option.splits if_splits)
qed

theorem receiver_bounded_witness:
  "\<exists>r s'. rx_run (\<lambda>_. None) Some
      [Rx_Begin True \<lparr>fh_transfer = ''t'', fh_name = ''a'', fh_mime = [], fh_size = 3\<rparr>,
       Rx_Chunk Written \<lparr>fc_transfer = ''t'', fc_data = ''xy''\<rparr>]
      (receiver_new ''/in'' [] 10, \<lparr>fs_inodes = \<lambda>_. [], fs_paths = Map.empty, fs_next = 0\<rparr>) = (r, s') \<and>
    (\<forall>t f. map_of (rv_open r) t = Some f \<longrightarrow> fh_size (op_header f) \<le> 10) \<and> map fst (rv_open r) = [''t'']"
proof -
  obtain r s' where run: "rx_run (\<lambda>_. None) Some
      [Rx_Begin True \<lparr>fh_transfer = ''t'', fh_name = ''a'', fh_mime = [], fh_size = 3\<rparr>,
       Rx_Chunk Written \<lparr>fc_transfer = ''t'', fc_data = ''xy''\<rparr>]
      (receiver_new ''/in'' [] 10, \<lparr>fs_inodes = \<lambda>_. [], fs_paths = Map.empty, fs_next = 0\<rparr>) = (r, s')" by force
  then have "map fst (rv_open r) = [''t'']"
    by (auto simp: rx_run_def receiver_new_def receiver_begin_def receiver_chunk_def Let_def split: prod.splits if_splits)
  with run receiver_bounded [OF run] show ?thesis by (intro exI [of _ r] exI [of _ s']) simp
qed

text \<open>
  Two transfers open at the same time whose ids differ only in a character outside the
  safe alphabet are written to one file: both end well with the same path, and the bytes
  of the first are gone.
\<close>

theorem similar_ids_share_a_file:
  "let h = (\<lambda>t. \<lparr>fh_transfer = t, fh_name = ''x'', fh_mime = [], fh_size = 2\<rparr>);
       ex = (\<lambda>_. None);
       st0 = (receiver_new ''/in'' [] 10, \<lparr>fs_inodes = \<lambda>_. [], fs_paths = Map.empty, fs_next = 0\<rparr>);
       st = rx_run ex Some [Rx_Begin True (h ''a/b''), Rx_Begin True (h ''a+b''),
              Rx_Chunk Written \<lparr>fc_transfer = ''a/b'', fc_data = ''AA''\<rparr>,
              Rx_Chunk Written \<lparr>fc_transfer = ''a+b'', fc_data = ''BB''\<rparr>] st0;
       (x, st1) = receiver_end True \<lparr>fe_transfer = ''a/b''\<rparr> st;
       (y, st2) = receiver_end True \<lparr>fe_transfer = ''a+b''\<rparr> st1
   in x = Inr \<lparr>rd_header = h ''a/b'', rd_path = ''/in/a_b-x''\<rparr> \<and>
      y = Inr \<lparr>rd_header = h ''a+b'', rd_path = ''/in/a_b-x''\<rparr> \<and>
      file_at (snd st2) ''/in/a_b-x'' = Some ''BB''"
  by code_simp

end
