(* ===== verification/Daemon_State.thy ===== *)
theory Daemon_State
  imports Registry Replay Alert Routing File_Transfer Calendar
begin

text \<open>
  The daemon's shared state (\<open>crates/siltad/src/daemon.rs\<close>, \<open>spool.rs\<close>): the record of its
  parts, the typing refresh tasks, and what an acknowledgement does. The Matrix client is a
  parameter: the rooms it knows and the ids it can parse. A typing refresh is a spawned
  loop; its iterations are the operation \<open>typing_poll\<close>, with the time elapsed as an argument.
  The task in the table and its loop share the cancellation token and the watch flag, which
  are kept with the loop and found by the generation.
\<close>

section \<open>The Matrix client\<close>

record sdk_room =
  sr_room_id :: string
  sr_joined :: bool
  sr_members :: "string + string list"
  sr_direct :: "unit + bool"
  sr_named :: bool

record client =
  cl_room_id_ok :: "string \<Rightarrow> bool"
  cl_event_id_ok :: "string \<Rightarrow> bool"
  cl_get_room :: "string \<Rightarrow> sdk_room option"
  cl_joined_rooms :: "sdk_room list"

section \<open>The spool\<close>

record spool =
  sp_inbox :: string
  sp_outbox :: string
  sp_max_bytes :: u64

definition spool_new :: "string \<Rightarrow> u64 \<Rightarrow> spool" where
  "spool_new dir m =
     \<lparr>sp_inbox = path_join dir ''inbox'', sp_outbox = path_join dir ''outbox'', sp_max_bytes = m\<rparr>"

definition inbox_path :: "spool \<Rightarrow> string \<Rightarrow> string" where
  "inbox_path sp transfer = path_join (sp_inbox sp) transfer"

section \<open>Typing refreshes\<close>

definition TYPING_MAX :: duration where
  "TYPING_MAX = 600 * 1000"

record silence =
  si_session :: string
  si_room_id :: string
  si_delivered_ms :: u64

record typing_task =
  tt_session :: string
  tt_generation :: u64

record typing_loop =
  tl_room :: string
  tl_session :: string
  tl_generation :: u64
  tl_started_ms :: u64
  tl_cancel :: bool
  tl_watch :: bool

record typing_state =
  ty_tasks :: "(string \<times> typing_task) list"
  ty_loops :: "typing_loop list"
  ty_generation :: u64
  ty_silence :: "silence list"

definition typing_empty :: typing_state where
  "typing_empty = \<lparr>ty_tasks = [], ty_loops = [], ty_generation = 0, ty_silence = []\<rparr>"

definition on_loop :: "u64 \<Rightarrow> (typing_loop \<Rightarrow> typing_loop) \<Rightarrow> typing_state \<Rightarrow> typing_state" where
  "on_loop g f st = st\<lparr>ty_loops := map (\<lambda>l. if tl_generation l = g then f l else l) (ty_loops st)\<rparr>"

definition typing_start :: "string \<Rightarrow> string \<Rightarrow> bool \<Rightarrow> u64 \<Rightarrow> typing_state \<Rightarrow> typing_state" where
  "typing_start session room watch now st =
     (case map_of (ty_tasks st) room of
        Some task \<Rightarrow> if \<not> watch then on_loop (tt_generation task) (tl_watch_update (\<lambda>_. False)) st else st
      | None \<Rightarrow>
          let g = ty_generation st + 1
          in st\<lparr>ty_generation := g,
                ty_tasks := AList.update room \<lparr>tt_session = session, tt_generation = g\<rparr> (ty_tasks st),
                ty_loops := ty_loops st @
                  [\<lparr>tl_room = room, tl_session = session, tl_generation = g, tl_started_ms = now,
                    tl_cancel = False, tl_watch = watch\<rparr>]\<rparr>)"

text \<open>The end of a loop: its task leaves the table unless another generation took its place.\<close>

definition typing_end :: "typing_loop \<Rightarrow> typing_state \<Rightarrow> typing_state" where
  "typing_end l st =
     (let st' = st\<lparr>ty_loops := filter (\<lambda>k. tl_generation k \<noteq> tl_generation l) (ty_loops st)\<rparr>
      in if map_option tt_generation (map_of (ty_tasks st) (tl_room l)) = Some (tl_generation l)
         then st'\<lparr>ty_tasks := AList.delete (tl_room l) (ty_tasks st)\<rparr> else st')"

definition typing_poll :: "u64 \<Rightarrow> duration \<Rightarrow> typing_state \<Rightarrow> typing_state" where
  "typing_poll g elapsed st =
     (case find (\<lambda>l. tl_generation l = g) (ty_loops st) of
        None \<Rightarrow> st
      | Some l \<Rightarrow>
          if tl_cancel l then typing_end l st
          else if elapsed > TYPING_MAX
          then typing_end l
                 (if tl_watch l
                  then st\<lparr>ty_silence := ty_silence st @
                         [\<lparr>si_session = tl_session l, si_room_id = tl_room l, si_delivered_ms = tl_started_ms l\<rparr>]\<rparr>
                  else st)
          else st)"

text \<open>
  The notices sent to the room: one when a refresh begins, one more at every iteration that goes
  on, and the one that clears the indicator when it ends. Their outcome changes nothing.
\<close>

definition typing_start_notice :: "string \<Rightarrow> typing_state \<Rightarrow> (string \<times> bool) list" where
  "typing_start_notice room st = (if map_of (ty_tasks st) room = None then [(room, True)] else [])"

definition typing_poll_notice :: "u64 \<Rightarrow> duration \<Rightarrow> typing_state \<Rightarrow> (string \<times> bool) list" where
  "typing_poll_notice g elapsed st =
     (case find (\<lambda>l. tl_generation l = g) (ty_loops st) of
        None \<Rightarrow> []
      | Some l \<Rightarrow> [(tl_room l, \<not> (tl_cancel l \<or> elapsed > TYPING_MAX))])"

definition typing_stop :: "string \<Rightarrow> typing_state \<Rightarrow> typing_state" where
  "typing_stop room st =
     (case map_of (ty_tasks st) room of
        None \<Rightarrow> st
      | Some task \<Rightarrow>
          on_loop (tt_generation task) (tl_cancel_update (\<lambda>_. True))
            (st\<lparr>ty_tasks := AList.delete room (ty_tasks st)\<rparr>))"

definition typing_stop_session :: "string \<Rightarrow> typing_state \<Rightarrow> typing_state" where
  "typing_stop_session session st =
     fold typing_stop (map fst (filter (\<lambda>(r, t). tt_session t = session) (ty_tasks st))) st"

section \<open>The daemon\<close>

record settings =
  st_replay_window_secs :: u64
  st_inbox_max_age_days :: u64
  st_alert_grace_secs :: u64

record daemon =
  dm_routing :: routing
  dm_registry :: registry
  dm_started_at_ms :: u64
  dm_replay_window_ms :: u64
  dm_spool :: spool
  dm_inbox_max_age_days :: u64
  dm_users :: "string \<rightharpoonup> u32"
  dm_alerts :: watch
  dm_hostname :: string
  dm_marks :: marks
  dm_typing :: typing_state
  dm_fs :: fs
  dm_receipts :: "(string \<times> string) list"

definition daemon_new ::
  "routing \<Rightarrow> spool \<Rightarrow> (string \<rightharpoonup> u32) \<Rightarrow> settings \<Rightarrow> u64 \<Rightarrow> string option \<Rightarrow> marks \<Rightarrow> fs \<Rightarrow> daemon"
where
  "daemon_new rt sp users s now host m disk =
     (let window = saturating_mul (st_replay_window_secs s) 1000
      in \<lparr>dm_routing = rt, dm_registry = registry_new window, dm_started_at_ms = now,
          dm_replay_window_ms = window, dm_spool = sp, dm_inbox_max_age_days = st_inbox_max_age_days s,
          dm_users = users, dm_alerts = watch_new (session_names rt) (st_alert_grace_secs s) now,
          dm_hostname = (case host of Some h \<Rightarrow> if h = [] then ''this host'' else h | None \<Rightarrow> ''this host''),
          dm_marks = m, dm_typing = typing_empty, dm_fs = disk, dm_receipts = []\<rparr>)"

definition session_connected :: "string \<Rightarrow> u64 \<Rightarrow> daemon \<Rightarrow> daemon \<times> alert option" where
  "session_connected session now d =
     (let (w, a) = watch_connected session now (dm_alerts d) in (d\<lparr>dm_alerts := w\<rparr>, a))"

definition session_disconnected :: "string \<Rightarrow> u64 \<Rightarrow> daemon \<Rightarrow> daemon" where
  "session_disconnected session now d = d\<lparr>dm_alerts := watch_disconnected session now (dm_alerts d)\<rparr>"

definition daemon_watermark :: "string \<Rightarrow> daemon \<Rightarrow> watermark option" where
  "daemon_watermark room d = marks_get room (dm_marks d)"

text \<open>The receipt the SDK is asked to send; its outcome changes nothing.\<close>

definition mark_read :: "'c client_scheme \<Rightarrow> string \<Rightarrow> string \<Rightarrow> daemon \<Rightarrow> daemon" where
  "mark_read cl room eid d =
     (if cl_event_id_ok cl eid then d\<lparr>dm_receipts := dm_receipts d @ [(room, eid)]\<rparr> else d)"

definition daemon_acked ::
  "'c client_scheme \<Rightarrow> ((string \<rightharpoonup> watermark) \<Rightarrow> string) \<Rightarrow> bool \<Rightarrow> string \<Rightarrow> event \<Rightarrow> u64 \<Rightarrow> u64 \<Rightarrow> daemon \<Rightarrow> daemon"
where
  "daemon_acked cl to_string ok session ev ts now d =
     (let d1 = d\<lparr>dm_marks := marks_set to_string ok (ev_room_id ev) \<lparr>ts_ms = ts, event_id = ev_event_id ev\<rparr> (dm_marks d),
                 dm_fs := fold (\<lambda>a. fs_remove (inbox_path (dm_spool d) (att_transfer a))) (ev_attachments ev) (dm_fs d)\<rparr>
      in if \<not> cl_room_id_ok cl (ev_room_id ev) then d1
         else case cl_get_room cl (ev_room_id ev) of
           None \<Rightarrow> d1
         | Some room \<Rightarrow>
             let d2 = mark_read cl (sr_room_id room) (ev_event_id ev) d1
             in if ev_kind ev = EK_Message
                then d2\<lparr>dm_typing := typing_start session (sr_room_id room) True now (dm_typing d2)\<rparr>
                else d2)"

section \<open>The typing invariant\<close>

text \<open>The refreshes under way that are not cancelled, and those the table names.\<close>

definition refresh_key :: "typing_loop \<Rightarrow> string \<times> string \<times> u64" where
  "refresh_key l = (tl_room l, tl_session l, tl_generation l)"

definition live_refreshes :: "typing_state \<Rightarrow> (string \<times> string \<times> u64) set" where
  "live_refreshes st = refresh_key ` {l \<in> set (ty_loops st). \<not> tl_cancel l}"

definition table_refreshes :: "typing_state \<Rightarrow> (string \<times> string \<times> u64) set" where
  "table_refreshes st = {(r, tt_session t, tt_generation t) |r t. map_of (ty_tasks st) r = Some t}"

definition typing_wf :: "typing_state \<Rightarrow> bool" where
  "typing_wf st =
     (distinct (map tl_generation (ty_loops st)) \<and>
      (\<forall>l \<in> set (ty_loops st). tl_generation l \<le> ty_generation st) \<and>
      live_refreshes st = table_refreshes st)"

text \<open>The indicator is cleared exactly when a refresh ends.\<close>

lemma typing_poll_clears:
  assumes "distinct (map tl_generation (ty_loops st))" "find (\<lambda>l. tl_generation l = g) (ty_loops st) = Some l"
  shows "typing_poll_notice g elapsed st = [(tl_room l, False)] \<longleftrightarrow> g \<notin> tl_generation ` set (ty_loops (typing_poll g elapsed st))"
proof -
  have l: "l \<in> set (ty_loops st)" "tl_generation l = g"
    using assms(2) by (auto simp: find_Some_iff)
  then have "g \<in> tl_generation ` set (ty_loops st)" by blast
  then show ?thesis
    using assms(2) l(2) by (auto simp: typing_poll_notice_def typing_poll_def typing_end_def Let_def)
qed

lemma typing_wf_empty: "typing_wf typing_empty"
  by (simp add: typing_wf_def typing_empty_def live_refreshes_def table_refreshes_def)

lemma table_unique: "(r, s, g) \<in> table_refreshes st \<Longrightarrow> (r, s', g') \<in> table_refreshes st \<Longrightarrow> s = s' \<and> g = g'"
  by (auto simp: table_refreshes_def)

lemma loop_unique:
  "distinct (map tl_generation ls) \<Longrightarrow> k \<in> set ls \<Longrightarrow> l \<in> set ls \<Longrightarrow> tl_generation k = tl_generation l \<Longrightarrow> k = l"
  by (metis distinct_map inj_onD)

lemma on_loop_generations [simp]:
  assumes "\<And>l. tl_generation (f l) = tl_generation l"
  shows "map tl_generation (ty_loops (on_loop g f st)) = map tl_generation (ty_loops st)"
  using assms by (simp add: on_loop_def)

lemma on_loop_bounded:
  assumes "\<And>l. tl_generation (f l) = tl_generation l" "\<forall>l \<in> set (ty_loops st). tl_generation l \<le> n"
  shows "\<forall>l \<in> set (ty_loops (on_loop g f st)). tl_generation l \<le> n"
  using assms by (auto simp: on_loop_def)

lemma live_on_loop:
  assumes "\<And>l. refresh_key (f l) = refresh_key l"
  shows "live_refreshes (on_loop g f st) =
    refresh_key ` {l \<in> set (ty_loops st). \<not> tl_cancel (if tl_generation l = g then f l else l)}"
proof -
  define h where "h = (\<lambda>l. if tl_generation l = g then f l else l)"
  have key: "refresh_key (h l) = refresh_key l" for l
    by (simp add: assms h_def)
  have "live_refreshes (on_loop g f st) = refresh_key ` {l \<in> h ` set (ty_loops st). \<not> tl_cancel l}"
    by (simp add: live_refreshes_def on_loop_def h_def)
  also have "\<dots> = (\<lambda>l. refresh_key (h l)) ` {l \<in> set (ty_loops st). \<not> tl_cancel (h l)}"
    by blast
  finally show ?thesis by (simp add: key) (simp add: h_def)
qed

lemma live_refreshes_watch [simp]: "live_refreshes (on_loop g (tl_watch_update f) st) = live_refreshes st"
  by (subst live_on_loop) (auto simp: refresh_key_def live_refreshes_def split: if_splits)

lemma live_refreshes_cancel:
  "live_refreshes (on_loop g (tl_cancel_update (\<lambda>_. True)) st) = {x \<in> live_refreshes st. snd (snd x) \<noteq> g}"
  by (subst live_on_loop) (auto simp: refresh_key_def live_refreshes_def split: if_splits)

lemma live_unique:
  assumes "typing_wf st" "x \<in> live_refreshes st" "y \<in> live_refreshes st" "snd (snd x) = snd (snd y)"
  shows "x = y"
proof -
  obtain k l where "k \<in> set (ty_loops st)" "x = refresh_key k" "l \<in> set (ty_loops st)" "y = refresh_key l"
    using assms(2,3) by (auto simp: live_refreshes_def)
  with assms(1,4) loop_unique [of "ty_loops st" k l] show ?thesis
    by (simp add: refresh_key_def typing_wf_def)
qed

lemma on_loop_simps [simp]:
  "ty_tasks (on_loop g f st) = ty_tasks st" "ty_generation (on_loop g f st) = ty_generation st"
  "ty_silence (on_loop g f st) = ty_silence st"
  by (simp_all add: on_loop_def)

lemma table_on_loop [simp]: "table_refreshes (on_loop g f st) = table_refreshes st"
  by (simp add: table_refreshes_def)

lemma table_delete:
  "table_refreshes (st\<lparr>ty_tasks := AList.delete r (ty_tasks st)\<rparr>) = {x \<in> table_refreshes st. fst x \<noteq> r}"
  by (auto simp: table_refreshes_def delete_conv')

lemma table_insert:
  assumes "map_of (ty_tasks st) r = None"
  shows "table_refreshes (st\<lparr>ty_tasks := AList.update r t (ty_tasks st)\<rparr>) =
    insert (r, tt_session t, tt_generation t) (table_refreshes st)"
proof -
  have "map_of (AList.update r t (ty_tasks st)) q = Some u \<longleftrightarrow> q = r \<and> u = t \<or> map_of (ty_tasks st) q = Some u" for q u
    using assms by (auto simp: update_conv')
  then show ?thesis by (auto simp: table_refreshes_def)
qed

lemma live_tasks_update [simp]: "live_refreshes (ty_tasks_update f st) = live_refreshes st"
  by (simp add: live_refreshes_def)

lemma typing_wf_start:
  assumes wf: "typing_wf st" and room: "unat (ty_generation st) + 1 < 2 ^ 64"
  shows "typing_wf (typing_start s r w now st)"
proof (cases "map_of (ty_tasks st) r")
  case (Some t)
  have "typing_wf (on_loop (tt_generation t) (tl_watch_update (\<lambda>_. False)) st)"
    using wf on_loop_bounded [of "tl_watch_update (\<lambda>_. False)" st "ty_generation st"]
    by (simp add: typing_wf_def)
  with wf Some show ?thesis by (simp add: typing_start_def)
next
  case None
  let ?g = "ty_generation st + 1"
  have big: "ty_generation st < ?g"
    using room by (simp add: word_less_nat_alt unat_word_ariths)
  with wf have "\<forall>l \<in> set (ty_loops st). tl_generation l \<noteq> ?g \<and> tl_generation l \<le> ?g"
    by (fastforce simp: typing_wf_def)
  moreover have "live_refreshes (typing_start s r w now st) = insert (r, s, ?g) (live_refreshes st)"
  proof -
    let ?l = "\<lparr>tl_room = r, tl_session = s, tl_generation = ?g, tl_started_ms = now, tl_cancel = False, tl_watch = w\<rparr>"
    have "{l \<in> set (ty_loops (typing_start s r w now st)). \<not> tl_cancel l} =
        insert ?l {l \<in> set (ty_loops st). \<not> tl_cancel l}"
      using None by (auto simp: typing_start_def Let_def)
    then show ?thesis by (simp add: live_refreshes_def refresh_key_def)
  qed
  moreover have "table_refreshes (typing_start s r w now st) = insert (r, s, ?g) (table_refreshes st)"
    using None table_insert [OF None, of "\<lparr>tt_session = s, tt_generation = ?g\<rparr>"]
    by (simp add: typing_start_def Let_def table_refreshes_def)
  moreover have "ty_loops (typing_start s r w now st) = ty_loops st @
      [\<lparr>tl_room = r, tl_session = s, tl_generation = ?g, tl_started_ms = now, tl_cancel = False, tl_watch = w\<rparr>]"
    "ty_generation (typing_start s r w now st) = ?g"
    using None by (simp_all add: typing_start_def Let_def)
  ultimately show ?thesis
    using wf by (auto simp: typing_wf_def)
qed

lemma typing_wf_stop:
  assumes "typing_wf st"
  shows "typing_wf (typing_stop r st)"
proof (cases "map_of (ty_tasks st) r")
  case (Some t)
  have mem: "(r, tt_session t, tt_generation t) \<in> table_refreshes st"
    using Some by (auto simp: table_refreshes_def)
  have "fst x \<noteq> r \<longleftrightarrow> snd (snd x) \<noteq> tt_generation t" if x: "x \<in> table_refreshes st" for x
  proof
    assume "snd (snd x) \<noteq> tt_generation t"
    then show "fst x \<noteq> r" using table_unique [of r _ _ st] mem x by (metis prod.collapse)
  next
    assume "fst x \<noteq> r"
    have "x \<in> live_refreshes st" "(r, tt_session t, tt_generation t) \<in> live_refreshes st"
      using assms x mem by (simp_all add: typing_wf_def)
    then show "snd (snd x) \<noteq> tt_generation t"
      using live_unique [OF assms] \<open>fst x \<noteq> r\<close> by (metis fst_conv snd_conv)
  qed
  then have "live_refreshes (typing_stop r st) = table_refreshes (typing_stop r st)"
    using assms Some by (auto simp: typing_stop_def live_refreshes_cancel table_delete typing_wf_def)
  moreover have "\<forall>l \<in> set (ty_loops (typing_stop r st)). tl_generation l \<le> ty_generation st"
    using assms Some on_loop_bounded [of "tl_cancel_update (\<lambda>_. True)" "st\<lparr>ty_tasks := AList.delete r (ty_tasks st)\<rparr>"]
    by (simp add: typing_stop_def typing_wf_def)
  ultimately show ?thesis
    using assms Some by (simp add: typing_wf_def typing_stop_def)
qed (use assms in \<open>simp add: typing_stop_def\<close>)

lemma typing_wf_stops: "typing_wf st \<Longrightarrow> typing_wf (fold typing_stop rs st)"
  by (induction rs arbitrary: st) (simp_all add: typing_wf_stop)

lemma typing_wf_end:
  assumes wf: "typing_wf st" and l: "l \<in> set (ty_loops st)"
  shows "typing_wf (typing_end l st)"
proof -
  let ?own = "map_option tt_generation (map_of (ty_tasks st) (tl_room l)) = Some (tl_generation l)"
  have dist: "distinct (map tl_generation (ty_loops st))" using wf by (simp add: typing_wf_def)
  have live: "live_refreshes (typing_end l st) = {x \<in> live_refreshes st. snd (snd x) \<noteq> tl_generation l}"
    by (auto simp: typing_end_def Let_def live_refreshes_def refresh_key_def)
  have same: "x \<in> table_refreshes st \<Longrightarrow> snd (snd x) = tl_generation l \<longleftrightarrow> ?own \<and> fst x = tl_room l" for x
  proof -
    assume x: "x \<in> table_refreshes st"
    then obtain k where k: "k \<in> set (ty_loops st)" "x = (tl_room k, tl_session k, tl_generation k)"
      using wf by (auto simp: typing_wf_def live_refreshes_def refresh_key_def)
    show ?thesis
      using x k l loop_unique [OF dist k(1) l] by (auto simp: table_refreshes_def)
  qed
  have "table_refreshes (typing_end l st) = {x \<in> table_refreshes st. snd (snd x) \<noteq> tl_generation l}"
  proof (cases ?own)
    case True
    then have "table_refreshes (typing_end l st) = {x \<in> table_refreshes st. fst x \<noteq> tl_room l}"
      using table_delete [of "tl_room l" st] by (auto simp: typing_end_def Let_def table_refreshes_def)
    with same True show ?thesis by blast
  next
    case False
    then have "table_refreshes (typing_end l st) = table_refreshes st"
      by (simp only: typing_end_def Let_def table_refreshes_def if_False) simp
    with same False show ?thesis by blast
  qed
  with live show ?thesis
    using wf distinct_map_filter [OF dist]
    by (auto simp: typing_wf_def typing_end_def Let_def split: if_splits)
qed

lemma typing_wf_silence [simp]: "typing_wf (ty_silence_update f st) = typing_wf st"
  by (simp add: typing_wf_def live_refreshes_def table_refreshes_def)

lemma typing_wf_poll: "typing_wf st \<Longrightarrow> typing_wf (typing_poll g e st)"
  by (auto simp: typing_poll_def find_Some_iff split: option.splits intro!: typing_wf_end)

lemma live_loop_task:
  assumes "typing_wf st" "l \<in> set (ty_loops st)" "\<not> tl_cancel l"
  shows "map_of (ty_tasks st) (tl_room l) = Some \<lparr>tt_session = tl_session l, tt_generation = tl_generation l\<rparr>"
proof -
  have "refresh_key l \<in> table_refreshes st"
    using assms by (auto simp: typing_wf_def live_refreshes_def)
  then obtain t where "map_of (ty_tasks st) (tl_room l) = Some t" "tt_session t = tl_session l" "tt_generation t = tl_generation l"
    by (auto simp: table_refreshes_def refresh_key_def)
  then show ?thesis by (cases t) simp
qed

section \<open>Sequences of operations\<close>

datatype typing_op =
    T_Start string string bool u64
  | T_Poll u64 duration
  | T_Stop string
  | T_Stop_Session string

fun typing_step :: "typing_op \<Rightarrow> typing_state \<Rightarrow> typing_state" where
  "typing_step (T_Start s r w now) st = typing_start s r w now st"
| "typing_step (T_Poll g e) st = typing_poll g e st"
| "typing_step (T_Stop r) st = typing_stop r st"
| "typing_step (T_Stop_Session s) st = typing_stop_session s st"

definition typing_run :: "typing_op list \<Rightarrow> typing_state \<Rightarrow> typing_state" where
  "typing_run ops st = fold typing_step ops st"

lemma generation_stops [simp]: "ty_generation (fold typing_stop rs st) = ty_generation st"
proof (induction rs arbitrary: st)
  case (Cons r rs)
  then show ?case by (simp add: typing_stop_def split: option.splits)
qed simp

lemma generation_step: "unat (ty_generation (typing_step op st)) \<le> unat (ty_generation st) + 1"
proof (cases op)
  case (T_Start s r w now)
  have "unat (ty_generation st + 1) \<le> unat (ty_generation st) + 1"
    by (simp add: unat_word_ariths)
  with T_Start show ?thesis by (simp add: typing_start_def Let_def split: option.splits)
next
  case (T_Poll g e)
  then show ?thesis by (simp add: typing_poll_def typing_end_def Let_def split: option.splits)
next
  case (T_Stop r)
  then show ?thesis by (simp add: typing_stop_def split: option.splits)
next
  case (T_Stop_Session s)
  then show ?thesis by (simp add: typing_stop_session_def)
qed

lemma typing_wf_step:
  "typing_wf st \<Longrightarrow> unat (ty_generation st) + 1 < 2 ^ 64 \<Longrightarrow> typing_wf (typing_step op st)"
  by (cases op) (simp_all add: typing_wf_start typing_wf_poll typing_wf_stop typing_stop_session_def typing_wf_stops)

lemma typing_wf_run:
  "typing_wf st \<Longrightarrow> unat (ty_generation st) + length ops < 2 ^ 64 \<Longrightarrow> typing_wf (typing_run ops st)"
proof (induction ops arbitrary: st)
  case (Cons op ops)
  have "typing_wf (typing_step op st)"
    using Cons.prems by (intro typing_wf_step) simp_all
  moreover have "unat (ty_generation (typing_step op st)) + length ops < 2 ^ 64"
    using generation_step [of op st] Cons.prems by simp
  ultimately show ?case
    using Cons.IH by (simp add: typing_run_def)
qed (simp add: typing_run_def)

text \<open>No refresh of the room is left that would report a silence.\<close>

definition no_watch :: "string \<Rightarrow> typing_state \<Rightarrow> bool" where
  "no_watch r st = (\<forall>l \<in> set (ty_loops st). tl_room l = r \<longrightarrow> tl_cancel l \<or> \<not> tl_watch l)"

lemma no_watch_stop: "typing_wf st \<Longrightarrow> no_watch r (typing_stop r st)"
proof -
  assume "typing_wf st"
  then have wf: "typing_wf (typing_stop r st)" by (rule typing_wf_stop)
  have "map_of (ty_tasks (typing_stop r st)) r = None"
    by (auto simp: typing_stop_def delete_conv' split: option.splits)
  then show ?thesis
    using live_loop_task [OF wf] by (fastforce simp: no_watch_def)
qed

lemma no_watch_start: "typing_wf st \<Longrightarrow> no_watch r (typing_start s r False now st)"
proof -
  assume wf: "typing_wf st"
  have "tl_generation l = tt_generation t" if "map_of (ty_tasks st) r = Some t" "l \<in> set (ty_loops st)" "tl_room l = r" "\<not> tl_cancel l" for l t
    using live_loop_task [OF wf that(2,4)] that(1,3) by simp
  moreover have "tl_cancel l" if "map_of (ty_tasks st) r = None" "l \<in> set (ty_loops st)" "tl_room l = r" for l
    using live_loop_task [OF wf that(2)] that(1,3) by (cases "tl_cancel l") auto
  ultimately show ?thesis
    by (fastforce simp: no_watch_def typing_start_def on_loop_def Let_def split: option.splits)
qed

lemma poll_no_watch:
  assumes "no_watch r st"
  shows "filter (\<lambda>x. si_room_id x = r) (ty_silence (typing_poll g e st)) = filter (\<lambda>x. si_room_id x = r) (ty_silence st)"
proof (cases "find (\<lambda>l. tl_generation l = g) (ty_loops st)")
  case (Some l)
  then have "l \<in> set (ty_loops st)" by (auto simp: find_Some_iff)
  with assms have "tl_room l = r \<longrightarrow> tl_cancel l \<or> \<not> tl_watch l" by (simp add: no_watch_def)
  then show ?thesis by (auto simp: typing_poll_def Some typing_end_def Let_def)
qed (simp add: typing_poll_def)

lemma stops_room:
  "map_of (ty_tasks st) r = None \<Longrightarrow> map_of (ty_tasks (fold typing_stop rs st)) r = None"
proof (induction rs arbitrary: st)
  case (Cons q rs)
  have "map_of (ty_tasks (typing_stop q st)) r = None"
    using Cons.prems by (auto simp: typing_stop_def delete_conv' split: option.splits)
  with Cons.IH show ?case by simp
qed simp

lemma stops_all: "r \<in> set rs \<Longrightarrow> map_of (ty_tasks (fold typing_stop rs st)) r = None"
proof (induction rs arbitrary: st)
  case (Cons q rs)
  have "map_of (ty_tasks (typing_stop q st)) q = None"
    by (auto simp: typing_stop_def delete_conv' split: option.splits)
  with Cons stops_room show ?case by (cases "r = q") auto
qed simp

lemma stops_task_before:
  "map_of (ty_tasks (fold typing_stop rs st)) r = Some t \<Longrightarrow> map_of (ty_tasks st) r = Some t"
proof (induction rs arbitrary: st)
  case (Cons q rs)
  then have "map_of (ty_tasks (typing_stop q st)) r = Some t" by simp
  then show ?case by (auto simp: typing_stop_def delete_conv' split: option.splits if_splits)
qed simp

lemma stop_session_task:
  "map_of (ty_tasks (typing_stop_session s st)) r = Some t \<Longrightarrow> tt_session t \<noteq> s"
proof
  assume t: "map_of (ty_tasks (typing_stop_session s st)) r = Some t" and s: "tt_session t = s"
  have "map_of (ty_tasks st) r = Some t"
    by (rule stops_task_before [OF t [unfolded typing_stop_session_def]])
  then have "r \<in> set (map fst (filter (\<lambda>(r, t). tt_session t = s) (ty_tasks st)))"
    using s map_of_SomeD by force
  from stops_all [OF this] t show False by (simp add: typing_stop_session_def)
qed

section \<open>Properties\<close>

text \<open>
  After any sequence of starts, polls and stops a room has at most one live typing
  refresh; stopping a session's refreshes cancels all of them; and once a room has seen a
  visible action (the refresh stopped, or started again without a watch) no refresh of that
  room reports the session as silent. The bound on the length keeps the generation counter
  from wrapping around.
\<close>

theorem typing_refreshes:
  assumes "length ops < 2 ^ 64"
  shows "let st = typing_run ops typing_empty in
    (\<forall>k \<in> set (ty_loops st). \<forall>l \<in> set (ty_loops st).
       \<not> tl_cancel k \<and> \<not> tl_cancel l \<and> tl_room k = tl_room l \<longrightarrow> k = l) \<and>
    (\<forall>s. \<forall>l \<in> set (ty_loops (typing_stop_session s st)). tl_session l = s \<longrightarrow> tl_cancel l) \<and>
    (\<forall>r s now g e. \<forall>st' \<in> {typing_stop r st, typing_start s r False now st}.
       filter (\<lambda>x. si_room_id x = r) (ty_silence (typing_poll g e st')) =
       filter (\<lambda>x. si_room_id x = r) (ty_silence st'))"
proof -
  define st where "st = typing_run ops typing_empty"
  have wf: "typing_wf st"
    using assms unfolding st_def by (intro typing_wf_run typing_wf_empty) (simp add: typing_empty_def)
  have one: "k = l" if "k \<in> set (ty_loops st)" "l \<in> set (ty_loops st)" "\<not> tl_cancel k" "\<not> tl_cancel l" "tl_room k = tl_room l" for k l
    using live_loop_task [OF wf that(1,3)] live_loop_task [OF wf that(2,4)] that wf
      loop_unique [of "ty_loops st" k l] by (simp add: typing_wf_def)
  have wf': "typing_wf (typing_stop_session s st)" for s
    using wf by (simp add: typing_stop_session_def typing_wf_stops)
  have session: "tl_cancel l" if "l \<in> set (ty_loops (typing_stop_session s st))" "tl_session l = s" for l s
    using live_loop_task [OF wf' that(1)] stop_session_task [of s st "tl_room l"] that(2) by fastforce
  show ?thesis
    unfolding Let_def st_def [symmetric]
    using one session poll_no_watch no_watch_stop [OF wf] no_watch_start [OF wf] by blast
qed

theorem typing_refreshes_witness:
  "let st = typing_start ''alice'' ''!r'' False 9 (typing_run [T_Start ''alice'' ''!r'' True 5] typing_empty)
   in filter (\<lambda>x. si_room_id x = ''!r'') (ty_silence (typing_poll 1 700000 st)) = [] \<and> length (ty_loops st) = 1"
proof -
  let ?st0 = "typing_run [T_Start ''alice'' ''!r'' True 5] typing_empty"
  have st: "ty_silence (typing_start ''alice'' ''!r'' False 9 ?st0) = []"
      "length (ty_loops (typing_start ''alice'' ''!r'' False 9 ?st0)) = 1"
    by code_simp+
  have "\<forall>r s now g e. \<forall>st' \<in> {typing_stop r ?st0, typing_start s r False now ?st0}.
      filter (\<lambda>x. si_room_id x = r) (ty_silence (typing_poll g e st')) =
      filter (\<lambda>x. si_room_id x = r) (ty_silence st')"
    using typing_refreshes [of "[T_Start ''alice'' ''!r'' True 5]"] unfolding Let_def by simp
  then have "filter (\<lambda>x. si_room_id x = ''!r'') (ty_silence (typing_poll 1 700000 (typing_start ''alice'' ''!r'' False 9 ?st0))) =
      filter (\<lambda>x. si_room_id x = ''!r'') (ty_silence (typing_start ''alice'' ''!r'' False 9 ?st0))"
    by blast
  with st show ?thesis by (simp only: Let_def filter.simps simp_thms)
qed

end
