(* ===== verification/Content.thy ===== *)
theory Content
  imports Rust_Str
begin

text \<open>
  Reading the content of room messages (\<open>crates/siltad/src/content.rs\<close>). The event types of
  the Matrix SDK appear as far as the source looks at them; the SDK's removal of the quoted
  fallback and the MIME type guessed from a file name are parameters.
\<close>

section \<open>The SDK's message content\<close>

datatype relation =
    Rel_Replacement
  | Rel_Reply string
  | Rel_Thread string "string option" bool
  | Rel_Other

record media_content =
  mc_body :: string
  mc_filename :: "string option"
  mc_mimetype :: "string option"
  mc_size :: "u64 option"
  mc_source :: string

datatype message_type =
    MT_Text string
  | MT_Emote string
  | MT_Image media_content
  | MT_File media_content
  | MT_Audio media_content
  | MT_Video media_content
  | MT_Other string

record message_content =
  relates_to :: "relation option"
  msgtype :: message_type

section \<open>The operations\<close>

record media =
  md_name :: string
  md_mime :: string
  md_size :: "u64 option"
  md_caption :: string
  md_source :: string

datatype body = B_Text string | B_Media media | B_Edit | B_Other string

record parsed =
  pa_in_reply_to :: "string option"
  pa_thread :: "string option"
  pa_body :: body

definition media_of :: "(string \<Rightarrow> string option) \<Rightarrow> media_content \<Rightarrow> media" where
  "media_of guess c =
     (let (name, caption) =
        (case mc_filename c of
           Some f \<Rightarrow> if f \<noteq> mc_body c then (f, mc_body c) else (f, [])
         | None \<Rightarrow> (mc_body c, []));
          mime = (case mc_mimetype c of
             Some m \<Rightarrow> m
           | None \<Rightarrow> (case guess name of Some m \<Rightarrow> m | None \<Rightarrow> ''application/octet-stream''))
      in \<lparr>md_name = name, md_mime = mime, md_size = mc_size c, md_caption = caption, md_source = mc_source c\<rparr>)"

text \<open>The quoted event, the thread root, and whether the body starts with a quoted fallback.\<close>

definition relation_of :: "relation option \<Rightarrow> string option \<times> string option \<times> bool" where
  "relation_of r =
     (case r of
        Some (Rel_Reply e) \<Rightarrow> (Some e, None, True)
      | Some (Rel_Thread root (Some e) falling_back) \<Rightarrow>
          (if falling_back then None else Some e, Some root, True)
      | Some (Rel_Thread root None falling_back) \<Rightarrow> (None, Some root, False)
      | _ \<Rightarrow> (None, None, False))"

definition parse_content ::
  "(string \<Rightarrow> string) \<Rightarrow> (string \<Rightarrow> string option) \<Rightarrow> message_content \<Rightarrow> parsed"
where
  "parse_content remove_fallback guess c =
     (if relates_to c = Some Rel_Replacement
      then \<lparr>pa_in_reply_to = None, pa_thread = None, pa_body = B_Edit\<rparr>
      else let (in_reply_to, thread, fallback) = relation_of (relates_to c);
               strip = (\<lambda>b. if fallback then remove_fallback b else b);
               b = (case msgtype c of
                  MT_Text t \<Rightarrow> B_Text (strip t)
                | MT_Emote t \<Rightarrow> B_Text (''/me '' @ strip t)
                | MT_Image m \<Rightarrow> B_Media (media_of guess m)
                | MT_File m \<Rightarrow> B_Media (media_of guess m)
                | MT_Audio m \<Rightarrow> B_Media (media_of guess m)
                | MT_Video m \<Rightarrow> B_Media (media_of guess m)
                | MT_Other t \<Rightarrow> B_Other t)
           in \<lparr>pa_in_reply_to = in_reply_to, pa_thread = thread, pa_body = b\<rparr>)"

section \<open>Facts\<close>

lemma parse_content_edit:
  "pa_body (parse_content rf g c) = B_Edit \<longleftrightarrow> relates_to c = Some Rel_Replacement"
  by (auto simp: parse_content_def Let_def split: prod.splits message_type.splits)

lemma media_of_file_name:
  "md_name (media_of g c) = (case mc_filename c of Some f \<Rightarrow> f | None \<Rightarrow> mc_body c)"
  "md_caption (media_of g c) \<noteq> [] \<Longrightarrow> mc_filename c \<noteq> None \<and> md_caption (media_of g c) = mc_body c"
  by (auto simp: media_of_def Let_def split: option.splits prod.splits if_splits)

end
