(* ===== verification/Outbound.thy ===== *)
theory Outbound
  imports Daemon_State Content
begin

text \<open>
  Outbound commands (\<open>crates/siltad/src/outbound.rs\<close> and \<open>Daemon::execute\<close>): the policy
  checks, replies in chunks, reactions, edits, files and history. The Matrix SDK is the
  record \<open>sdk\<close>: what it answers to the requests the source makes, with the number of
  requests sent so far as an argument of \<open>sd_send\<close> so that answers may differ from one
  call to the next. The texts of failures are the constructors of \<open>fail_text\<close>, rendered by
  \<open>sd_show\<close>. A panic (\<open>expect\<close>, \<open>assert!\<close>) is \<open>None\<close>. Typing notices are fire and forget and
  leave no trace in the model; the refresh they belong to does.
\<close>

section \<open>What the SDK offers\<close>

datatype enforce_thread = Threaded_Yes | Threaded_No | Maybe_Threaded

record reply_config =
  rcf_event_id :: string
  rcf_enforce_thread :: enforce_thread

datatype outgoing =
    Out_Text string "reply_config option"
  | Out_Plain string
  | Out_Reaction string string
  | Out_Edit string string
  | Out_File string string string "string option" "reply_config option"

record message_event =
  me_event_id :: string
  me_sender :: string
  me_ts :: u64
  me_content :: message_content

datatype raw_event = Raw_Message message_event | Raw_Other u64 | Raw_Unreadable string

record timeline_event =
  te_sender :: "string option"
  te_raw :: raw_event

record page =
  pg_chunk :: "timeline_event list"
  pg_end :: "string option"

datatype relate_error = Relate_Fetch string | Relate_Other string

datatype fail_text =
    Not_A_Room_Id string
  | Bot_Not_In string
  | Bot_Not_Joined string
  | Cannot_List_Members string string
  | May_Not_Send string string
  | May_Not_Read string string
  | Not_An_Event_Id string
  | Cannot_Fetch_Relation string
  | Relation_Refused string
  | Text_Is_Empty
  | Emoji_Is_Empty
  | Sending_Failed string nat nat string
  | Reacting_Failed string string
  | Edit_Too_Long nat
  | Cannot_Fetch string string
  | Not_Own_Message string
  | Is_An_Edit string
  | Not_A_Message string
  | Cannot_Read_Event string string
  | Editing_Failed string string string
  | Over_Server_Limit string u64 u64
  | Cannot_Read_File
  | Upload_Failed string string string
  | History_Failed string string
  | Invalid_Regex string
  | Not_Registered_Message string
  | Send_File_Per_Connection

record sdk = client +
  sd_send :: "nat \<Rightarrow> string \<Rightarrow> outgoing \<Rightarrow> string + string"
  sd_relate :: "string \<Rightarrow> string \<Rightarrow> reply_config \<Rightarrow> relate_error + bool"
  sd_event :: "string \<Rightarrow> string \<Rightarrow> string + timeline_event"
  sd_messages :: "string \<Rightarrow> nat \<Rightarrow> string option \<Rightarrow> u32 \<Rightarrow> string + page"
  sd_upload_limit :: "u64 option"
  sd_regex :: "string \<Rightarrow> string + (string \<Rightarrow> nat option)"
  sd_remove_fallback :: "string \<Rightarrow> string"
  sd_guess_mime :: "string \<Rightarrow> string option"
  sd_parse_mime :: "string \<Rightarrow> string option"
  sd_exts :: "string \<Rightarrow> string list option"
  sd_show :: "fail_text \<Rightarrow> string"

text \<open>The daemon and the requests made so far: room, content and answer.\<close>

record world =
  wd_daemon :: daemon
  wd_posts :: "(string \<times> outgoing \<times> (string + string)) list"

type_synonym fail = "result_error \<times> fail_text"

definition OUT_CHUNK_BYTES :: nat where
  "OUT_CHUNK_BYTES = 8 * 1024"

definition HISTORY_DEFAULT :: u32 where
  "HISTORY_DEFAULT = 20"

definition HISTORY_MAX :: u32 where
  "HISTORY_MAX = 100"

definition HISTORY_MAX_PAGES :: nat where
  "HISTORY_MAX_PAGES = 5"

definition SEARCH_PAGE :: u32 where
  "SEARCH_PAGE = 100"

definition SEARCH_MAX_PAGES :: nat where
  "SEARCH_MAX_PAGES = 10"

definition bad :: "fail_text \<Rightarrow> fail" where
  "bad t = (RE_BadRequest, t)"

section \<open>Rooms\<close>

definition joined_room :: "sdk \<Rightarrow> string \<Rightarrow> fail + sdk_room" where
  "joined_room sdk room_id =
     (if \<not> cl_room_id_ok sdk room_id then Inl (bad (Not_A_Room_Id room_id))
      else case cl_get_room sdk room_id of
        None \<Rightarrow> Inl (RE_RoomUnknown, Bot_Not_In room_id)
      | Some room \<Rightarrow>
          if sr_joined room then Inr room else Inl (RE_RoomUnknown, Bot_Not_Joined room_id))"

definition member_ids :: "sdk_room \<Rightarrow> fail + string list" where
  "member_ids room =
     (case sr_members room of
        Inl e \<Rightarrow> Inl (RE_SendFailed, Cannot_List_Members (sr_room_id room) e)
      | Inr ms \<Rightarrow> Inr ms)"

definition room_shape_of :: "sdk_room \<Rightarrow> room_shape" where
  "room_shape_of room =
     \<lparr>direct = (case sr_direct room of Inl _ \<Rightarrow> False | Inr b \<Rightarrow> b), named = sr_named room\<rparr>"

definition writable_room :: "sdk \<Rightarrow> daemon \<Rightarrow> string \<Rightarrow> string \<Rightarrow> fail + sdk_room" where
  "writable_room sdk d session room_id =
     (case joined_room sdk room_id of
        Inl e \<Rightarrow> Inl e
      | Inr room \<Rightarrow>
          (case member_ids room of
             Inl e \<Rightarrow> Inl e
           | Inr ms \<Rightarrow>
               (case may_send session (sr_room_id room) ms (room_shape_of room) (dm_routing d) of
                  Inl _ \<Rightarrow> Inl (RE_RoomNotAllowed, May_Not_Send session (sr_room_id room))
                | Inr _ \<Rightarrow> Inr room)))"

definition readable_room :: "sdk \<Rightarrow> daemon \<Rightarrow> string \<Rightarrow> string \<Rightarrow> fail + sdk_room" where
  "readable_room sdk d session room_id =
     (case joined_room sdk room_id of
        Inl e \<Rightarrow> Inl e
      | Inr room \<Rightarrow>
          (case member_ids room of
             Inl e \<Rightarrow> Inl e
           | Inr ms \<Rightarrow>
               (case may_read session (sr_room_id room) ms (room_shape_of room) (dm_routing d) of
                  Inl _ \<Rightarrow> Inl (RE_RoomNotAllowed, May_Not_Read session (sr_room_id room))
                | Inr _ \<Rightarrow> Inr room)))"

definition parse_event_id :: "sdk \<Rightarrow> string \<Rightarrow> fail + string" where
  "parse_event_id sdk s = (if cl_event_id_ok sdk s then Inr s else Inl (bad (Not_An_Event_Id s)))"

definition parse_optional_event_id :: "sdk \<Rightarrow> string option \<Rightarrow> fail + string option" where
  "parse_optional_event_id sdk s =
     (case s of None \<Rightarrow> Inr None | Some e \<Rightarrow> map_sum id Some (parse_event_id sdk e))"

definition reply_config_of :: "string option \<Rightarrow> string option \<Rightarrow> reply_config option" where
  "reply_config_of reply_to thread =
     (case (reply_to, thread) of
        (Some quoted, Some _) \<Rightarrow> Some \<lparr>rcf_event_id = quoted, rcf_enforce_thread = Threaded_Yes\<rparr>
      | (Some quoted, None) \<Rightarrow> Some \<lparr>rcf_event_id = quoted, rcf_enforce_thread = Maybe_Threaded\<rparr>
      | (None, Some root) \<Rightarrow> Some \<lparr>rcf_event_id = root, rcf_enforce_thread = Threaded_No\<rparr>
      | (None, None) \<Rightarrow> None)"

text \<open>Whether the content ends up in a thread, as the SDK decides it from the event related to.\<close>

definition with_relation :: "sdk \<Rightarrow> sdk_room \<Rightarrow> string \<Rightarrow> reply_config option \<Rightarrow> fail + bool" where
  "with_relation sdk room content config =
     (case config of
        None \<Rightarrow> Inr False
      | Some c \<Rightarrow>
          (case sd_relate sdk (sr_room_id room) content c of
             Inr threaded \<Rightarrow> Inr threaded
           | Inl (Relate_Fetch e) \<Rightarrow> Inl (RE_NotFound, Cannot_Fetch_Relation e)
           | Inl (Relate_Other e) \<Rightarrow> Inl (bad (Relation_Refused e))))"

section \<open>Sending\<close>

definition post :: "sdk \<Rightarrow> sdk_room \<Rightarrow> outgoing \<Rightarrow> world \<Rightarrow> (string + string) \<times> world" where
  "post sdk room x w =
     (let a = sd_send sdk (length (wd_posts w)) (sr_room_id room) x
      in (a, w\<lparr>wd_posts := wd_posts w @ [(sr_room_id room, x, a)]\<rparr>))"

definition on_typing :: "(typing_state \<Rightarrow> typing_state) \<Rightarrow> world \<Rightarrow> world" where
  "on_typing f w = w\<lparr>wd_daemon := (wd_daemon w)\<lparr>dm_typing := f (dm_typing (wd_daemon w))\<rparr>\<rparr>"

definition stop_typing :: "sdk_room \<Rightarrow> world \<Rightarrow> world" where
  "stop_typing room = on_typing (typing_stop (sr_room_id room))"

definition after_send :: "string \<Rightarrow> sdk_room \<Rightarrow> bool \<Rightarrow> u64 \<Rightarrow> world \<Rightarrow> world" where
  "after_send session room coming now w =
     (if coming then on_typing (typing_start session (sr_room_id room) False now) w else stop_typing room w)"

text \<open>The relation of chunk \<open>i\<close>; \<open>None\<close> is the \<open>expect\<close> of a chunk sent before.\<close>

definition reply_rel :: "reply_config option \<Rightarrow> nat \<Rightarrow> bool \<Rightarrow> string option \<Rightarrow> reply_config option option" where
  "reply_rel config i in_thread last_id =
     (if i = 0 then Some config
      else if in_thread
      then map_option (\<lambda>e. Some \<lparr>rcf_event_id = e, rcf_enforce_thread = Maybe_Threaded\<rparr>) last_id
      else Some None)"

fun reply_loop ::
  "sdk \<Rightarrow> sdk_room \<Rightarrow> reply_config option \<Rightarrow> nat \<Rightarrow> nat \<Rightarrow> string option \<Rightarrow> bool \<Rightarrow> string list \<Rightarrow> world \<Rightarrow>
     (fail + string option) option \<times> world"
where
  "reply_loop sdk room config n_chunks i last_id in_thread [] w = (Some (Inr last_id), w)"
| "reply_loop sdk room config n_chunks i last_id in_thread (chunk # chunks) w =
     (case reply_rel config i in_thread last_id of
        None \<Rightarrow> (None, w)
      | Some rel \<Rightarrow>
          (case with_relation sdk room chunk rel of
             Inl e \<Rightarrow> (Some (Inl e), w)
           | Inr threaded \<Rightarrow>
               (case post sdk room (Out_Text chunk rel) w of
                  (Inl e, w') \<Rightarrow>
                    (Some (Inl (RE_SendFailed, Sending_Failed (sr_room_id room) i n_chunks e)), stop_typing room w')
                | (Inr eid, w') \<Rightarrow>
                    reply_loop sdk room config n_chunks (i + 1) (Some eid)
                      (if i = 0 then threaded else in_thread) chunks w')))"

definition do_reply :: "sdk \<Rightarrow> string \<Rightarrow> u64 \<Rightarrow> reply \<Rightarrow> world \<Rightarrow> (fail + string) option \<times> world" where
  "do_reply sdk session now r w =
     (if trim (rp_text r) = [] then (Some (Inl (bad Text_Is_Empty)), w)
      else case parse_optional_event_id sdk (rp_reply_to r) of
        Inl e \<Rightarrow> (Some (Inl e), w)
      | Inr reply_to \<Rightarrow>
        (case parse_optional_event_id sdk (rp_thread r) of
          Inl e \<Rightarrow> (Some (Inl e), w)
        | Inr thread \<Rightarrow>
          (case writable_room sdk (wd_daemon w) session (rp_room_id r) of
            Inl e \<Rightarrow> (Some (Inl e), w)
          | Inr room \<Rightarrow>
            (case chunk_text (rp_text r) OUT_CHUNK_BYTES of
              None \<Rightarrow> (None, w)
            | Some chunks \<Rightarrow>
              (case reply_loop sdk room (reply_config_of reply_to thread) (length chunks) 0 None False chunks w of
                (None, w') \<Rightarrow> (None, w')
              | (Some (Inl e), w') \<Rightarrow> (Some (Inl e), w')
              | (Some (Inr last_id), w') \<Rightarrow>
                  (map_option Inr last_id, after_send session room (rp_more r) now w'))))))"

definition do_react :: "sdk \<Rightarrow> string \<Rightarrow> u64 \<Rightarrow> react \<Rightarrow> world \<Rightarrow> (fail + string) \<times> world" where
  "do_react sdk session now r w =
     (if trim (rc_emoji r) = [] then (Inl (bad Emoji_Is_Empty), w)
      else case parse_event_id sdk (rc_event_id r) of
        Inl e \<Rightarrow> (Inl e, w)
      | Inr target \<Rightarrow>
        (case writable_room sdk (wd_daemon w) session (rc_room_id r) of
          Inl e \<Rightarrow> (Inl e, w)
        | Inr room \<Rightarrow>
          (case post sdk room (Out_Reaction target (rc_emoji r)) w of
            (Inl e, w') \<Rightarrow> (Inl (RE_SendFailed, Reacting_Failed (sr_room_id room) e), w')
          | (Inr eid, w') \<Rightarrow> (Inr eid, after_send session room (rc_more r) now w'))))"

definition edit_target_ok :: "daemon \<Rightarrow> string \<Rightarrow> timeline_event \<Rightarrow> fail option" where
  "edit_target_ok d target original =
     (if \<not> (case te_sender original of Some s \<Rightarrow> is_bot s (dm_routing d) | None \<Rightarrow> False)
      then Some (RE_NotFound, Not_Own_Message target)
      else case te_raw original of
        Raw_Message m \<Rightarrow>
          if relates_to (me_content m) = Some Rel_Replacement then Some (bad (Is_An_Edit target)) else None
      | Raw_Other _ \<Rightarrow> Some (bad (Not_A_Message target))
      | Raw_Unreadable e \<Rightarrow> Some (RE_NotFound, Cannot_Read_Event target e))"

definition do_edit :: "sdk \<Rightarrow> string \<Rightarrow> u64 \<Rightarrow> edit \<Rightarrow> world \<Rightarrow> (fail + string) \<times> world" where
  "do_edit sdk session now r w =
     (if trim (ed_text r) = [] then (Inl (bad Text_Is_Empty), w)
      else if length (ed_text r) > OUT_CHUNK_BYTES then (Inl (bad (Edit_Too_Long (length (ed_text r)))), w)
      else case parse_event_id sdk (ed_event_id r) of
        Inl e \<Rightarrow> (Inl e, w)
      | Inr target \<Rightarrow>
        (case writable_room sdk (wd_daemon w) session (ed_room_id r) of
          Inl e \<Rightarrow> (Inl e, w)
        | Inr room \<Rightarrow>
          (case sd_event sdk (sr_room_id room) target of
            Inl e \<Rightarrow> (Inl (RE_NotFound, Cannot_Fetch target e), w)
          | Inr original \<Rightarrow>
            (case edit_target_ok (wd_daemon w) target original of
              Some e \<Rightarrow> (Inl e, w)
            | None \<Rightarrow>
              (case post sdk room (Out_Edit target (ed_text r)) w of
                (Inl e, w') \<Rightarrow> (Inl (RE_SendFailed, Editing_Failed target (sr_room_id room) e), w')
              | (Inr eid, w') \<Rightarrow> (Inr eid, after_send session room (ed_more r) now w'))))))"

definition do_send_file ::
  "sdk \<Rightarrow> string \<Rightarrow> u64 \<Rightarrow> send_file \<Rightarrow> received_file \<Rightarrow> world \<Rightarrow> (fail + string) \<times> world"
where
  "do_send_file sdk session now c f w =
     (let nm = safe_name (sd_exts sdk) (fh_name (rd_header f)) (fh_mime (rd_header f));
          size = fh_size (rd_header f)
      in case parse_optional_event_id sdk (sf_reply_to c) of
        Inl e \<Rightarrow> (Inl e, w)
      | Inr reply_to \<Rightarrow>
        (case parse_optional_event_id sdk (sf_thread c) of
          Inl e \<Rightarrow> (Inl e, w)
        | Inr thread \<Rightarrow>
          (case writable_room sdk (wd_daemon w) session (sf_room_id c) of
            Inl e \<Rightarrow> (Inl e, w)
          | Inr room \<Rightarrow>
            (case (case sd_upload_limit sdk of
                     Some m \<Rightarrow> if size > m then Some (RE_FileError, Over_Server_Limit nm size m) else None
                   | None \<Rightarrow> None) of
              Some e \<Rightarrow> (Inl e, w)
            | None \<Rightarrow>
              (case file_at (dm_fs (wd_daemon w)) (rd_path f) of
                None \<Rightarrow> (Inl (RE_FileError, Cannot_Read_File), w)
              | Some data \<Rightarrow>
                let mime = (case sd_parse_mime sdk (fh_mime (rd_header f)) of
                              Some m \<Rightarrow> m | None \<Rightarrow> ''application/octet-stream'');
                    caption = (case sf_caption c of Some t \<Rightarrow> if trim t = [] then None else Some t | None \<Rightarrow> None)
                in (case post sdk room (Out_File nm mime data caption (reply_config_of reply_to thread)) w of
                  (Inl e, w') \<Rightarrow> (Inl (RE_SendFailed, Upload_Failed nm (sr_room_id room) e), w')
                | (Inr eid, w') \<Rightarrow> (Inr eid, after_send session room (sf_more c) now w')))))))"

section \<open>History\<close>

definition history_message_of :: "sdk \<Rightarrow> daemon \<Rightarrow> timeline_event \<Rightarrow> history_message option" where
  "history_message_of sdk d ev =
     (case te_raw ev of
        Raw_Message m \<Rightarrow>
          let own = is_bot (me_sender m) (dm_routing d);
              known = person_for (me_sender m) (dm_routing d);
              who = (if own then Some None else map_option Some known);
              p = parse_content (sd_remove_fallback sdk) (sd_guess_mime sdk) (me_content m);
              body = (case pa_body p of
                 B_Text t \<Rightarrow> Some (t, [])
               | B_Media x \<Rightarrow>
                   Some (md_caption x,
                     [\<lparr>ha_name = md_name x, ha_mime = md_mime x,
                       ha_size = (case md_size x of Some n \<Rightarrow> n | None \<Rightarrow> 0)\<rparr>])
               | B_Edit \<Rightarrow> None
               | B_Other _ \<Rightarrow> None)
          in (case (who, body) of
                (Some pc, Some (t, atts)) \<Rightarrow>
                  Some \<lparr>hm_event_id = me_event_id m, hm_sender = me_sender m,
                        hm_person = map_option pc_name pc, hm_role = map_option pc_role pc, hm_own = own,
                        hm_ts = rfc3339_utc (me_ts m), hm_in_reply_to = pa_in_reply_to p, hm_thread = pa_thread p,
                        hm_text = t, hm_match_start = None, hm_attachments = atts\<rparr>
              | _ \<Rightarrow> None)
      | Raw_Other _ \<Rightarrow> None
      | Raw_Unreadable _ \<Rightarrow> None)"

record scan =
  sc_messages :: "history_message list"
  sc_more :: "string option"
  sc_scanned :: u64
  sc_until :: "string option"

definition raw_ts :: "raw_event \<Rightarrow> u64 option" where
  "raw_ts e = (case e of Raw_Message m \<Rightarrow> Some (me_ts m) | Raw_Other t \<Rightarrow> Some t | Raw_Unreadable _ \<Rightarrow> None)"

definition scan_event ::
  "sdk \<Rightarrow> daemon \<Rightarrow> (history_message \<Rightarrow> history_message option) \<Rightarrow> timeline_event \<Rightarrow>
     history_message list \<times> u64 \<times> string option \<Rightarrow> history_message list \<times> u64 \<times> string option"
where
  "scan_event sdk d keep ev = (\<lambda>(out, scanned, til).
     (case Option.bind (history_message_of sdk d ev) keep of Some m \<Rightarrow> out @ [m] | None \<Rightarrow> out,
      scanned + 1,
      case raw_ts (te_raw ev) of Some t \<Rightarrow> Some (rfc3339_utc t) | None \<Rightarrow> til))"

function scan_loop ::
  "sdk \<Rightarrow> daemon \<Rightarrow> sdk_room \<Rightarrow> u32 \<Rightarrow> nat \<Rightarrow> nat \<Rightarrow> (history_message \<Rightarrow> history_message option) \<Rightarrow>
     string option \<Rightarrow> nat \<Rightarrow> history_message list \<times> u64 \<times> string option \<Rightarrow> fail + scan \<times> nat"
where
  "scan_loop sdk d room page_size wanted max_pages keep from_token pages acc =
     (case sd_messages sdk (sr_room_id room) pages from_token page_size of
        Inl e \<Rightarrow> Inl (RE_SendFailed, History_Failed (sr_room_id room) e)
      | Inr pg \<Rightarrow>
          let pages = pages + 1; acc = fold (scan_event sdk d keep) (pg_chunk pg) acc;
              (out, scanned, til) = acc;
              finish = (\<lambda>token. Inr (\<lparr>sc_messages = out, sc_more = token, sc_scanned = scanned, sc_until = til\<rparr>, pages))
          in (case pg_end pg of
                None \<Rightarrow> finish None
              | Some e \<Rightarrow>
                  if pg_chunk pg = [] then finish None
                  else if length out \<ge> wanted \<or> pages \<ge> max_pages then finish (Some e)
                  else scan_loop sdk d room page_size wanted max_pages keep (Some e) pages acc))"
  by pat_completeness auto
termination
  by (relation "measure (\<lambda>(_, _, _, _, _, max_pages, _, _, pages, _). max_pages - pages)") auto

declare scan_loop.simps [simp del]

definition scan_history ::
  "sdk \<Rightarrow> daemon \<Rightarrow> sdk_room \<Rightarrow> string option \<Rightarrow> u32 \<Rightarrow> nat \<Rightarrow> nat \<Rightarrow>
     (history_message \<Rightarrow> history_message option) \<Rightarrow> fail + scan"
where
  "scan_history sdk d room from_token page_size wanted max_pages keep =
     map_sum id fst (scan_loop sdk d room page_size wanted max_pages keep from_token 0 ([], 0, None))"

definition clamp_limit :: "u32 option \<Rightarrow> u32" where
  "clamp_limit l = (let n = (case l of Some n \<Rightarrow> n | None \<Rightarrow> HISTORY_DEFAULT) in min (max n 1) HISTORY_MAX)"

definition do_fetch_messages ::
  "sdk \<Rightarrow> daemon \<Rightarrow> string \<Rightarrow> fetch_messages \<Rightarrow> fail + history_message list \<times> string option"
where
  "do_fetch_messages sdk d session c =
     (case readable_room sdk d session (fm_room_id c) of
        Inl e \<Rightarrow> Inl e
      | Inr room \<Rightarrow>
          let limit = clamp_limit (fm_limit c)
          in map_sum id (\<lambda>s. (sc_messages s, sc_more s))
               (scan_history sdk d room (fm_from c) limit (unat limit) HISTORY_MAX_PAGES Some))"

definition search_keep :: "(string \<Rightarrow> nat option) \<Rightarrow> history_message \<Rightarrow> history_message option" where
  "search_keep find_re m =
     (case find_re (hm_text m) of
        Some start \<Rightarrow> Some (m\<lparr>hm_match_start := Some (length (chars (take start (hm_text m))))\<rparr>)
      | None \<Rightarrow> if \<exists>a \<in> set (hm_attachments m). find_re (ha_name a) \<noteq> None then Some m else None)"

definition do_search_messages :: "sdk \<Rightarrow> daemon \<Rightarrow> string \<Rightarrow> search_messages \<Rightarrow> fail + scan" where
  "do_search_messages sdk d session c =
     (case sd_regex sdk (sm_pattern c) of
        Inl e \<Rightarrow> Inl (bad (Invalid_Regex e))
      | Inr re \<Rightarrow>
          let limit = clamp_limit (sm_limit c)
          in (case readable_room sdk d session (sm_room_id c) of
                Inl e \<Rightarrow> Inl e
              | Inr room \<Rightarrow>
                  scan_history sdk d room (sm_from c) SEARCH_PAGE (unat limit) SEARCH_MAX_PAGES (search_keep re)))"

definition do_fetch_message :: "sdk \<Rightarrow> daemon \<Rightarrow> string \<Rightarrow> fetch_message \<Rightarrow> fail + history_message" where
  "do_fetch_message sdk d session c =
     (case parse_event_id sdk (f1_event_id c) of
        Inl e \<Rightarrow> Inl e
      | Inr target \<Rightarrow>
        (case readable_room sdk d session (f1_room_id c) of
          Inl e \<Rightarrow> Inl e
        | Inr room \<Rightarrow>
          (case sd_event sdk (sr_room_id room) target of
            Inl e \<Rightarrow> Inl (RE_NotFound, Cannot_Fetch target e)
          | Inr ev \<Rightarrow>
            (case history_message_of sdk d ev of
              None \<Rightarrow> Inl (RE_NotFound, Not_Registered_Message target)
            | Some m \<Rightarrow> Inr m))))"

section \<open>Commands\<close>

definition out_finish :: "sdk \<Rightarrow> u64 \<Rightarrow> fail + string \<Rightarrow> cmd_result" where
  "out_finish sdk i r =
     (case r of
        Inr eid \<Rightarrow> CmdResult_ok i eid
      | Inl (code, t) \<Rightarrow> CmdResult_err i code (sd_show sdk t))"

definition out_reply :: "sdk \<Rightarrow> string \<Rightarrow> u64 \<Rightarrow> u64 \<Rightarrow> reply \<Rightarrow> world \<Rightarrow> cmd_result option \<times> world" where
  "out_reply sdk session now i r w = map_prod (map_option (out_finish sdk i)) id (do_reply sdk session now r w)"

definition out_react :: "sdk \<Rightarrow> string \<Rightarrow> u64 \<Rightarrow> u64 \<Rightarrow> react \<Rightarrow> world \<Rightarrow> cmd_result \<times> world" where
  "out_react sdk session now i r w = map_prod (out_finish sdk i) id (do_react sdk session now r w)"

definition out_edit :: "sdk \<Rightarrow> string \<Rightarrow> u64 \<Rightarrow> u64 \<Rightarrow> edit \<Rightarrow> world \<Rightarrow> cmd_result \<times> world" where
  "out_edit sdk session now i r w = map_prod (out_finish sdk i) id (do_edit sdk session now r w)"

definition out_send_file ::
  "sdk \<Rightarrow> string \<Rightarrow> u64 \<Rightarrow> u64 \<Rightarrow> send_file \<Rightarrow> received_file \<Rightarrow> world \<Rightarrow> cmd_result \<times> world"
where
  "out_send_file sdk session now i c f w =
     (let (r, w') = do_send_file sdk session now c f w;
          d = wd_daemon w'
      in (out_finish sdk i r, w'\<lparr>wd_daemon := d\<lparr>dm_fs := fs_remove (rd_path f) (dm_fs d)\<rparr>\<rparr>))"

definition out_fetch_messages :: "sdk \<Rightarrow> daemon \<Rightarrow> string \<Rightarrow> u64 \<Rightarrow> fetch_messages \<Rightarrow> cmd_result" where
  "out_fetch_messages sdk d session i c =
     (case do_fetch_messages sdk d session c of
        Inr (ms, token) \<Rightarrow> CmdResult_history i ms token
      | Inl (code, t) \<Rightarrow> CmdResult_err i code (sd_show sdk t))"

definition out_search_messages :: "sdk \<Rightarrow> daemon \<Rightarrow> string \<Rightarrow> u64 \<Rightarrow> search_messages \<Rightarrow> cmd_result" where
  "out_search_messages sdk d session i c =
     (case do_search_messages sdk d session c of
        Inr s \<Rightarrow> CmdResult_with_scan (sc_scanned s) (sc_until s) (CmdResult_history i (sc_messages s) (sc_more s))
      | Inl (code, t) \<Rightarrow> CmdResult_err i code (sd_show sdk t))"

definition out_fetch_message :: "sdk \<Rightarrow> daemon \<Rightarrow> string \<Rightarrow> u64 \<Rightarrow> fetch_message \<Rightarrow> cmd_result" where
  "out_fetch_message sdk d session i c =
     (case do_fetch_message sdk d session c of
        Inr m \<Rightarrow> CmdResult_history i [m] None
      | Inl (code, t) \<Rightarrow> CmdResult_err i code (sd_show sdk t))"

definition out_typing :: "sdk \<Rightarrow> string \<Rightarrow> u64 \<Rightarrow> u64 \<Rightarrow> typing \<Rightarrow> world \<Rightarrow> cmd_result \<times> world" where
  "out_typing sdk session now i c w =
     (case writable_room sdk (wd_daemon w) session (ty_room_id c) of
        Inr room \<Rightarrow> (CmdResult_done i, on_typing (typing_start session (sr_room_id room) False now) w)
      | Inl (code, t) \<Rightarrow> (CmdResult_err i code (sd_show sdk t), w))"

definition execute :: "sdk \<Rightarrow> string \<Rightarrow> u64 \<Rightarrow> cmd \<Rightarrow> world \<Rightarrow> cmd_result option \<times> world" where
  "execute sdk session now c w =
     (let i = cmd_id c; ok = map_prod Some (\<lambda>w. w)
      in case cmd_kind c of
           CReply r \<Rightarrow> out_reply sdk session now i r w
         | CReact r \<Rightarrow> ok (out_react sdk session now i r w)
         | CEdit r \<Rightarrow> ok (out_edit sdk session now i r w)
         | CSendFile _ \<Rightarrow> ok (CmdResult_err i RE_BadRequest (sd_show sdk Send_File_Per_Connection), w)
         | CFetchMessages f \<Rightarrow> ok (out_fetch_messages sdk (wd_daemon w) session i f, w)
         | CFetchMessage f \<Rightarrow> ok (out_fetch_message sdk (wd_daemon w) session i f, w)
         | CSearchMessages f \<Rightarrow> ok (out_search_messages sdk (wd_daemon w) session i f, w)
         | CTyping t \<Rightarrow> ok (out_typing sdk session now i t w))"

section \<open>What is posted\<close>

text \<open>A room the bot is joined to and the session's policy lets it write to.\<close>

definition may_post :: "sdk \<Rightarrow> daemon \<Rightarrow> string \<Rightarrow> string \<Rightarrow> bool" where
  "may_post sdk d session room_id =
     (\<exists>q room ms. cl_get_room sdk q = Some room \<and> sr_joined room \<and> sr_room_id room = room_id \<and>
        sr_members room = Inr ms \<and> may_send session room_id ms (room_shape_of room) (dm_routing d) = Inr ())"

definition posted_only :: "(string \<Rightarrow> bool) \<Rightarrow> world \<Rightarrow> world \<Rightarrow> bool" where
  "posted_only P w w' = (\<exists>new. wd_posts w' = wd_posts w @ new \<and> (\<forall>x \<in> set new. P (fst x)))"

lemma posted_only_refl [simp, intro]: "posted_only P w w"
  by (simp add: posted_only_def)

lemma posted_only_trans: "posted_only P u v \<Longrightarrow> posted_only P v w \<Longrightarrow> posted_only P u w"
  by (fastforce simp: posted_only_def)

lemma posted_only_typing [simp]:
  "posted_only P w (on_typing f v) = posted_only P w v" "posted_only P w (stop_typing room v) = posted_only P w v"
  "posted_only P w (after_send s room m now v) = posted_only P w v"
  by (auto simp: posted_only_def on_typing_def stop_typing_def after_send_def)

lemma posted_only_post:
  "P (sr_room_id room) \<Longrightarrow> post sdk room x w = (a, w') \<Longrightarrow> posted_only P w w'"
  by (auto simp: posted_only_def post_def Let_def)

lemma writable_room_may_post:
  "writable_room sdk d session q = Inr room \<Longrightarrow> may_post sdk d session (sr_room_id room)"
  by (auto simp: writable_room_def joined_room_def member_ids_def may_post_def split: sum.splits option.splits if_splits)

lemma reply_loop_posted:
  "P (sr_room_id room) \<Longrightarrow> reply_loop sdk room config n i l t chunks w = (x, w') \<Longrightarrow> posted_only P w w'"
proof (induction chunks arbitrary: i l t w)
  case (Cons c cs)
  then show ?case
    by (auto split: option.splits sum.splits prod.splits if_splits
        dest!: posted_only_post [where P = P] intro: posted_only_trans)
qed auto

lemmas posting = posted_only_post reply_loop_posted writable_room_may_post

lemma do_reply_posted: "do_reply sdk s now r w = (x, w') \<Longrightarrow> posted_only (may_post sdk (wd_daemon w) s) w w'"
  by (auto simp: do_reply_def split: if_splits sum.splits option.splits prod.splits; blast intro: posting)

lemma do_react_posted: "do_react sdk s now r w = (x, w') \<Longrightarrow> posted_only (may_post sdk (wd_daemon w) s) w w'"
  by (auto simp: do_react_def split: if_splits sum.splits prod.splits; blast intro: posting)

lemma do_edit_posted: "do_edit sdk s now r w = (x, w') \<Longrightarrow> posted_only (may_post sdk (wd_daemon w) s) w w'"
  by (auto simp: do_edit_def split: if_splits sum.splits option.splits prod.splits; blast intro: posting)

lemma do_send_file_posted: "do_send_file sdk s now c f w = (x, w') \<Longrightarrow> posted_only (may_post sdk (wd_daemon w) s) w w'"
  by (auto simp: do_send_file_def Let_def split: if_splits sum.splits option.splits prod.splits; blast intro: posting)

lemma execute_posted: "execute sdk s now c w = (x, w') \<Longrightarrow> posted_only (may_post sdk (wd_daemon w) s) w w'"
  by (auto simp: execute_def Let_def out_reply_def out_react_def out_edit_def out_typing_def map_prod_def
      split: cmd_kind.splits sum.splits prod.splits
      intro: do_reply_posted do_react_posted do_edit_posted)

section \<open>Replies\<close>

lemma reply_rel_Some: "i = 0 \<or> l \<noteq> None \<Longrightarrow> \<exists>rel. reply_rel config i t l = Some rel"
  by (auto simp: reply_rel_def)

lemma reply_loop_no_panic:
  "reply_loop sdk room config n i l t chunks w = (x, w') \<Longrightarrow> i = 0 \<or> l \<noteq> None \<Longrightarrow> x \<noteq> None"
proof (induction chunks arbitrary: i l t w)
  case (Cons c cs)
  obtain rel where "reply_rel config i t l = Some rel" using reply_rel_Some [OF Cons.prems(2)] by blast
  with Cons show ?case by (auto split: sum.splits prod.splits)
qed auto

text \<open>The posts of a text, given the relation and the event id of each chunk.\<close>

definition chunk_posts ::
  "string \<Rightarrow> string list \<Rightarrow> reply_config option list \<Rightarrow> string list \<Rightarrow> (string \<times> outgoing \<times> (string + string)) list"
where
  "chunk_posts q chunks rels ids = map (\<lambda>(c, r, e). (q, Out_Text c r, Inr e)) (zip chunks (zip rels ids))"

lemma reply_loop_Inr:
  assumes "reply_loop sdk room config n i l t chunks w = (Some (Inr l'), w')"
  shows "\<exists>ids rels. length ids = length chunks \<and> length rels = length chunks \<and>
    wd_posts w' = wd_posts w @ chunk_posts (sr_room_id room) chunks rels ids \<and>
    l' = (if ids = [] then l else Some (last ids))"
  using assms
proof (induction chunks arbitrary: i l t w)
  case (Cons c cs)
  obtain rel where rel: "reply_rel config i t l = Some rel"
    using Cons.prems by (auto split: option.splits)
  obtain threaded where th: "with_relation sdk room c rel = Inr threaded"
    using Cons.prems rel by (auto split: sum.splits)
  obtain a w1 where p: "post sdk room (Out_Text c rel) w = (a, w1)" by force
  obtain eid where a: "a = Inr eid"
    using Cons.prems rel th p by (cases a) auto
  have "reply_loop sdk room config n (i + 1) (Some eid) (if i = 0 then threaded else t) cs w1 = (Some (Inr l'), w')"
    using Cons.prems rel th p a by simp
  from Cons.IH [OF this] obtain ids rels where ids: "length ids = length cs" "length rels = length cs"
    "wd_posts w' = wd_posts w1 @ chunk_posts (sr_room_id room) cs rels ids"
    "l' = (if ids = [] then Some eid else Some (last ids))" by auto
  have "wd_posts w1 = wd_posts w @ [(sr_room_id room, Out_Text c rel, Inr eid)]"
    using p a by (auto simp: post_def Let_def)
  with ids show ?case
    by (intro exI [of _ "eid # ids"] exI [of _ "rel # rels"]) (auto simp: chunk_posts_def)
qed (auto simp: chunk_posts_def)

lemma trim_ink: "trim s = [] \<longleftrightarrow> ink (chars s) = []"
proof -
  have "concat (trim_u (chars s)) = [] \<longleftrightarrow> trim_u (chars s) = []"
    using set_trim_u [of "chars s"] chars_nonempty [of _ s] by (cases "trim_u (chars s)") auto
  then show ?thesis by (simp add: trim_def trim_u_Nil ink_Nil_iff)
qed

lemma reply_chunks:
  assumes "trim s \<noteq> []"
  shows "\<exists>chunks. chunk_text s OUT_CHUNK_BYTES = Some chunks \<and> chunks \<noteq> []"
proof -
  have "chunk_text_u (chars s) OUT_CHUNK_BYTES \<noteq> []"
    using assms chunk_text_u_ink [of "chars s" OUT_CHUNK_BYTES] by (auto simp: trim_ink)
  then show ?thesis by (simp add: chunk_text_def OUT_CHUNK_BYTES_def)
qed

text \<open>A reply that passes its checks is its loop followed by the end of the indicator.\<close>

lemma do_reply_cases:
  assumes "do_reply sdk s now r w = (x, w')"
  obtains (refused) e where "x = Some (Inl e)" "w' = w"
  | (ran) room chunks config y w1 where "writable_room sdk (wd_daemon w) s (rp_room_id r) = Inr room"
      "chunk_text (rp_text r) OUT_CHUNK_BYTES = Some chunks" "chunks \<noteq> []"
      "reply_loop sdk room config (length chunks) 0 None False chunks w = (y, w1)"
      "y = None \<and> x = None \<or> (\<exists>e. y = Some (Inl e) \<and> x = Some (Inl e) \<and> w' = w1) \<or>
       (\<exists>l. y = Some (Inr l) \<and> x = map_option Inr l \<and> w' = after_send s room (rp_more r) now w1)"
proof (cases "trim (rp_text r) = []")
  case True
  then show thesis using assms by (intro refused [of "bad Text_Is_Empty"]) (auto simp: do_reply_def)
next
  case False
  then obtain chunks where chunks: "chunk_text (rp_text r) OUT_CHUNK_BYTES = Some chunks" "chunks \<noteq> []"
    using reply_chunks by blast
  show thesis
  proof (cases "parse_optional_event_id sdk (rp_reply_to r)")
    case (Inl e)
    then show thesis using assms False by (intro refused [of e]) (auto simp: do_reply_def)
  next
    case reply_to: (Inr q)
    show thesis
    proof (cases "parse_optional_event_id sdk (rp_thread r)")
      case (Inl e)
      then show thesis using assms False reply_to by (intro refused [of e]) (auto simp: do_reply_def)
    next
      case thread: (Inr t)
      show thesis
      proof (cases "writable_room sdk (wd_daemon w) s (rp_room_id r)")
        case (Inl e)
        then show thesis using assms False reply_to thread by (intro refused [of e]) (auto simp: do_reply_def)
      next
        case (Inr room)
        obtain y w1 where loop: "reply_loop sdk room (reply_config_of q t) (length chunks) 0 None False chunks w = (y, w1)"
          by force
        show thesis
          using ran [OF Inr chunks loop] assms False reply_to thread Inr chunks loop
          by (auto simp: do_reply_def split: option.splits sum.splits)
      qed
    qed
  qed
qed

lemma do_reply_no_panic: "do_reply sdk s now r w = (x, w') \<Longrightarrow> x \<noteq> None"
proof (elim do_reply_cases)
  fix room chunks config y w1
  assume ne: "chunks \<noteq> []" and loop: "reply_loop sdk room config (length chunks) 0 None False chunks w = (y, w1)"
    and y: "y = None \<and> x = None \<or> (\<exists>e. y = Some (Inl e) \<and> x = Some (Inl e) \<and> w' = w1) \<or>
       (\<exists>l. y = Some (Inr l) \<and> x = map_option Inr l \<and> w' = after_send s room (rp_more r) now w1)"
  have "y \<noteq> None" using reply_loop_no_panic [OF loop] by simp
  moreover have "l \<noteq> None" if "y = Some (Inr l)" for l
    using reply_loop_Inr [OF loop [unfolded that]] ne by auto
  ultimately show "x \<noteq> None" using y by auto
qed simp

lemma do_reply_Inr:
  assumes "do_reply sdk s now r w = (Some (Inr eid), w')"
  shows "\<exists>room chunks ids rels. writable_room sdk (wd_daemon w) s (rp_room_id r) = Inr room \<and>
      chunk_text (rp_text r) OUT_CHUNK_BYTES = Some chunks \<and> chunks \<noteq> [] \<and>
      length ids = length chunks \<and> length rels = length chunks \<and> eid = last ids \<and>
      wd_posts w' = wd_posts w @ chunk_posts (sr_room_id room) chunks rels ids"
  using assms
proof (cases rule: do_reply_cases)
  case (ran room chunks config y w1)
  then obtain l where l: "y = Some (Inr l)" "l = Some eid" "w' = after_send s room (rp_more r) now w1"
    by (auto dest!: sym [of "Some (Inr eid)"])
  then have "wd_posts w' = wd_posts w1"
    by (simp add: after_send_def stop_typing_def on_typing_def)
  with reply_loop_Inr [OF ran(4) [unfolded l(1)]] ran(1-3) l(2) show ?thesis
    by (force split: if_splits)
qed simp

section \<open>History\<close>

text \<open>A message of the bot or of a registered person, described as such.\<close>

definition known_message :: "daemon \<Rightarrow> history_message \<Rightarrow> bool" where
  "known_message d m =
     (if hm_own m then is_bot (hm_sender m) (dm_routing d) \<and> hm_person m = None
      else \<exists>p. person_for (hm_sender m) (dm_routing d) = Some p \<and> hm_person m = Some (pc_name p) \<and>
             hm_role m = Some (pc_role p))"

lemma history_message_known: "history_message_of sdk d ev = Some m \<Longrightarrow> known_message d m"
  by (auto simp: history_message_of_def known_message_def Let_def
      split: raw_event.splits option.splits body.splits if_splits)

definition keeps_identity :: "(history_message \<Rightarrow> history_message option) \<Rightarrow> bool" where
  "keeps_identity keep = (\<forall>m m'. keep m = Some m' \<longrightarrow> (\<forall>d. known_message d m' = known_message d m))"

lemma keeps_identity_Some: "keeps_identity Some"
  by (simp add: keeps_identity_def)

lemma keeps_identity_search: "keeps_identity (search_keep re)"
  by (auto simp: keeps_identity_def search_keep_def known_message_def split: option.splits if_splits)

lemma scan_event_known:
  assumes "keeps_identity keep" "\<forall>m \<in> set (fst acc). known_message d m"
  shows "\<forall>m \<in> set (fst (scan_event sdk d keep ev acc)). known_message d m"
  using assms history_message_known [of sdk d ev]
  by (auto simp: scan_event_def keeps_identity_def bind_eq_Some_conv split: prod.splits option.splits)

lemma scan_page_known:
  "keeps_identity keep \<Longrightarrow> \<forall>m \<in> set (fst acc). known_message d m \<Longrightarrow>
     \<forall>m \<in> set (fst (fold (scan_event sdk d keep) evs acc)). known_message d m"
proof (induction evs arbitrary: acc)
  case (Cons ev evs)
  from Cons.IH [OF Cons.prems(1) scan_event_known [OF Cons.prems]] show ?case
    by (simp only: fold_simps)
qed simp

text \<open>One round of the loop.\<close>

lemma scan_loop_round:
  assumes "sd_messages sdk (sr_room_id room) pages tok psize = Inr pg"
    and "fold (scan_event sdk d keep) (pg_chunk pg) acc = (out, scanned, til)"
  shows "scan_loop sdk d room psize wanted m keep tok pages acc =
    (if pg_end pg = None \<or> pg_chunk pg = []
     then Inr (\<lparr>sc_messages = out, sc_more = None, sc_scanned = scanned, sc_until = til\<rparr>, pages + 1)
     else if wanted \<le> length out \<or> m \<le> pages + 1
     then Inr (\<lparr>sc_messages = out, sc_more = pg_end pg, sc_scanned = scanned, sc_until = til\<rparr>, pages + 1)
     else scan_loop sdk d room psize wanted m keep (pg_end pg) (pages + 1) (out, scanned, til))"
  using assms by (subst scan_loop.simps) (auto simp: Let_def split: option.splits)

lemma scan_loop_result:
  assumes "scan_loop sdk d room psize wanted m keep tok pages acc = Inr (s, n)"
    and "keeps_identity keep" "\<forall>x \<in> set (fst acc). known_message d x"
  shows "(\<forall>x \<in> set (sc_messages s). known_message d x) \<and> n \<le> max m (pages + 1) \<and>
    (sc_more s \<noteq> None \<longrightarrow> wanted \<le> length (sc_messages s) \<or> m \<le> n)"
  using assms
proof (induction "m - pages" arbitrary: tok pages acc rule: less_induct)
  case less
  obtain pg where pg: "sd_messages sdk (sr_room_id room) pages tok psize = Inr pg"
    using less.prems(1) by (cases "sd_messages sdk (sr_room_id room) pages tok psize") (auto simp: scan_loop.simps)
  obtain out scanned til where acc': "fold (scan_event sdk d keep) (pg_chunk pg) acc = (out, scanned, til)"
    by (metis prod_cases3)
  note round = scan_loop_round [OF pg acc', of wanted m]
  have known: "\<forall>x \<in> set out. known_message d x"
    using scan_page_known [OF less.prems(2,3), of sdk "pg_chunk pg"] acc' by simp
  consider "pg_end pg = None \<or> pg_chunk pg = []"
    | "\<not> (pg_end pg = None \<or> pg_chunk pg = [])" "wanted \<le> length out \<or> m \<le> pages + 1"
    | "\<not> (pg_end pg = None \<or> pg_chunk pg = [])" "\<not> (wanted \<le> length out \<or> m \<le> pages + 1)" by blast
  then show ?case
  proof cases
    case 1
    with less.prems(1) round known show ?thesis by auto
  next
    case 2
    with less.prems(1) round known show ?thesis by auto
  next
    case 3
    then have rec: "scan_loop sdk d room psize wanted m keep (pg_end pg) (pages + 1) (out, scanned, til) = Inr (s, n)"
      using less.prems(1) unfolding round by (simp only: if_False)
    have "m - (pages + 1) < m - pages" using 3(2) by linarith
    from less.hyps [OF this rec less.prems(2)] known 3(2) show ?thesis by auto
  qed
qed

lemma scan_history_result:
  assumes "scan_history sdk d room tok psize wanted m keep = Inr s" "keeps_identity keep" "0 < m"
  shows "\<exists>n. scan_loop sdk d room psize wanted m keep tok 0 ([], 0, None) = Inr (s, n) \<and> n \<le> m \<and>
    (\<forall>x \<in> set (sc_messages s). known_message d x) \<and>
    (sc_more s \<noteq> None \<longrightarrow> wanted \<le> length (sc_messages s) \<or> n = m)"
proof -
  obtain n where n: "scan_loop sdk d room psize wanted m keep tok 0 ([], 0, None) = Inr (s, n)"
    using assms(1) by (cases "scan_loop sdk d room psize wanted m keep tok 0 ([], 0, None)") (auto simp: scan_history_def)
  from scan_loop_result [OF n assms(2)] assms(3) n show ?thesis by auto
qed

section \<open>Results\<close>

lemma res_id_simps [simp]:
  "res_id (CmdResult_ok i e) = i" "res_id (CmdResult_done i) = i" "res_id (CmdResult_history i ms t) = i"
  "res_id (CmdResult_err i c msg) = i" "res_id (CmdResult_with_scan n u r) = res_id r"
  by (simp_all add: CmdResult_ok_def CmdResult_done_def CmdResult_history_def CmdResult_err_def CmdResult_with_scan_def)

lemma res_id_finish [simp]: "res_id (out_finish sdk i r) = i"
  by (auto simp: out_finish_def split: sum.splits prod.splits)

lemma execute_answers: "\<exists>r w'. execute sdk s now c w = (Some r, w') \<and> res_id r = cmd_id c"
proof (cases "cmd_kind c")
  case (CReply r)
  obtain x w' where rep: "do_reply sdk s now r w = (x, w')" by force
  with do_reply_no_panic [OF rep] CReply show ?thesis
    by (auto simp: execute_def Let_def out_reply_def)
next
  case (CTyping t)
  then show ?thesis
    by (auto simp: execute_def Let_def out_typing_def split: sum.splits prod.splits)
qed (auto simp: execute_def Let_def out_react_def out_edit_def out_fetch_messages_def out_fetch_message_def
       out_search_messages_def map_prod_def split: sum.splits prod.splits)

section \<open>Properties\<close>

text \<open>
  C35: a reply that succeeds has posted exactly the chunks of its text, in order, into the
  one room it names, nothing else, and reports the event id of the last chunk.
\<close>

theorem reply_posts_every_chunk:
  assumes "do_reply sdk session now r w = (Some (Inr eid), w')"
  shows "\<exists>room chunks ids rels. writable_room sdk (wd_daemon w) session (rp_room_id r) = Inr room \<and>
      chunk_text (rp_text r) OUT_CHUNK_BYTES = Some chunks \<and> chunks \<noteq> [] \<and>
      length ids = length chunks \<and> length rels = length chunks \<and> eid = last ids \<and>
      wd_posts w' = wd_posts w @ chunk_posts (sr_room_id room) chunks rels ids"
  using assms by (rule do_reply_Inr)

text \<open>A daemon and an SDK for the examples: one joined room, every send accepted.\<close>

definition demo_room :: sdk_room where
  "demo_room = \<lparr>sr_room_id = ''!private'', sr_joined = True, sr_members = Inr [''@bot:x'', ''@a:x''],
     sr_direct = Inr True, sr_named = False\<rparr>"

definition demo_sdk :: sdk where
  "demo_sdk =
     \<lparr>cl_room_id_ok = (\<lambda>_. True), cl_event_id_ok = (\<lambda>_. True),
      cl_get_room = (\<lambda>q. if q = ''!private'' then Some demo_room else None), cl_joined_rooms = [demo_room],
      sd_send = (\<lambda>n q x. Inr (''$e'' @ dec n)), sd_relate = (\<lambda>q t c. Inr False),
      sd_event = (\<lambda>q e. Inl ''gone''),
      sd_messages = (\<lambda>q n tok l. Inr \<lparr>pg_chunk = [\<lparr>te_sender = Some ''@a:x'',
         te_raw = Raw_Message \<lparr>me_event_id = ''$1'', me_sender = ''@a:x'', me_ts = 1000,
           me_content = \<lparr>relates_to = None, msgtype = MT_Text ''hello''\<rparr>\<rparr>\<rparr>], pg_end = Some ''t''\<rparr>),
      sd_upload_limit = None, sd_regex = (\<lambda>p. Inr (\<lambda>t. if p = t then Some 0 else None)),
      sd_remove_fallback = (\<lambda>t. t), sd_guess_mime = (\<lambda>_. None), sd_parse_mime = Some, sd_exts = (\<lambda>_. None),
      sd_show = (\<lambda>_. [])\<rparr>"

definition demo_daemon :: daemon where
  "demo_daemon =
     daemon_new (routing_new demo_config) (spool_new ''/d'' 100) Map.empty
       \<lparr>st_replay_window_secs = 300, st_inbox_max_age_days = 30, st_alert_grace_secs = 600\<rparr> 0 None
       \<lparr>mark_map = Map.empty, mark_file = None\<rparr> \<lparr>fs_inodes = (\<lambda>_. []), fs_paths = Map.empty, fs_next = 0\<rparr>"

lemma demo_chunk: "chunk_text ''hi'' OUT_CHUNK_BYTES = Some [''hi'']" "trim ''hi'' \<noteq> []"
proof -
  have chars: "trim_end_u (chars ''hi'') = [''h'', ''i'']" by code_simp
  show "chunk_text ''hi'' OUT_CHUNK_BYTES = Some [''hi'']"
    by (simp add: chunk_text_def chunk_text_u_def Let_def chars OUT_CHUNK_BYTES_def del: chars.simps)
  show "trim ''hi'' \<noteq> []" by code_simp
qed

lemma demo_answers:
  "sd_send demo_sdk n q x = Inr (''$e'' @ dec n)"
  "sd_regex demo_sdk p = Inr (\<lambda>t. if p = t then Some 0 else None)"
  "sd_remove_fallback demo_sdk = (\<lambda>t. t)"
  "sd_messages demo_sdk q n tok l = Inr \<lparr>pg_chunk = [\<lparr>te_sender = Some ''@a:x'',
     te_raw = Raw_Message \<lparr>me_event_id = ''$1'', me_sender = ''@a:x'', me_ts = 1000,
       me_content = \<lparr>relates_to = None, msgtype = MT_Text ''hello''\<rparr>\<rparr>\<rparr>], pg_end = Some ''t''\<rparr>"
  by (simp_all add: demo_sdk_def)

lemma demo_rooms:
  "writable_room demo_sdk demo_daemon ''hub'' ''!private'' = Inr demo_room"
  "readable_room demo_sdk demo_daemon ''mind'' ''!private'' = Inr demo_room"
proof -
  let ?r = "routing_new demo_config"
  have "may_send ''hub'' ''!private'' [''@bot:x'', ''@a:x''] sh ?r = Inr ()"
      "may_read ''mind'' ''!private'' [''@bot:x'', ''@a:x''] sh ?r = Inr ()" for sh
    by (simp_all add: may_send_def may_read_def owns_room_def routing_new_def demo_config_def)
  then show "writable_room demo_sdk demo_daemon ''hub'' ''!private'' = Inr demo_room"
      "readable_room demo_sdk demo_daemon ''mind'' ''!private'' = Inr demo_room"
    by (simp_all add: writable_room_def readable_room_def joined_room_def member_ids_def demo_sdk_def demo_room_def
        demo_daemon_def daemon_new_def Let_def)
qed

theorem reply_posts_every_chunk_witness:
  "\<exists>w'. do_reply demo_sdk ''hub'' 0 \<lparr>rp_room_id = ''!private'', rp_text = ''hi'', rp_reply_to = None,
       rp_thread = None, rp_more = False\<rparr> \<lparr>wd_daemon = demo_daemon, wd_posts = []\<rparr> = (Some (Inr ''$e0''), w') \<and>
     (\<exists>rels. length rels = 1 \<and> wd_posts w' = chunk_posts ''!private'' [''hi''] rels [''$e0''])"
proof -
  let ?r = "\<lparr>rp_room_id = ''!private'', rp_text = ''hi'', rp_reply_to = None, rp_thread = None, rp_more = False\<rparr> :: reply"
  let ?w = "\<lparr>wd_daemon = demo_daemon, wd_posts = []\<rparr>"
  have "dec 0 = ''0''" by code_simp
  then obtain w' where run: "do_reply demo_sdk ''hub'' 0 ?r ?w = (Some (Inr ''$e0''), w')"
    by (auto simp: do_reply_def demo_chunk demo_rooms parse_optional_event_id_def reply_config_of_def
        reply_rel_def with_relation_def post_def demo_answers Let_def)
  from reply_posts_every_chunk [OF run] obtain ids rels where
    "length ids = 1" "length rels = 1" "''$e0'' = last ids" "wd_posts w' = chunk_posts ''!private'' [''hi''] rels ids"
    by (auto simp: demo_rooms demo_chunk demo_room_def)
  moreover from this(1,3) have "ids = [''$e0'']" by (cases ids) auto
  ultimately show ?thesis using run by blast
qed

text \<open>
  C36: a search reads at most ten pages however long the room is, stops early only with
  enough matches or at the start of the room, and returns only messages of the bot and of
  registered people, from a room the session may read.
\<close>

theorem search_is_bounded:
  assumes "do_search_messages sdk d session c = Inr s"
  shows "\<exists>room re n. readable_room sdk d session (sm_room_id c) = Inr room \<and>
    scan_loop sdk d room SEARCH_PAGE (unat (clamp_limit (sm_limit c))) SEARCH_MAX_PAGES (search_keep re)
      (sm_from c) 0 ([], 0, None) = Inr (s, n) \<and> n \<le> SEARCH_MAX_PAGES \<and>
    (\<forall>x \<in> set (sc_messages s). known_message d x) \<and>
    (sc_more s \<noteq> None \<longrightarrow> unat (clamp_limit (sm_limit c)) \<le> length (sc_messages s) \<or> n = SEARCH_MAX_PAGES)"
proof -
  obtain room re where room: "readable_room sdk d session (sm_room_id c) = Inr room"
    and scan: "scan_history sdk d room (sm_from c) SEARCH_PAGE (unat (clamp_limit (sm_limit c))) SEARCH_MAX_PAGES
      (search_keep re) = Inr s"
    using assms by (auto simp: do_search_messages_def Let_def split: sum.splits)
  have "0 < SEARCH_MAX_PAGES" by (simp add: SEARCH_MAX_PAGES_def)
  from scan_history_result [OF scan keeps_identity_search this] room show ?thesis by blast
qed

theorem search_is_bounded_witness:
  "\<exists>s. do_search_messages demo_sdk demo_daemon ''mind''
      \<lparr>sm_room_id = ''!private'', sm_pattern = ''hello'', sm_limit = Some 1, sm_from = None\<rparr> = Inr s \<and>
    (\<forall>x \<in> set (sc_messages s). known_message demo_daemon x) \<and> length (sc_messages s) = 1"
proof -
  let ?c = "\<lparr>sm_room_id = ''!private'', sm_pattern = ''hello'', sm_limit = Some 1, sm_from = None\<rparr> :: search_messages"
  let ?re = "\<lambda>t. if ''hello'' = t then Some 0 else None :: nat option"
  obtain pg where pg: "sd_messages demo_sdk (sr_room_id demo_room) 0 None SEARCH_PAGE = Inr pg"
    "pg_end pg = Some ''t''" "pg_chunk pg \<noteq> []"
    by (simp add: demo_answers)
  have who: "person_for ''@a:x'' (dm_routing demo_daemon) \<noteq> None" "\<not> is_bot ''@a:x'' (dm_routing demo_daemon)"
    by (simp_all add: demo_daemon_def daemon_new_def Let_def person_for_def is_bot_def routing_new_def demo_config_def)
  then obtain m scanned til where acc:
    "fold (scan_event demo_sdk demo_daemon (search_keep ?re)) (pg_chunk pg) ([], 0, None) = ([m], scanned, til)"
    using pg(1) by (auto simp: demo_answers scan_event_def history_message_of_def parse_content_def relation_of_def
        search_keep_def Let_def)
  have "\<exists>s. do_search_messages demo_sdk demo_daemon ''mind'' ?c = Inr s \<and> length (sc_messages s) = 1"
    using pg(2,3) by (simp add: do_search_messages_def demo_rooms clamp_limit_def HISTORY_MAX_def scan_history_def
        demo_answers Let_def scan_loop_round [OF pg(1) acc])
  with search_is_bounded [of demo_sdk demo_daemon "''mind''" ?c] show ?thesis by blast
qed

end
