(* ===== verification/Server.thy ===== *)
theory Server
  imports Outbound Line
begin

text \<open>
  A session's connection (\<open>crates/siltad/src/server.rs\<close>): the handshake and who is admitted,
  the delivery of what waited, the lines a session sends, and the end of the connection. A
  connection runs over the daemon's state (\<open>world\<close> of \<open>Outbound\<close>); the outcome of each write
  to the socket and of each file operation is a parameter, as are the JSON parser and the
  base64 codec. The lines are handled one after another, as the reading task does;
  its interleaving with the writing task is in \<open>Connection\<close>, binding and accepting in \<open>Daemon_Start\<close>.
\<close>

section \<open>The handshake\<close>

datatype hello_input = Hello_Timeout | Hello_Unreadable | Hello_Eof | Hello_Line string

datatype handshake_result = HS_Refused error_code | HS_Failed | HS_Hello hello

definition handshake :: "(string \<Rightarrow> incoming option) \<Rightarrow> hello_input \<Rightarrow> handshake_result" where
  "handshake parse input =
     (case input of
        Hello_Timeout \<Rightarrow> HS_Refused EC_BadRequest
      | Hello_Unreadable \<Rightarrow> HS_Failed
      | Hello_Eof \<Rightarrow> HS_Failed
      | Hello_Line line \<Rightarrow>
          (case parse line of
             Some (In_Message (CM_Hello h)) \<Rightarrow> HS_Hello h
           | Some _ \<Rightarrow> HS_Refused EC_BadRequest
           | None \<Rightarrow> HS_Failed))"

text \<open>The checks after a hello, in their order; the claim is the last of them.\<close>

definition admit_hello :: "daemon \<Rightarrow> u32 option \<Rightarrow> hello \<Rightarrow> error_code + registry" where
  "admit_hello d peer h =
     (if hello_protocol h \<noteq> PROTOCOL_VERSION then Inl EC_ProtocolMismatch
      else if rt_session (hello_session h) (dm_routing d) = None then Inl EC_UnknownSession
      else case (dm_users d (hello_session h), peer) of
        (Some uid, Some p) \<Rightarrow>
          if uid = p
          then (case registry_claim (hello_session h) (dm_registry d) of
                  Some r \<Rightarrow> Inr r
                | None \<Rightarrow> Inl EC_SessionBusy)
          else Inl EC_WrongUser
      | _ \<Rightarrow> Inl EC_WrongUser)"

definition welcome_for :: "daemon \<Rightarrow> string \<Rightarrow> welcome_msg" where
  "welcome_for d session =
     \<lparr>welcome_protocol = PROTOCOL_VERSION, welcome_session = session, welcome_user_id = rt_bot (dm_routing d),
      welcome_people = people_for session (dm_routing d), welcome_inbox_max_age_days = dm_inbox_max_age_days d\<rparr>"

section \<open>Writing\<close>

definition wrap_piece :: "piece \<Rightarrow> daemon_message" where
  "wrap_piece p = (case p of P_Header h \<Rightarrow> DM_File h | P_Chunk c \<Rightarrow> DM_Chunk c | P_End e \<Rightarrow> DM_FileEnd e)"

definition write_attachment :: "(string \<Rightarrow> string) \<Rightarrow> daemon \<Rightarrow> attachment \<Rightarrow> daemon_message list" where
  "write_attachment encode d a =
     (case file_at (dm_fs d) (inbox_path (dm_spool d) (att_transfer a)) of
        None \<Rightarrow> []
      | Some bytes \<Rightarrow>
          map wrap_piece
            (send encode \<lparr>fh_transfer = att_transfer a, fh_name = att_name a, fh_mime = att_mime a, fh_size = att_size a\<rparr>
               (if bytes = [] then [] else [bytes])))"

definition write_event :: "(string \<Rightarrow> string) \<Rightarrow> daemon \<Rightarrow> event \<Rightarrow> daemon_message list" where
  "write_event encode d ev = concat (map (write_attachment encode d) (ev_attachments ev)) @ [DM_Event ev]"

text \<open>The writing task: the messages written until the first write that fails.\<close>

fun write_loop :: "(string \<Rightarrow> string) \<Rightarrow> daemon \<Rightarrow> (daemon_message \<times> bool) list \<Rightarrow> daemon_message list" where
  "write_loop encode d [] = []"
| "write_loop encode d ((m, ok) # ms) =
     (if ok then (case m of DM_Event ev \<Rightarrow> write_event encode d ev | _ \<Rightarrow> [m]) @ write_loop encode d ms else [])"

section \<open>Connecting\<close>

datatype connect_result =
    Cn_Failed
  | Cn_Refused error_code
  | Cn_Welcome_Failed
  | Cn_Queue_Failed
  | Cn_Serving "alert option" "stamped list" nat

text \<open>
  From the accepted connection to the point where its lines are read. \<open>queue_ok\<close> tells
  whether all the queued messages could be written. A return after the claim drops it.
\<close>

definition connect ::
  "(string \<Rightarrow> incoming option) \<Rightarrow> u32 option \<Rightarrow> hello_input \<Rightarrow> bool \<Rightarrow> (stamped list \<Rightarrow> bool) \<Rightarrow> u64 \<Rightarrow> daemon \<Rightarrow>
     connect_result \<times> daemon"
where
  "connect parse peer input welcome_ok queue_ok now d =
     (case handshake parse input of
        HS_Refused code \<Rightarrow> (Cn_Refused code, d)
      | HS_Failed \<Rightarrow> (Cn_Failed, d)
      | HS_Hello h \<Rightarrow>
          (case admit_hello d peer h of
             Inl code \<Rightarrow> (Cn_Refused code, d)
           | Inr reg1 \<Rightarrow>
               let s = hello_session h; d1 = d\<lparr>dm_registry := reg1\<rparr>;
                   drop_claim = (\<lambda>d. d\<lparr>dm_registry := fst (claim_drop s now (dm_registry d))\<rparr>)
               in if \<not> welcome_ok then (Cn_Welcome_Failed, drop_claim d1)
                  else let (d2, al) = session_connected s now d1;
                           (reg2, queued, evicted) = take_backlog s now (dm_registry d2);
                           d3 = d2\<lparr>dm_registry := reg2\<rparr>
                       in if \<not> queue_ok queued then (Cn_Queue_Failed, drop_claim d3)
                          else (Cn_Serving al queued evicted, d3)))"

section \<open>The lines of a session\<close>

datatype server_text = Tx_Failed string transfer_error | Tx_Missing string | Tx_Bad_Request line_diagnostic

record conn_env =
  ce_now :: u64
  ce_open_ok :: bool
  ce_write :: write_outcome
  ce_flush_ok :: bool
  ce_marks_ok :: bool

record conn_params =
  cp_marks :: "(string \<rightharpoonup> watermark) \<Rightarrow> string"
  cp_decode :: "string \<Rightarrow> string option"
  cp_show :: "server_text \<Rightarrow> string"

record conn =
  cn_session :: string
  cn_receiver :: receiver
  cn_received :: "(string \<times> received_file) list"
  cn_failed :: "(string \<times> transfer_error) list"

definition conn_new :: "daemon \<Rightarrow> string \<Rightarrow> conn" where
  "conn_new d session =
     \<lparr>cn_session = session,
      cn_receiver = receiver_new (sp_outbox (dm_spool d)) (session @ ''-'') (sp_max_bytes (dm_spool d)),
      cn_received = [], cn_failed = []\<rparr>"

datatype served = Sv_Result cmd_result | Sv_Quiet | Sv_Close | Sv_Panic

definition on_disk :: "fs \<Rightarrow> world \<Rightarrow> world" where
  "on_disk s w = w\<lparr>wd_daemon := (wd_daemon w)\<lparr>dm_fs := s\<rparr>\<rparr>"

text \<open>\<open>failed.entry(transfer)\<close>, filled only when vacant.\<close>

definition note_failure :: "string \<Rightarrow> transfer_error \<Rightarrow> (string \<times> transfer_error) list \<Rightarrow> (string \<times> transfer_error) list" where
  "note_failure t e failed = (if map_of failed t = None then AList.update t e failed else failed)"

definition serve_send_file ::
  "sdk \<Rightarrow> conn_params \<Rightarrow> conn_env \<Rightarrow> u64 \<Rightarrow> send_file \<Rightarrow> conn \<Rightarrow> world \<Rightarrow> cmd_result \<times> conn \<times> world"
where
  "serve_send_file sdk p e i f c w =
     (case map_of (cn_received c) (sf_transfer f) of
        Some r \<Rightarrow>
          let (res, w') = out_send_file sdk (cn_session c) (ce_now e) i f r w
          in (res, c\<lparr>cn_received := AList.delete (sf_transfer f) (cn_received c)\<rparr>, w')
      | None \<Rightarrow>
          let why = (case map_of (cn_failed c) (sf_transfer f) of
                       Some x \<Rightarrow> Tx_Failed (sf_transfer f) x | None \<Rightarrow> Tx_Missing (sf_transfer f))
          in (CmdResult_err i RE_FileError (cp_show p why),
              c\<lparr>cn_failed := AList.delete (sf_transfer f) (cn_failed c)\<rparr>, w))"

definition serve_file :: "sdk \<Rightarrow> conn_env \<Rightarrow> file_header \<Rightarrow> conn \<Rightarrow> world \<Rightarrow> conn \<times> world" where
  "serve_file sdk e h c w =
     (case receiver_begin (sd_exts sdk) (ce_open_ok e) h (cn_receiver c, dm_fs (wd_daemon w)) of
        (Inr _, r, s) \<Rightarrow> (c\<lparr>cn_receiver := r\<rparr>, on_disk s w)
      | (Inl x, r, s) \<Rightarrow>
          (c\<lparr>cn_receiver := r, cn_failed := AList.update (fh_transfer h) x (cn_failed c)\<rparr>, on_disk s w))"

definition serve_chunk :: "conn_params \<Rightarrow> conn_env \<Rightarrow> file_chunk \<Rightarrow> conn \<Rightarrow> world \<Rightarrow> conn \<times> world" where
  "serve_chunk p e k c w =
     (case receiver_chunk (cp_decode p) (ce_write e) k (cn_receiver c, dm_fs (wd_daemon w)) of
        (Inr _, r, s) \<Rightarrow> (c\<lparr>cn_receiver := r\<rparr>, on_disk s w)
      | (Inl x, r, s) \<Rightarrow>
          (c\<lparr>cn_receiver := r, cn_failed := note_failure (fc_transfer k) x (cn_failed c)\<rparr>, on_disk s w))"

definition serve_file_end :: "conn_env \<Rightarrow> file_end \<Rightarrow> conn \<Rightarrow> world \<Rightarrow> conn \<times> world" where
  "serve_file_end e k c w =
     (case receiver_end (ce_flush_ok e) k (cn_receiver c, dm_fs (wd_daemon w)) of
        (Inr f, r, s) \<Rightarrow>
          (c\<lparr>cn_receiver := r, cn_received := AList.update (fe_transfer k) f (cn_received c)\<rparr>, on_disk s w)
      | (Inl x, r, s) \<Rightarrow>
          (c\<lparr>cn_receiver := r, cn_failed := note_failure (fe_transfer k) x (cn_failed c)\<rparr>, on_disk s w))"

definition serve_ack :: "sdk \<Rightarrow> conn_params \<Rightarrow> conn_env \<Rightarrow> ack \<Rightarrow> conn \<Rightarrow> world \<Rightarrow> world" where
  "serve_ack sdk p e a c w =
     (let d = wd_daemon w; (r, x) = registry_ack (cn_session c) (ack_event_id a) (dm_registry d);
          d1 = d\<lparr>dm_registry := r\<rparr>
      in w\<lparr>wd_daemon := (case x of
             Some (ts, ev) \<Rightarrow> daemon_acked sdk (cp_marks p) (ce_marks_ok e) (cn_session c) ev ts (ce_now e) d1
           | None \<Rightarrow> d1)\<rparr>)"

definition serve_cmd :: "sdk \<Rightarrow> conn_params \<Rightarrow> conn_env \<Rightarrow> cmd \<Rightarrow> conn \<Rightarrow> world \<Rightarrow> served \<times> conn \<times> world" where
  "serve_cmd sdk p e k c w =
     (case cmd_kind k of
        CSendFile f \<Rightarrow> (let (res, c', w') = serve_send_file sdk p e (cmd_id k) f c w in (Sv_Result res, c', w'))
      | _ \<Rightarrow>
          (case execute sdk (cn_session c) (ce_now e) k w of
             (Some res, w') \<Rightarrow> (Sv_Result res, c, w')
           | (None, w') \<Rightarrow> (Sv_Panic, c, w')))"

definition serve_line ::
  "sdk \<Rightarrow> conn_params \<Rightarrow> conn_env \<Rightarrow> incoming option \<Rightarrow> conn \<Rightarrow> world \<Rightarrow> served \<times> conn \<times> world"
where
  "serve_line sdk p e line c w =
     (case line of
        None \<Rightarrow> (Sv_Close, c, w)
      | Some (In_Message (CM_Cmd k)) \<Rightarrow> serve_cmd sdk p e k c w
      | Some (In_Message (CM_File h)) \<Rightarrow> (Sv_Quiet, serve_file sdk e h c w)
      | Some (In_Message (CM_Chunk k)) \<Rightarrow> (Sv_Quiet, serve_chunk p e k c w)
      | Some (In_Message (CM_FileEnd k)) \<Rightarrow> (Sv_Quiet, serve_file_end e k c w)
      | Some (In_Message (CM_Ack a)) \<Rightarrow> (Sv_Quiet, c, serve_ack sdk p e a c w)
      | Some (In_Message (CM_Hello _)) \<Rightarrow> (Sv_Quiet, c, w)
      | Some (In_BadRequest i m) \<Rightarrow>
          (Sv_Result (CmdResult_err i RE_BadRequest (cp_show p (Tx_Bad_Request m))), c, w)
      | Some (In_Ignored m) \<Rightarrow> (Sv_Quiet, c, w))"

text \<open>
  The loop over the lines: the results handed to the writing task, whether no step
  panicked, and the final state; it ends at a line that is not JSON or with the lines.
\<close>

fun serve_loop :: "('l \<Rightarrow> 's \<Rightarrow> served \<times> 's) \<Rightarrow> 'l list \<Rightarrow> 's \<Rightarrow> cmd_result list \<times> bool \<times> 's" where
  "serve_loop step [] s = ([], True, s)"
| "serve_loop step (l # ls) s =
     (case step l s of
        (Sv_Result r, s') \<Rightarrow> (let (rs, fine, s2) = serve_loop step ls s' in (r # rs, fine, s2))
      | (Sv_Quiet, s') \<Rightarrow> serve_loop step ls s'
      | (Sv_Close, s') \<Rightarrow> ([], True, s')
      | (Sv_Panic, s') \<Rightarrow> ([], False, s'))"

definition serve_lines ::
  "sdk \<Rightarrow> conn_params \<Rightarrow> (conn_env \<times> incoming option) list \<Rightarrow> conn \<times> world \<Rightarrow> cmd_result list \<times> bool \<times> conn \<times> world"
where
  "serve_lines sdk p = serve_loop (\<lambda>(e, line) (c, w). serve_line sdk p e line c w)"

text \<open>The end of a connection that was served, and the drop of its claim.\<close>

definition disconnect :: "u64 \<Rightarrow> conn \<Rightarrow> daemon \<Rightarrow> daemon" where
  "disconnect now c d =
     (let s1 = snd (abort_all (cn_receiver c, dm_fs d));
          s2 = fold (\<lambda>(t, f). fs_remove (rd_path f)) (cn_received c) s1;
          d1 = d\<lparr>dm_fs := s2, dm_typing := typing_stop_session (cn_session c) (dm_typing d)\<rparr>;
          d2 = session_disconnected (cn_session c) now d1
      in d2\<lparr>dm_registry := fst (claim_drop (cn_session c) now (dm_registry d2))\<rparr>)"

section \<open>What the loop keeps\<close>

text \<open>
  A handler of lines: a line that asks for an answer gets one that carries its id, any
  other line that is not the last gets none, and what a line may do to the state is a
  reflexive and transitive relation.
\<close>

locale line_handler =
  fixes step :: "'l \<Rightarrow> 's \<Rightarrow> served \<times> 's"
    and final :: "'l \<Rightarrow> bool"
    and asks :: "'l \<Rightarrow> u64 option"
    and allowed :: "'s \<Rightarrow> 's \<Rightarrow> bool"
  assumes closes: "final l \<Longrightarrow> fst (step l s) = Sv_Close"
    and answers: "\<not> final l \<Longrightarrow> asks l = Some i \<Longrightarrow> \<exists>r. fst (step l s) = Sv_Result r \<and> res_id r = i"
    and quiet: "\<not> final l \<Longrightarrow> asks l = None \<Longrightarrow> fst (step l s) = Sv_Quiet"
    and step_allowed: "allowed s (snd (step l s))"
    and allowed_refl: "allowed s s"
    and allowed_trans: "allowed s t \<Longrightarrow> allowed t u \<Longrightarrow> allowed s u"
begin

lemma loop_answers:
  "\<exists>rs s'. serve_loop step ls s = (rs, True, s') \<and>
     map res_id rs = List.map_filter asks (takeWhile (\<lambda>l. \<not> final l) ls)"
proof (induction ls arbitrary: s)
  case (Cons l ls)
  obtain x s1 where x: "step l s = (x, s1)" by force
  obtain rs s2 where rec: "serve_loop step ls s1 = (rs, True, s2)"
    "map res_id rs = List.map_filter asks (takeWhile (\<lambda>l. \<not> final l) ls)"
    using Cons.IH by blast
  show ?case
    using closes [of l s] answers [of l _ s] quiet [of l s] x rec
    by (cases "final l"; cases "asks l") (auto simp: List.map_filter_simps)
qed (simp add: List.map_filter_simps)

lemma loop_allowed: "allowed s (snd (snd (serve_loop step ls s)))"
proof (induction ls arbitrary: s)
  case (Cons l ls)
  have "allowed s (snd (step l s))" by (rule step_allowed)
  moreover have "allowed t (snd (snd (serve_loop step ls t)))" for t by (rule Cons.IH)
  ultimately show ?case
    by (auto split: served.splits prod.splits intro: allowed_trans)
       (metis allowed_trans snd_conv)+
qed (simp add: allowed_refl)

end

text \<open>The request a line carries, if any: a command, or a command that could not be parsed.\<close>

definition request_id :: "incoming option \<Rightarrow> u64 option" where
  "request_id line =
     (case line of
        Some (In_Message (CM_Cmd k)) \<Rightarrow> Some (cmd_id k)
      | Some (In_BadRequest i m) \<Rightarrow> Some i
      | _ \<Rightarrow> None)"

text \<open>
  What a connection may do: post into rooms its session may send to. The routing never
  changes, nor does the connection's session.
\<close>

definition within_policy :: "sdk \<Rightarrow> conn \<times> world \<Rightarrow> conn \<times> world \<Rightarrow> bool" where
  "within_policy sdk s t =
     (posted_only (may_post sdk (wd_daemon (snd s)) (cn_session (fst s))) (snd s) (snd t) \<and>
      dm_routing (wd_daemon (snd t)) = dm_routing (wd_daemon (snd s)) \<and> cn_session (fst t) = cn_session (fst s))"

lemma may_post_routing: "dm_routing d' = dm_routing d \<Longrightarrow> may_post sdk d' = may_post sdk d"
  by (intro ext) (simp add: may_post_def)

lemma within_policy_trans: "within_policy sdk s t \<Longrightarrow> within_policy sdk t u \<Longrightarrow> within_policy sdk s u"
  using may_post_routing [of "wd_daemon (snd t)" "wd_daemon (snd s)" sdk]
  by (auto simp: within_policy_def intro: posted_only_trans)

lemma posted_only_same: "wd_posts w' = wd_posts w \<Longrightarrow> posted_only P w w'"
  by (simp add: posted_only_def)

lemma on_disk_simps [simp]:
  "wd_posts (on_disk s w) = wd_posts w" "dm_routing (wd_daemon (on_disk s w)) = dm_routing (wd_daemon w)"
  by (simp_all add: on_disk_def)

lemma serve_file_policy: "within_policy sdk (c, w) (serve_file sdk e h c w)"
  by (auto simp: serve_file_def within_policy_def intro: posted_only_same split: prod.splits sum.splits)

lemma serve_chunk_policy: "within_policy sdk (c, w) (serve_chunk p e k c w)"
  by (auto simp: serve_chunk_def within_policy_def intro: posted_only_same split: prod.splits sum.splits)

lemma serve_file_end_policy: "within_policy sdk (c, w) (serve_file_end e k c w)"
  by (auto simp: serve_file_end_def within_policy_def intro: posted_only_same split: prod.splits sum.splits)

lemma daemon_acked_routing [simp]: "dm_routing (daemon_acked sdk ts ok s ev t now d) = dm_routing d"
  by (auto simp: daemon_acked_def mark_read_def Let_def split: option.splits)

lemma serve_ack_policy: "within_policy sdk (c, w) (c, serve_ack sdk p e a c w)"
  by (auto simp: serve_ack_def within_policy_def Let_def intro: posted_only_same split: prod.splits option.splits)

text \<open>No command changes the routing.\<close>

lemma on_typing_routing [simp]:
  "dm_routing (wd_daemon (on_typing f w)) = dm_routing (wd_daemon w)"
  "dm_routing (wd_daemon (stop_typing room w)) = dm_routing (wd_daemon w)"
  "dm_routing (wd_daemon (after_send s room m now w)) = dm_routing (wd_daemon w)"
  by (simp_all add: on_typing_def stop_typing_def after_send_def)

lemma post_routing: "post sdk room x w = (a, w') \<Longrightarrow> dm_routing (wd_daemon w') = dm_routing (wd_daemon w)"
  by (auto simp: post_def Let_def)

lemma reply_loop_routing:
  "reply_loop sdk room config n i l t chunks w = (x, w') \<Longrightarrow> dm_routing (wd_daemon w') = dm_routing (wd_daemon w)"
  by (induction chunks arbitrary: i l t w)
     (auto split: option.splits sum.splits prod.splits if_splits dest!: post_routing)

lemmas routing_kept = post_routing reply_loop_routing

lemma do_reply_routing: "do_reply sdk s now r w = (x, w') \<Longrightarrow> dm_routing (wd_daemon w') = dm_routing (wd_daemon w)"
  by (auto simp: do_reply_def split: if_splits sum.splits option.splits prod.splits dest: routing_kept)

lemma do_react_routing: "do_react sdk s now r w = (x, w') \<Longrightarrow> dm_routing (wd_daemon w') = dm_routing (wd_daemon w)"
  by (auto simp: do_react_def split: if_splits sum.splits prod.splits dest: routing_kept)

lemma do_edit_routing: "do_edit sdk s now r w = (x, w') \<Longrightarrow> dm_routing (wd_daemon w') = dm_routing (wd_daemon w)"
  by (auto simp: do_edit_def split: if_splits sum.splits option.splits prod.splits dest: routing_kept)

lemma do_send_file_routing:
  "do_send_file sdk s now c f w = (x, w') \<Longrightarrow> dm_routing (wd_daemon w') = dm_routing (wd_daemon w)"
  by (auto simp: do_send_file_def Let_def split: if_splits sum.splits option.splits prod.splits dest: routing_kept)

lemma execute_routing: "execute sdk s now c w = (x, w') \<Longrightarrow> dm_routing (wd_daemon w') = dm_routing (wd_daemon w)"
  by (auto simp: execute_def Let_def out_reply_def out_react_def out_edit_def out_typing_def map_prod_def
      split: cmd_kind.splits sum.splits prod.splits
      dest: do_reply_routing do_react_routing do_edit_routing)

lemma execute_policy: "execute sdk (cn_session c) now k w = (x, w') \<Longrightarrow> within_policy sdk (c, w) (c, w')"
  by (simp add: within_policy_def execute_posted execute_routing)

lemma serve_send_file_policy: "within_policy sdk (c, w) (snd (serve_send_file sdk p e i f c w))"
proof (cases "map_of (cn_received c) (sf_transfer f)")
  case (Some r)
  obtain x w1 where run: "do_send_file sdk (cn_session c) (ce_now e) f r w = (x, w1)" by force
  from do_send_file_posted [OF run] do_send_file_routing [OF run] run Some show ?thesis
    by (simp add: serve_send_file_def out_send_file_def within_policy_def posted_only_def Let_def)
qed (simp add: serve_send_file_def within_policy_def)

lemma serve_send_file_id: "res_id (fst (serve_send_file sdk p e i f c w)) = i"
  by (auto simp: serve_send_file_def out_send_file_def Let_def split: option.splits prod.splits)

lemma serve_cmd_send:
  "cmd_kind k = CSendFile f \<Longrightarrow> serve_cmd sdk p e k c w = map_prod Sv_Result id (serve_send_file sdk p e (cmd_id k) f c w)"
  by (simp add: serve_cmd_def map_prod_def split: prod.splits)

lemma serve_cmd_answers: "\<exists>r s. serve_cmd sdk p e k c w = (Sv_Result r, s) \<and> res_id r = cmd_id k"
proof (cases "\<exists>f. cmd_kind k = CSendFile f")
  case True
  then obtain f where k: "cmd_kind k = CSendFile f" by blast
  show ?thesis
    using serve_send_file_id [of sdk p e "cmd_id k" f c w]
    by (cases "serve_send_file sdk p e (cmd_id k) f c w") (simp add: serve_cmd_send [OF k])
next
  case False
  then show ?thesis
    using execute_answers [of sdk "cn_session c" "ce_now e" k w]
    by (auto simp: serve_cmd_def split: cmd_kind.splits)
qed

lemma serve_cmd_policy: "within_policy sdk (c, w) (snd (serve_cmd sdk p e k c w))"
proof (cases "\<exists>f. cmd_kind k = CSendFile f")
  case True
  then show ?thesis
    using serve_send_file_policy by (auto simp: serve_cmd_send)
next
  case False
  then show ?thesis
    by (auto simp: serve_cmd_def split: cmd_kind.splits prod.splits option.splits dest: execute_policy)
qed

lemma within_policy_refl: "within_policy sdk s s"
  by (simp add: within_policy_def)

lemma serve_line_policy: "within_policy sdk (c, w) (snd (serve_line sdk p e line c w))"
  by (simp add: serve_line_def within_policy_refl serve_cmd_policy serve_file_policy serve_chunk_policy
      serve_file_end_policy serve_ack_policy split: option.split incoming.split client_message.split)

lemma serve_line_asked:
  "request_id line = Some i \<Longrightarrow> \<exists>r s. serve_line sdk p e line c w = (Sv_Result r, s) \<and> res_id r = i"
  using serve_cmd_answers [of sdk p e _ c w]
  by (auto simp: serve_line_def request_id_def split: option.splits incoming.splits client_message.splits)

lemma serve_line_quiet:
  "line \<noteq> None \<Longrightarrow> request_id line = None \<Longrightarrow> fst (serve_line sdk p e line c w) = Sv_Quiet"
  by (auto simp: serve_line_def request_id_def split: option.splits incoming.splits client_message.splits)

interpretation session_lines: line_handler
  "\<lambda>(e, line) (c, w). serve_line sdk p e line c w" "\<lambda>(e, line). line = None" "\<lambda>(e, line). request_id line"
  "within_policy sdk" for sdk p
proof
  fix l :: "conn_env \<times> incoming option" and s :: "conn \<times> world" and t u i
  let ?step = "\<lambda>(e, line) (c, w). serve_line sdk p e line c w"
  show "case l of (e, line) \<Rightarrow> line = None \<Longrightarrow> fst (?step l s) = Sv_Close"
    by (cases l; cases s) (simp add: serve_line_def)
  show "\<not> (case l of (e, line) \<Rightarrow> line = None) \<Longrightarrow> (case l of (e, line) \<Rightarrow> request_id line) = Some i \<Longrightarrow>
      \<exists>r. fst (?step l s) = Sv_Result r \<and> res_id r = i"
    using serve_line_asked [of "snd l" i sdk p "fst l" "fst s" "snd s"] by (cases l; cases s) auto
  show "\<not> (case l of (e, line) \<Rightarrow> line = None) \<Longrightarrow> (case l of (e, line) \<Rightarrow> request_id line) = None \<Longrightarrow>
      fst (?step l s) = Sv_Quiet"
    by (cases l; cases s) (simp add: serve_line_quiet)
  show "within_policy sdk s (snd (?step l s))"
    by (cases l; cases s) (simp add: serve_line_policy)
  show "within_policy sdk s s"
    by (rule within_policy_refl)
  show "within_policy sdk s t \<Longrightarrow> within_policy sdk t u \<Longrightarrow> within_policy sdk s u"
    by (rule within_policy_trans)
qed

section \<open>Admission\<close>

text \<open>Who may connect as which session.\<close>

definition entitled :: "daemon \<Rightarrow> u32 option \<Rightarrow> hello \<Rightarrow> bool" where
  "entitled d peer h =
     (hello_protocol h = PROTOCOL_VERSION \<and> rt_session (hello_session h) (dm_routing d) \<noteq> None \<and>
      peer \<noteq> None \<and> dm_users d (hello_session h) = peer \<and> \<not> is_connected (hello_session h) (dm_registry d))"

lemma admit_hello_eq:
  "entitled d peer h \<Longrightarrow>
     admit_hello d peer h = Inr ((dm_registry d)\<lparr>inner := insert (hello_session h) (inner (dm_registry d))\<rparr>)"
  "\<not> entitled d peer h \<Longrightarrow> \<exists>code. admit_hello d peer h = Inl code"
  by (auto simp: entitled_def admit_hello_def registry_claim_def is_connected_def split: option.splits)

lemma handshake_Hello:
  "handshake parse input = HS_Hello h \<longleftrightarrow> (\<exists>line. input = Hello_Line line \<and> parse line = Some (In_Message (CM_Hello h)))"
  by (auto simp: handshake_def split: hello_input.splits option.splits incoming.splits client_message.splits)

lemma claim_drop_inner: "inner (fst (claim_drop s now r)) = inner r - {s}"
proof -
  obtain r1 k n where e: "registry_restore s now (claim_release s r) = (r1, k, n)" by (metis prod_cases3)
  have "inner r1 = inner (claim_release s r)"
    using restore_moves [OF e, of s] by blast
  with e show ?thesis
    by (simp add: claim_drop_def claim_release_def)
qed

lemma take_backlog_inner: "inner (fst (take_backlog s now r)) = inner r"
proof -
  obtain r1 k n where e: "take_backlog s now r = (r1, k, n)" by (metis prod_cases3)
  from take_backlog_moves [OF e, of s] e show ?thesis by simp
qed

lemma take_backlog_others: "fst (snd (take_backlog s now (r\<lparr>inner := c\<rparr>))) = fst (snd (take_backlog s now r))"
  by (auto simp: take_backlog_def Let_def split: option.splits prod.splits)

lemma session_connected_kept [simp]:
  "dm_registry (fst (session_connected s now d)) = dm_registry d"
  "dm_routing (fst (session_connected s now d)) = dm_routing d"
  by (auto simp: session_connected_def Let_def split: prod.splits)

text \<open>The queue a session is sent when it connects.\<close>

definition waiting_for :: "string \<Rightarrow> u64 \<Rightarrow> daemon \<Rightarrow> stamped list" where
  "waiting_for s now d = fst (snd (take_backlog s now (dm_registry d)))"

definition admitted ::
  "(string \<Rightarrow> incoming option) \<Rightarrow> u32 option \<Rightarrow> hello_input \<Rightarrow> bool \<Rightarrow> (stamped list \<Rightarrow> bool) \<Rightarrow> u64 \<Rightarrow> daemon \<Rightarrow> hello \<Rightarrow> bool"
where
  "admitted parse peer input welcome_ok queue_ok now d h =
     ((\<exists>line. input = Hello_Line line \<and> parse line = Some (In_Message (CM_Hello h))) \<and> entitled d peer h \<and>
      welcome_ok \<and> queue_ok (waiting_for (hello_session h) now d))"

lemma connect_not_entitled:
  assumes "\<And>h. handshake parse input = HS_Hello h \<Longrightarrow> \<not> entitled d peer h"
  shows "snd (connect parse peer input welcome_ok queue_ok now d) = d \<and>
    (fst (connect parse peer input welcome_ok queue_ok now d) = Cn_Failed \<or>
     (\<exists>code. fst (connect parse peer input welcome_ok queue_ok now d) = Cn_Refused code))"
  using assms admit_hello_eq(2) [of d peer] by (force simp: connect_def split: handshake_result.split)

lemma connect_entitled:
  fixes now :: u64
  assumes "handshake parse input = HS_Hello h" "entitled d peer h"
  defines "s \<equiv> hello_session h"
  defines "d1 \<equiv> d\<lparr>dm_registry := (dm_registry d)\<lparr>inner := insert s (inner (dm_registry d))\<rparr>\<rparr>"
  defines "d2 \<equiv> fst (session_connected s now d1)"
  defines "t \<equiv> take_backlog s now (dm_registry d2)"
  shows "connect parse peer input welcome_ok queue_ok now d =
    (if \<not> welcome_ok then (Cn_Welcome_Failed, d1\<lparr>dm_registry := fst (claim_drop s now (dm_registry d1))\<rparr>)
     else if \<not> queue_ok (waiting_for s now d)
     then (Cn_Queue_Failed, d2\<lparr>dm_registry := fst (claim_drop s now (fst t))\<rparr>)
     else (Cn_Serving (snd (session_connected s now d1)) (waiting_for s now d) (snd (snd t)), d2\<lparr>dm_registry := fst t\<rparr>))"
proof -
  have "fst (snd t) = waiting_for s now d"
    by (simp add: t_def d2_def d1_def waiting_for_def take_backlog_others)
  then show ?thesis
    using assms admit_hello_eq(1) [OF assms(2)]
    by (simp add: connect_def Let_def split_beta)
qed

section \<open>The watch and the registry\<close>

text \<open>The watch over the sessions and the registry agree on who is connected.\<close>

definition watch_agrees :: "daemon \<Rightarrow> bool" where
  "watch_agrees d =
     (\<forall>s st. map_of (watch.sessions (dm_alerts d)) s = Some st \<longrightarrow>
        (disconnected_since st = None \<longleftrightarrow> is_connected s (dm_registry d)))"

lemma watch_connected_state:
  "map_of (watch.sessions (fst (watch_connected s now w))) q =
     (if q = s then map_option (\<lambda>st. st\<lparr>disconnected_since := None, alerted_at := None\<rparr>) (map_of (watch.sessions w) s)
      else map_of (watch.sessions w) q)"
  by (auto simp: watch_connected_def update_conv' split: option.splits)

lemma watch_disconnected_state:
  "map_of (watch.sessions (watch_disconnected s now w)) q =
     (if q = s then map_option (\<lambda>st. if disconnected_since st = None then st\<lparr>disconnected_since := Some now\<rparr> else st)
        (map_of (watch.sessions w) s)
      else map_of (watch.sessions w) q)"
  by (auto simp: watch_disconnected_def update_conv' split: option.splits)

lemma session_connected_alerts: "dm_alerts (fst (session_connected s now d)) = fst (watch_connected s now (dm_alerts d))"
  by (auto simp: session_connected_def split: prod.splits)

lemma watch_agrees_disconnect:
  assumes "watch_agrees d"
  shows "watch_agrees (disconnect now c d)"
  unfolding watch_agrees_def
proof (intro allI impI)
  fix s st
  let ?gone = "\<lambda>st. if disconnected_since st = None then st\<lparr>disconnected_since := Some now\<rparr> else st"
  have reg: "is_connected s (dm_registry (disconnect now c d)) \<longleftrightarrow> is_connected s (dm_registry d) \<and> s \<noteq> cn_session c"
    by (auto simp: disconnect_def Let_def session_disconnected_def is_connected_def claim_drop_inner)
  have "disconnected_since (?gone x) \<noteq> None" for x by simp
  moreover assume "map_of (watch.sessions (dm_alerts (disconnect now c d))) s = Some st"
  then have "map_of (watch.sessions (watch_disconnected (cn_session c) now (dm_alerts d))) s = Some st"
    by (simp add: disconnect_def Let_def session_disconnected_def)
  ultimately show "disconnected_since st = None \<longleftrightarrow> is_connected s (dm_registry (disconnect now c d))"
    using assms unfolding reg watch_agrees_def watch_disconnected_state
    by (cases "s = cn_session c") auto
qed

lemma watch_agrees_connect:
  assumes "watch_agrees d" "fst (connect parse peer input welcome_ok queue_ok now d) \<noteq> Cn_Queue_Failed"
  shows "watch_agrees (snd (connect parse peer input welcome_ok queue_ok now d))"
proof (cases "\<exists>h. handshake parse input = HS_Hello h \<and> entitled d peer h")
  case False
  then show ?thesis using assms connect_not_entitled [of parse input d peer] by metis
next
  case True
  then obtain h where h: "handshake parse input = HS_Hello h" "entitled d peer h" by blast
  have "\<not> is_connected (hello_session h) (dm_registry d)" using h(2) by (simp add: entitled_def)
  then show ?thesis
    using assms unfolding connect_entitled [OF h]
    by (auto simp: watch_agrees_def is_connected_def claim_drop_inner take_backlog_inner session_connected_alerts
        watch_connected_state split: if_splits)
qed

section \<open>Properties\<close>

text \<open>
  C1: over a whole connection, whatever lines the session sends, every event the daemon
  posts on its behalf (replies, reactions, edits, files) goes into a room the bot is joined
  to and that the session's send policy allows.
\<close>

theorem connection_respects_policy:
  "posted_only (may_post sdk (wd_daemon w) (cn_session c)) w (snd (snd (snd (serve_lines sdk p lines (c, w)))))"
  using session_lines.loop_allowed [of sdk "(c, w)" p lines] by (simp add: serve_lines_def within_policy_def)

text \<open>
  C12: every command of a connection, also one that cannot be parsed, gets exactly one
  result that carries its id, in the order of the requests, up to the first line that is
  not JSON; no other line gets one, and no step panics (the \<open>expect\<close>s of a reply never
  fail).
\<close>

theorem requests_answered_in_order:
  "\<exists>rs s'. serve_lines sdk p lines s = (rs, True, s') \<and>
     map res_id rs = List.map_filter request_id (takeWhile (\<lambda>l. l \<noteq> None) (map snd lines))"
proof -
  have "List.map_filter request_id (takeWhile (\<lambda>l. l \<noteq> None) (map snd lines)) =
      List.map_filter (\<lambda>(e :: conn_env, line). request_id line) (takeWhile (\<lambda>l. \<not> (case l of (e, line) \<Rightarrow> line = None)) lines)"
    by (induction lines) (auto simp: List.map_filter_simps split: option.splits)
  then show ?thesis
    using session_lines.loop_answers [of sdk p lines s] by (simp add: serve_lines_def)
qed

text \<open>
  C6: a connection is served exactly when its first line is a hello of the daemon's
  protocol version for a configured session that is not connected, the kernel reports the
  uid configured for that session, and the welcome and the queued messages could be
  written; and afterwards the set of connected sessions has grown by that session alone,
  while a connection that is refused or fails leaves it as it was.
\<close>

theorem admission_exact:
  "((\<exists>al n. fst (connect parse peer input welcome_ok queue_ok now d) = Cn_Serving al q n) \<longleftrightarrow>
      (\<exists>h. admitted parse peer input welcome_ok queue_ok now d h \<and> q = waiting_for (hello_session h) now d)) \<and>
   inner (dm_registry (snd (connect parse peer input welcome_ok queue_ok now d))) =
      inner (dm_registry d) \<union> {hello_session h |h. admitted parse peer input welcome_ok queue_ok now d h}"
proof (cases "\<exists>h. handshake parse input = HS_Hello h \<and> entitled d peer h")
  case False
  then have "\<not> admitted parse peer input welcome_ok queue_ok now d h" for h
    by (auto simp: admitted_def handshake_Hello)
  moreover from False have "\<not> entitled d peer h" if "handshake parse input = HS_Hello h" for h
    using that by blast
  note connect_not_entitled [of parse input d peer welcome_ok queue_ok now, OF this]
  ultimately show ?thesis by auto
next
  case True
  then obtain h where h: "handshake parse input = HS_Hello h" "entitled d peer h" by blast
  then have adm: "admitted parse peer input welcome_ok queue_ok now d k \<longleftrightarrow>
      k = h \<and> welcome_ok \<and> queue_ok (waiting_for (hello_session h) now d)" for k
    by (auto simp: admitted_def handshake_Hello)
  from h(2) have "hello_session h \<notin> inner (dm_registry d)"
    by (simp add: entitled_def is_connected_def)
  then show ?thesis
    unfolding adm connect_entitled [OF h] by (auto simp: claim_drop_inner take_backlog_inner)
qed

text \<open>
  C13: the watch over the sessions, which decides whether the owner is told that a session
  is away, agrees with the registry on who is connected: at the daemon's start, after every
  connection attempt except one whose queued messages could not be written, and after the
  end of every connection.
\<close>

theorem watch_follows_registry:
  "watch_agrees (daemon_new rt sp users st now host m disk) \<and>
   (watch_agrees d \<longrightarrow> watch_agrees (disconnect now c d)) \<and>
   (watch_agrees d \<longrightarrow> fst (connect parse peer input welcome_ok queue_ok now d) \<noteq> Cn_Queue_Failed \<longrightarrow>
      watch_agrees (snd (connect parse peer input welcome_ok queue_ok now d)))"
proof (intro conjI impI)
  show "watch_agrees (daemon_new rt sp users st now host m disk)"
    by (auto simp: watch_agrees_def daemon_new_def Let_def watch_new_def watch_new_state registry_new_def
        is_connected_def split: if_splits)
qed (simp_all add: watch_agrees_disconnect watch_agrees_connect)


definition demo_hello :: hello where
  "demo_hello = \<lparr>hello_protocol = PROTOCOL_VERSION, hello_session = ''hub'', hello_client = ''demo''\<rparr>"

definition demo_uids :: daemon where
  "demo_uids = demo_daemon\<lparr>dm_users := [''hub'' \<mapsto> 7]\<rparr>"

lemma demo_entitled:
  "handshake (\<lambda>_. Some (In_Message (CM_Hello demo_hello))) (Hello_Line []) = HS_Hello demo_hello"
  "entitled demo_uids (Some 7) demo_hello"
  by (simp_all add: handshake_def entitled_def demo_uids_def demo_hello_def demo_daemon_def daemon_new_def Let_def
      rt_session_def routing_new_def demo_config_def is_connected_def registry_new_def)

theorem watch_follows_registry_witness:
  "watch_agrees (disconnect 5 (conn_new demo_uids ''hub'')
     (snd (connect (\<lambda>_. Some (In_Message (CM_Hello demo_hello))) (Some 7) (Hello_Line []) True (\<lambda>_. True) 0 demo_uids)))"
proof -
  let ?parse = "\<lambda>_ :: string. Some (In_Message (CM_Hello demo_hello))"
  let ?conn = "connect ?parse (Some 7) (Hello_Line []) True (\<lambda>_. True) 0"
  note w = watch_follows_registry [where now = 0 and parse = ?parse and peer = "Some 7" and input = "Hello_Line []"
      and welcome_ok = True and queue_ok = "\<lambda>_. True"]
  have "watch_agrees demo_uids"
    using w [THEN conjunct1] by (simp add: demo_uids_def demo_daemon_def watch_agrees_def)
  moreover have "fst (?conn demo_uids) \<noteq> Cn_Queue_Failed"
    by (simp add: connect_entitled [OF demo_entitled])
  ultimately have "watch_agrees (snd (?conn demo_uids))"
    using w by blast
  then show ?thesis
    using watch_follows_registry [where now = 5] by blast
qed

text \<open>
  The exception of the invariant: when a queued message cannot be written the connection
  ends and the registry no longer has it, but the watch was told that the session is
  connected and is not told that it left. Until the session connects again nothing reports
  it as away.
\<close>

theorem failed_delivery_leaves_watch:
  assumes "connect parse peer (Hello_Line line) welcome_ok queue_ok now d = (Cn_Queue_Failed, d')"
    and "parse line = Some (In_Message (CM_Hello h))"
  shows "\<not> is_connected (hello_session h) (dm_registry d') \<and>
    (\<forall>st. map_of (watch.sessions (dm_alerts d')) (hello_session h) = Some st \<longrightarrow> disconnected_since st = None)"
proof -
  have hs: "handshake parse (Hello_Line line) = HS_Hello h"
    using assms(2) by (simp add: handshake_def)
  show ?thesis
  proof (cases "entitled d peer h")
    case True
    show ?thesis
      using assms(1) unfolding connect_entitled [OF hs True]
      by (auto simp: is_connected_def claim_drop_inner session_connected_alerts watch_connected_state split: if_splits)
  next
    case False
    then show ?thesis
      using assms(1) hs connect_not_entitled [of parse "Hello_Line line" d peer welcome_ok queue_ok now] by auto
  qed
qed

theorem failed_delivery_example:
  "\<exists>d'. connect (\<lambda>_. Some (In_Message (CM_Hello demo_hello))) (Some 7) (Hello_Line []) True (\<lambda>_. False) 0 demo_uids =
     (Cn_Queue_Failed, d') \<and> \<not> watch_agrees d'"
proof -
  let ?parse = "\<lambda>_ :: string. Some (In_Message (CM_Hello demo_hello))"
  note c = connect_entitled [OF demo_entitled, of True "\<lambda>_. False" 0]
  obtain d' where run: "connect ?parse (Some 7) (Hello_Line []) True (\<lambda>_. False) 0 demo_uids = (Cn_Queue_Failed, d')"
    using c by simp
  have "map_of (watch.sessions (dm_alerts d')) ''hub'' \<noteq> None"
    using c run
    by (auto simp: session_connected_alerts watch_connected_state demo_hello_def demo_uids_def demo_daemon_def
        daemon_new_def Let_def watch_new_def watch_new_state session_names_def routing_new_def demo_config_def)
  with failed_delivery_leaves_watch [OF run, of demo_hello] run show ?thesis
    by (auto simp: watch_agrees_def demo_hello_def)
qed

end
