(* ===== verification/Inbound.thy ===== *)
theory Inbound
  imports Outbound
begin

text \<open>
  Inbound traffic (\<open>crates/siltad/src/matrix.rs\<close>, \<open>spool::download\<close>): invitations, the
  admission of messages and reactions, attachments, and the sync loop. A handler decides
  on the state it finds; what it leaves to be done (deliver, or fetch the attachment and
  deliver) is an \<open>in_task\<close>, which runs over the state at the time it gets there, since a
  fetch is a spawned task. The media a source has, the outcome of each file operation and
  the rendering of sizes and errors are parameters (\<open>human_size\<close> is floating point).
\<close>

section \<open>Invitations\<close>

text \<open>
  The join loop: \<open>ok n\<close> is the answer to the n-th attempt, the delay doubles while it is
  below 300 seconds. The result tells whether the bot joined and after how many attempts.
\<close>

function join_loop :: "(nat \<Rightarrow> bool) \<Rightarrow> nat \<Rightarrow> nat \<Rightarrow> bool \<times> nat" where
  "join_loop ok n delay =
     (if ok n then (True, n + 1)
      else if 0 < delay \<and> delay < 300 then join_loop ok (n + 1) (delay * 2)
      else (False, n + 1))"
  by pat_completeness auto
termination
  by (relation "measure (\<lambda>(_, _, delay). 300 - delay)") auto

declare join_loop.simps [simp del]

record invite =
  iv_state_key :: string
  iv_is_invite :: bool
  iv_sender :: string

definition on_invite :: "daemon \<Rightarrow> string option \<Rightarrow> (nat \<Rightarrow> bool) \<Rightarrow> invite \<Rightarrow> (bool \<times> nat) option" where
  "on_invite d me ok ev =
     (if Some (iv_state_key ev) \<noteq> me then None
      else if \<not> iv_is_invite ev then None
      else case person_for (iv_sender ev) (dm_routing d) of
        None \<Rightarrow> None
      | Some person \<Rightarrow> Some (join_loop ok 0 2))"

section \<open>Admission\<close>

definition admit ::
  "daemon \<Rightarrow> sdk_room \<Rightarrow> string \<Rightarrow> string \<Rightarrow> u64 \<Rightarrow> (string \<times> person_config \<times> room_kind) option"
where
  "admit d room sender eid ts =
     (case member_ids room of
        Inl _ \<Rightarrow> None
      | Inr members \<Rightarrow>
          (case inbound sender (sr_room_id room) members (room_shape_of room) (dm_routing d) of
             InDrop reason \<Rightarrow> None
           | InDeliver session person kind \<Rightarrow>
               (case verdict ts eid (daemon_watermark (sr_room_id room) d) (dm_started_at_ms d) (dm_replay_window_ms d) of
                  AlreadyDelivered \<Rightarrow> None
                | TooOld \<Rightarrow> None
                | Deliver behind_start_ms \<Rightarrow> Some (session, person, kind))))"

datatype in_task =
    Task_Deliver string event u64
  | Task_Fetch string event media u64

definition on_message :: "sdk \<Rightarrow> daemon \<Rightarrow> sdk_room \<Rightarrow> message_event \<Rightarrow> in_task option" where
  "on_message sdk d room ev =
     (if \<not> sr_joined room then None
      else let p = parse_content (sd_remove_fallback sdk) (sd_guess_mime sdk) (me_content ev);
               admitted = (\<lambda>mk. case admit d room (me_sender ev) (me_event_id ev) (me_ts ev) of
                   None \<Rightarrow> None
                 | Some (session, person, kind) \<Rightarrow>
                     Some (mk session
                       \<lparr>ev_kind = EK_Message, ev_person = pc_name person, ev_role = pc_role person,
                        ev_sender = me_sender ev, ev_room_id = sr_room_id room, ev_room = kind,
                        ev_event_id = me_event_id ev, ev_ts = rfc3339_utc (me_ts ev),
                        ev_in_reply_to = pa_in_reply_to p, ev_thread = pa_thread p, ev_reacts_to = None,
                        ev_text = [], ev_transcribed = False, ev_attachments = []\<rparr>))
           in case pa_body p of
                B_Edit \<Rightarrow> None
              | B_Other t \<Rightarrow> None
              | B_Text t \<Rightarrow> admitted (\<lambda>s m. Task_Deliver s (m\<lparr>ev_text := t\<rparr>) (me_ts ev))
              | B_Media md \<Rightarrow> admitted (\<lambda>s m. Task_Fetch s (m\<lparr>ev_text := md_caption md\<rparr>) md (me_ts ev)))"

record reaction_event =
  re_event_id :: string
  re_sender :: string
  re_ts :: u64
  re_target :: string
  re_key :: string

definition on_reaction :: "sdk \<Rightarrow> daemon \<Rightarrow> sdk_room \<Rightarrow> reaction_event \<Rightarrow> in_task option" where
  "on_reaction sdk d room ev =
     (if \<not> sr_joined room then None
      else if is_bot (re_sender ev) (dm_routing d) then None
      else case admit d room (re_sender ev) (re_event_id ev) (re_ts ev) of
        None \<Rightarrow> None
      | Some (session, person, kind) \<Rightarrow>
          (case sd_event sdk (sr_room_id room) (re_target ev) of
             Inl err \<Rightarrow> None
           | Inr target \<Rightarrow>
               (case te_sender target of
                  None \<Rightarrow> None
                | Some s \<Rightarrow>
                    if is_bot s (dm_routing d)
                    then Some (Task_Deliver session
                      \<lparr>ev_kind = EK_Reaction, ev_person = pc_name person, ev_role = pc_role person,
                       ev_sender = re_sender ev, ev_room_id = sr_room_id room, ev_room = kind,
                       ev_event_id = re_event_id ev, ev_ts = rfc3339_utc (re_ts ev),
                       ev_in_reply_to = None, ev_thread = None, ev_reacts_to = Some (re_target ev),
                       ev_text = re_key ev, ev_transcribed = False, ev_attachments = []\<rparr> (re_ts ev))
                    else None)))"

text \<open>
  The events the handlers are registered for. One that could not be decrypted is only
  logged.
\<close>

datatype room_event = RV_Message message_event | RV_Reaction reaction_event | RV_Undecryptable string

fun on_event :: "sdk \<Rightarrow> daemon \<Rightarrow> sdk_room \<Rightarrow> room_event \<Rightarrow> in_task option" where
  "on_event sdk d room (RV_Message m) = on_message sdk d room m"
| "on_event sdk d room (RV_Reaction r) = on_reaction sdk d room r"
| "on_event sdk d room (RV_Undecryptable eid) = None"

section \<open>Attachments\<close>

datatype download_error = DE_TooLarge u64 | DE_Failed string

record in_env =
  ie_media :: "string \<Rightarrow> string + string"
  ie_open_error :: "string option"
  ie_write_error :: "(nat \<times> string) option"
  ie_flush_error :: "string option"
  ie_timeout :: "nat option"
  ie_human_size :: "u64 \<Rightarrow> string"

definition download :: "in_env \<Rightarrow> string \<Rightarrow> string \<Rightarrow> u64 \<Rightarrow> fs \<Rightarrow> (download_error + u64) \<times> fs" where
  "download e source path max_bytes s =
     (case ie_media e source of
        Inl err \<Rightarrow> (Inl (DE_Failed err), s)
      | Inr data \<Rightarrow>
          let len = of_nat (length data) in
          if len > max_bytes then (Inl (DE_TooLarge len), s)
          else case ie_open_error e of
            Some err \<Rightarrow> (Inl (DE_Failed err), s)
          | None \<Rightarrow>
              let (i, s1) = fs_open path s in
              case ie_write_error e of
                Some (n, err) \<Rightarrow> (Inl (DE_Failed err), fs_write i 0 (take n data) s1)
              | None \<Rightarrow>
                  let s2 = fs_write i 0 data s1 in
                  (case ie_flush_error e of
                     Some err \<Rightarrow> (Inl (DE_Failed err), s2)
                   | None \<Rightarrow> (Inr len, s2)))"

text \<open>
  A download given up at its time limit: \<open>ie_timeout\<close> is the number of bytes it had
  written by then; with 0 the file may not even be open.
\<close>

definition download_cut :: "in_env \<Rightarrow> nat \<Rightarrow> string \<Rightarrow> string \<Rightarrow> u64 \<Rightarrow> fs \<Rightarrow> fs" where
  "download_cut e n source path max_bytes s =
     (case ie_media e source of
        Inl err \<Rightarrow> s
      | Inr data \<Rightarrow>
          if n = 0 \<or> of_nat (length data) > max_bytes then s
          else let (i, s1) = fs_open path s in fs_write i 0 (take n data) s1)"

definition in_note :: "string \<Rightarrow> event \<Rightarrow> event" where
  "in_note line m = m\<lparr>ev_text := (if ev_text m \<noteq> [] then ev_text m @ [NL] else ev_text m) @ line\<rparr>"

definition describe :: "in_env \<Rightarrow> media \<Rightarrow> string \<Rightarrow> string" where
  "describe e md detail =
     ''[attachment \"'' @ md_name md @ ''\" ('' @ md_mime md @
       (case md_size md of Some s \<Rightarrow> '', '' @ ie_human_size e s | None \<Rightarrow> []) @ '') '' @ detail @ '']''"

definition fetch_attachment :: "in_env \<Rightarrow> spool \<Rightarrow> media \<Rightarrow> event \<Rightarrow> fs \<Rightarrow> event \<times> fs" where
  "fetch_attachment e sp md m s =
     (let mx = sp_max_bytes sp; transfer = safe_id (ev_event_id m) @ ''-1'' in
      if (case md_size md of Some n \<Rightarrow> n > mx | None \<Rightarrow> False)
      then (in_note (describe e md (''not downloaded: over the '' @ ie_human_size e mx @ '' limit'')) m, s)
      else let path = inbox_path sp transfer in
        case ie_timeout e of
          Some n \<Rightarrow> (in_note (describe e md ''could not be downloaded: timed out'') m,
                     download_cut e n (md_source md) path mx s)
        | None \<Rightarrow>
            (case download e (md_source md) path mx s of
               (Inr bytes, s') \<Rightarrow>
                 (m\<lparr>ev_attachments := ev_attachments m @
                     [\<lparr>att_transfer = transfer, att_name = md_name md, att_mime = md_mime md, att_size = bytes\<rparr>]\<rparr>, s')
             | (Inl (DE_TooLarge bytes), s') \<Rightarrow>
                 (in_note (describe e md (''not downloaded: '' @ ie_human_size e bytes @ '' is over the '' @
                    ie_human_size e mx @ '' limit'')) m, s')
             | (Inl (DE_Failed err), s') \<Rightarrow>
                 (in_note (describe e md (''could not be downloaded: '' @ err)) m, s')))"

section \<open>Delivery\<close>

definition in_deliver :: "try_send \<Rightarrow> u64 \<Rightarrow> string \<Rightarrow> event \<Rightarrow> u64 \<Rightarrow> daemon \<Rightarrow> dispatch_result \<times> daemon" where
  "in_deliver outcome now session ev ts d =
     (let (r, x) = dispatch outcome session ev ts now (dm_registry d) in (x, d\<lparr>dm_registry := r\<rparr>))"

fun run_task :: "in_env \<Rightarrow> try_send \<Rightarrow> u64 \<Rightarrow> in_task \<Rightarrow> daemon \<Rightarrow> dispatch_result \<times> daemon" where
  "run_task e outcome now (Task_Deliver session ev ts) d = in_deliver outcome now session ev ts d"
| "run_task e outcome now (Task_Fetch session ev md ts) d =
     (let (ev', s) = fetch_attachment e (dm_spool d) md ev (dm_fs d)
      in in_deliver outcome now session ev' ts (d\<lparr>dm_fs := s\<rparr>))"

section \<open>The sync loop\<close>

definition MAX_SYNC_RETRY_DELAY :: duration where
  "MAX_SYNC_RETRY_DELAY = 15 * 1000"

datatype sync_result = Sync_Cancelled | Sync_Ended | Sync_Failed bool duration bool

datatype sync_exit = Exit_Ok | Exit_Token_Rejected

text \<open>
  What each round of the loop saw: \<open>Sync_Failed token elapsed cancelled\<close> is an error, whether
  it rejects the access token, the time since the round began, and whether the wait
  after it was cancelled. The result is the exit (\<open>None\<close> while the rounds go on) and the
  delays waited for.
\<close>

fun sync_loop :: "duration \<Rightarrow> sync_result list \<Rightarrow> sync_exit option \<times> duration list" where
  "sync_loop delay [] = (None, [])"
| "sync_loop delay (Sync_Cancelled # rs) = (Some Exit_Ok, [])"
| "sync_loop delay (Sync_Ended # rs) = (Some Exit_Ok, [])"
| "sync_loop delay (Sync_Failed token elapsed cancelled # rs) =
     (if token then (Some Exit_Token_Rejected, [])
      else let delay1 = (if elapsed > 60 * 1000 then 1000 else delay) in
        if cancelled then (Some Exit_Ok, [delay1])
        else let (x, ds) = sync_loop (min (delay1 * 2) MAX_SYNC_RETRY_DELAY) rs in (x, delay1 # ds))"

section \<open>Retries end\<close>

lemma join_loop_bound:
  assumes "0 < delay" "300 \<le> delay * 2 ^ k"
  shows "snd (join_loop ok n delay) \<le> n + k + 1"
  using assms
proof (induction k arbitrary: n delay)
  case 0
  then show ?case by (simp add: join_loop.simps [of ok n delay])
next
  case (Suc k)
  then have "snd (join_loop ok (n + 1) (delay * 2)) \<le> n + 1 + k + 1" by (intro Suc.IH) auto
  then show ?case by (simp add: join_loop.simps [of ok n delay])
qed

lemma join_loop_joins: "fst (join_loop ok n delay) \<longleftrightarrow> (\<exists>i. n \<le> i \<and> i < snd (join_loop ok n delay) \<and> ok i)"
proof (induction ok n delay rule: join_loop.induct)
  case (1 ok n delay)
  show ?case
  proof (cases "ok n")
    case True
    then show ?thesis by (auto simp: join_loop.simps [of ok n delay])
  next
    case no: False
    show ?thesis
    proof (cases "0 < delay \<and> delay < 300")
      case True
      then have "join_loop ok n delay = join_loop ok (n + 1) (delay * 2)"
        using no by (subst join_loop.simps) simp
      with 1 [OF no True] no show ?thesis by (metis Suc_eq_plus1 Suc_le_eq le_less)
    next
      case False
      then have "join_loop ok n delay = (False, n + 1)"
        using no by (subst join_loop.simps) auto
      with no show ?thesis by (metis Suc_eq_plus1 fst_conv le_antisym less_Suc_eq_le snd_conv)
    qed
  qed
qed

lemma sync_loop_delays:
  "1000 \<le> delay \<Longrightarrow> delay \<le> MAX_SYNC_RETRY_DELAY \<Longrightarrow>
   \<forall>x \<in> set (snd (sync_loop delay rs)). 1000 \<le> x \<and> x \<le> MAX_SYNC_RETRY_DELAY"
proof (induction delay rs rule: sync_loop.induct)
  case (4 delay token elapsed cancelled rs)
  let ?d = "if elapsed > 60 * 1000 then 1000 else delay"
  have d: "1000 \<le> ?d" "?d \<le> MAX_SYNC_RETRY_DELAY"
    using 4(2,3) by (simp_all add: MAX_SYNC_RETRY_DELAY_def)
  then have d2: "1000 \<le> min (?d * 2) MAX_SYNC_RETRY_DELAY" "min (?d * 2) MAX_SYNC_RETRY_DELAY \<le> MAX_SYNC_RETRY_DELAY"
    by (simp_all add: MAX_SYNC_RETRY_DELAY_def)
  show ?case
  proof (cases "token \<or> cancelled")
    case True
    with d show ?thesis by (auto simp: Let_def)
  next
    case False
    then have "snd (sync_loop delay (Sync_Failed token elapsed cancelled # rs)) =
        ?d # snd (sync_loop (min (?d * 2) MAX_SYNC_RETRY_DELAY) rs)"
      by (simp add: Let_def split_beta)
    moreover have "\<forall>x \<in> set (snd (sync_loop (min (?d * 2) MAX_SYNC_RETRY_DELAY) rs)). 1000 \<le> x \<and> x \<le> MAX_SYNC_RETRY_DELAY"
      using False by (intro 4(1) [OF _ refl _ d2]) auto
    ultimately show ?thesis
      using d by (simp only: list.set ball_simps simp_thms)
  qed
qed simp_all

section \<open>What is admitted\<close>

fun task_session :: "in_task \<Rightarrow> string" where
  "task_session (Task_Deliver s ev ts) = s"
| "task_session (Task_Fetch s ev md ts) = s"

fun task_event :: "in_task \<Rightarrow> event" where
  "task_event (Task_Deliver s ev ts) = ev"
| "task_event (Task_Fetch s ev md ts) = ev"

fun task_ts :: "in_task \<Rightarrow> u64" where
  "task_ts (Task_Deliver s ev ts) = ts"
| "task_ts (Task_Fetch s ev md ts) = ts"

fun sent_by :: "room_event \<Rightarrow> string" where
  "sent_by (RV_Message m) = me_sender m"
| "sent_by (RV_Reaction r) = re_sender r"
| "sent_by (RV_Undecryptable eid) = []"

fun sent_id :: "room_event \<Rightarrow> string" where
  "sent_id (RV_Message m) = me_event_id m"
| "sent_id (RV_Reaction r) = re_event_id r"
| "sent_id (RV_Undecryptable eid) = eid"

fun sent_at :: "room_event \<Rightarrow> u64" where
  "sent_at (RV_Message m) = me_ts m"
| "sent_at (RV_Reaction r) = re_ts r"
| "sent_at (RV_Undecryptable eid) = 0"

lemma admit_Some:
  "admit d room sender eid ts = Some (session, person, kind) \<longleftrightarrow>
     (\<exists>ms b. sr_members room = Inr ms \<and>
        inbound sender (sr_room_id room) ms (room_shape_of room) (dm_routing d) = InDeliver session person kind \<and>
        verdict ts eid (daemon_watermark (sr_room_id room) d) (dm_started_at_ms d) (dm_replay_window_ms d) = Deliver b)"
  by (auto simp: admit_def member_ids_def split: sum.splits inbound_t.splits verdict_t.splits)

lemma on_message_Some:
  assumes "on_message sdk d room m = Some t"
  obtains person where "sr_joined room"
    "admit d room (me_sender m) (me_event_id m) (me_ts m) = Some (task_session t, person, ev_room (task_event t))"
    "ev_person (task_event t) = pc_name person" "ev_role (task_event t) = pc_role person"
    "ev_sender (task_event t) = me_sender m" "ev_room_id (task_event t) = sr_room_id room"
    "ev_event_id (task_event t) = me_event_id m" "task_ts t = me_ts m"
  using assms
  by (auto simp: on_message_def Let_def split: if_splits body.splits option.splits prod.splits)

lemma on_reaction_Some:
  assumes "on_reaction sdk d room m = Some t"
  obtains person where "sr_joined room"
    "admit d room (re_sender m) (re_event_id m) (re_ts m) = Some (task_session t, person, ev_room (task_event t))"
    "ev_person (task_event t) = pc_name person" "ev_role (task_event t) = pc_role person"
    "ev_sender (task_event t) = re_sender m" "ev_room_id (task_event t) = sr_room_id room"
    "ev_event_id (task_event t) = re_event_id m" "task_ts t = re_ts m"
  using assms
  by (auto simp: on_reaction_def split: if_splits option.splits prod.splits sum.splits)

lemma on_event_Some:
  assumes "on_event sdk d room x = Some t"
  obtains person where "sr_joined room"
    "admit d room (sent_by x) (sent_id x) (sent_at x) = Some (task_session t, person, ev_room (task_event t))"
    "ev_person (task_event t) = pc_name person" "ev_role (task_event t) = pc_role person"
    "ev_sender (task_event t) = sent_by x" "ev_room_id (task_event t) = sr_room_id room"
    "ev_event_id (task_event t) = sent_id x" "task_ts t = sent_at x"
  using assms by (cases x) (auto elim: on_message_Some on_reaction_Some)

lemma on_event_refused:
  assumes "admit d room (sent_by x) (sent_id x) (sent_at x) = None"
  shows "on_event sdk d room x = None"
proof (cases "on_event sdk d room x")
  case (Some t)
  then show ?thesis using assms by (elim on_event_Some) simp
qed

section \<open>Attachments arrive or are explained\<close>

lemma fs_open_written:
  assumes "fs_open path s = (i, s1)"
  shows "file_at (fs_write i 0 bs s1) path = Some bs"
    and "fs_wf s \<Longrightarrow> q \<noteq> path \<Longrightarrow> file_at (fs_write i 0 bs s1) q = file_at s q"
proof -
  have i: "fs_paths s1 path = Some i" "fs_inodes s1 i = []"
    using assms by (auto simp: fs_open_def split: option.splits)
  then show "file_at (fs_write i 0 bs s1) path = Some bs"
    by (simp add: file_at_def fs_write_def overwrite_def)
  show "file_at (fs_write i 0 bs s1) q = file_at s q" if "fs_wf s" "q \<noteq> path"
    using fs_open_frame [OF that(1) assms that(2)]
    by (cases "fs_paths s q") (auto simp: file_at_def fs_write_def)
qed

lemma download_Inr:
  assumes "download e source path mx s = (Inr n, s')"
  shows "\<exists>data. ie_media e source = Inr data \<and> n = of_nat (length data) \<and> n \<le> mx \<and> file_at s' path = Some data"
  using assms
  by (auto simp: download_def Let_def fs_open_written split: sum.splits if_splits option.splits prod.splits)

lemma download_frame:
  assumes "fs_wf s" "q \<noteq> path" "download e source path mx s = (x, s')"
  shows "file_at s' q = file_at s q"
  using assms
  by (auto simp: download_def Let_def fs_open_written(2) split: sum.splits if_splits option.splits prod.splits)

lemma download_cut_frame: "fs_wf s \<Longrightarrow> q \<noteq> path \<Longrightarrow> file_at (download_cut e n source path mx s) q = file_at s q"
  by (auto simp: download_cut_def Let_def fs_open_written(2) split: sum.splits prod.splits)

text \<open>The line that tells the session why a file is not there.\<close>

definition explained :: "in_env \<Rightarrow> media \<Rightarrow> event \<Rightarrow> event \<Rightarrow> bool" where
  "explained e md m m' = (\<exists>detail. m' = in_note (describe e md detail) m)"

text \<open>The file the event names is in the spool, whole.\<close>

definition spooled :: "in_env \<Rightarrow> spool \<Rightarrow> media \<Rightarrow> fs \<Rightarrow> event \<Rightarrow> event \<Rightarrow> bool" where
  "spooled e sp md s m m' =
     (\<exists>data a. ie_media e (md_source md) = Inr data \<and> m' = m\<lparr>ev_attachments := ev_attachments m @ [a]\<rparr> \<and>
        att_name a = md_name md \<and> att_mime a = md_mime md \<and> att_size a = of_nat (length data) \<and>
        att_size a \<le> sp_max_bytes sp \<and> file_at s (inbox_path sp (att_transfer a)) = Some data)"

section \<open>Properties\<close>

text \<open>
  C5: what reaches a session is what its configuration says. With a valid configuration, a
  message or reaction the daemon hands on was sent in a joined room by a registered person
  who is not the bot, carries that person's name and role, is new by the room's watermark
  and the replay window, and goes to a configured session that claims it: a room some
  session lists goes to that session alone, the groups session gets group rooms only, and
  a session with a list gets its rooms and the DMs of its people.
\<close>

theorem inbound_respects_config:
  assumes "validate c = Inr ()" and "dm_routing d = routing_new c" and "on_event sdk d room x = Some t"
  shows "\<exists>s p ms b. sr_joined room \<and> sr_members room = Inr ms \<and>
     s \<in> set (sessions c) \<and> task_session t = sc_name s \<and>
     p \<in> set (people c) \<and> sent_by x \<in> set (pc_addresses p) \<and> sent_by x \<noteq> user_id (matrix c) \<and>
     ev_person (task_event t) = pc_name p \<and> ev_role (task_event t) = pc_role p \<and>
     ev_room_id (task_event t) = sr_room_id room \<and> ev_event_id (task_event t) = sent_id x \<and>
     (ev_room (task_event t) = Group \<longleftrightarrow>
        is_group (card (fst (people_in ms (routing_new c)))) (room_shape_of room)) \<and>
     claims c s (sr_room_id room) (ev_room (task_event t)) p \<and>
     verdict (sent_at x) (sent_id x) (daemon_watermark (sr_room_id room) d) (dm_started_at_ms d)
       (dm_replay_window_ms d) = Deliver b"
proof -
  obtain p where p: "sr_joined room"
    "admit d room (sent_by x) (sent_id x) (sent_at x) = Some (task_session t, p, ev_room (task_event t))"
    "ev_person (task_event t) = pc_name p" "ev_role (task_event t) = pc_role p"
    "ev_room_id (task_event t) = sr_room_id room" "ev_event_id (task_event t) = sent_id x"
    using on_event_Some [OF assms(3)] by metis
  then obtain ms b where ms: "sr_members room = Inr ms"
    "inbound (sent_by x) (sr_room_id room) ms (room_shape_of room) (routing_new c) =
       InDeliver (task_session t) p (ev_room (task_event t))"
    "verdict (sent_at x) (sent_id x) (daemon_watermark (sr_room_id room) d) (dm_started_at_ms d)
       (dm_replay_window_ms d) = Deliver b"
    by (auto simp: admit_Some assms(2))
  from inbound_claimed [OF assms(1) ms(2)] ms(1,3) p(1,3-6) show ?thesis by metis
qed

definition demo_message :: message_event where
  "demo_message = \<lparr>me_event_id = ''$1'', me_sender = ''@a:x'', me_ts = 1000,
     me_content = \<lparr>relates_to = None, msgtype = MT_Text ''hello''\<rparr>\<rparr>"

lemma demo_delivered:
  "\<exists>ev. on_event demo_sdk demo_daemon demo_room (RV_Message demo_message) = Some (Task_Deliver ''mind'' ev 1000) \<and>
     ev_person ev = ''alice'' \<and> ev_text ev = ''hello''"
proof -
  have "admit demo_daemon demo_room ''@a:x'' ''$1'' 1000 =
      Some (''mind'', \<lparr>pc_name = ''alice'', pc_role = Owner, pc_addresses = [''@a:x'']\<rparr>, Dm)"
    by (simp add: admit_def member_ids_def demo_room_def demo_daemon_def daemon_new_def Let_def inbound_def is_bot_def
        person_for_def people_in_def demo_config_def routing_new_def is_group_def room_shape_of_def
        daemon_watermark_def marks_get_def verdict_def saturating_mul_def)
  then show ?thesis
    by (simp add: on_message_def demo_message_def parse_content_def relation_of_def Let_def)
       (simp add: demo_room_def)
qed

theorem inbound_respects_config_witness:
  "\<exists>s t. on_event demo_sdk demo_daemon demo_room (RV_Message demo_message) = Some t \<and>
     s \<in> set (sessions demo_config) \<and> sc_name s = ''mind'' \<and>
     claims demo_config s ''!private'' (ev_room (task_event t)) \<lparr>pc_name = ''alice'', pc_role = Owner, pc_addresses = [''@a:x'']\<rparr>"
proof -
  obtain ev where t: "on_event demo_sdk demo_daemon demo_room (RV_Message demo_message) = Some (Task_Deliver ''mind'' ev 1000)"
    "ev_person ev = ''alice''"
    using demo_delivered by blast
  have "dm_routing demo_daemon = routing_new demo_config"
    by (simp add: demo_daemon_def daemon_new_def Let_def)
  from inbound_respects_config [OF demo_config_valid this t(1)] t show ?thesis
    by (fastforce simp: demo_room_def demo_config_def)
qed


definition demo_env :: in_env where
  "demo_env = \<lparr>ie_media = (\<lambda>_. Inr ''abc''), ie_open_error = None, ie_write_error = None, ie_flush_error = None,
     ie_timeout = None, ie_human_size = (\<lambda>_. [])\<rparr>"

definition demo_media :: media where
  "demo_media = \<lparr>md_name = ''a.txt'', md_mime = ''text/plain'', md_size = None, md_caption = [], md_source = ''mxc''\<rparr>"


end
