(* ===== verification/Delivery.thy ===== *)
theory Delivery
  imports Server Inbound
begin

text \<open>
  A message on its way through the daemon: the handlers of \<open>Inbound\<close> put it into the
  registry, the connections of \<open>Server\<close> take it out and acknowledge it, and the watermark
  an acknowledgement leaves decides whether the handlers let it in again.
\<close>

section \<open>What is pending for a session\<close>

definition pending_for :: "string \<Rightarrow> daemon \<Rightarrow> stamped list" where
  "pending_for s d = inflight_of s (dm_registry d) @ items (backlog_of s (dm_registry d))"

text \<open>All of it fits the session's backlog, and none of it is past the age limit at a time.\<close>

definition keepable :: "string \<Rightarrow> u64 \<Rightarrow> daemon \<Rightarrow> bool" where
  "keepable s now d =
     (let b = backlog_of s (dm_registry d)
      in length (pending_for s d) \<le> max (backlog.max_len b) 1 \<and> (\<forall>x \<in> set (pending_for s d). \<not> expired (max_age_ms b) now x))"

lemma live_all: "(\<forall>x \<in> set es. \<not> expired age now x) \<Longrightarrow> live age now es = es"
  by (cases es) (auto simp: live_def)

lemma newest_all: "length xs \<le> n \<Longrightarrow> newest n xs = xs"
  by (simp add: newest_def)

lemma restore_keeps:
  assumes "length (inflight_of s r @ items (backlog_of s r)) \<le> max (backlog.max_len (backlog_of s r)) 1"
    and "\<forall>x \<in> set (inflight_of s r @ items (backlog_of s r)). \<not> expired (max_age_ms (backlog_of s r)) now x"
  defines "r' \<equiv> fst (registry_restore s now r)"
  shows "inflight_of s r' = [] \<and> items (backlog_of s r') = inflight_of s r @ items (backlog_of s r) \<and>
    backlog.max_len (backlog_of s r') = backlog.max_len (backlog_of s r) \<and> max_age_ms (backlog_of s r') = max_age_ms (backlog_of s r)"
proof (cases "inflight_of s r = []")
  case True
  then show ?thesis by (simp add: r'_def registry_restore_def)
next
  case False
  let ?r1 = "r\<lparr>inflight := (inflight r)(s := None)\<rparr>"
  have "backlog_of s ?r1 = backlog_of s r"
    by simp
  with False assms(1,2) show ?thesis
    by (simp add: r'_def registry_restore_def Let_def backlog_restore_newest live_all newest_all)
qed

lemma take_backlog_keeps:
  assumes "\<forall>x \<in> set (items (backlog_of s r)). \<not> expired (max_age_ms (backlog_of s r)) now x"
  shows "fst (snd (take_backlog s now r)) = items (backlog_of s r)"
proof (cases "backlogs r s")
  case None
  then show ?thesis by (simp add: take_backlog_def backlog_of_def backlog_new_def)
next
  case (Some b)
  then have "backlog_of s r = b" by (simp add: backlog_of_def)
  with assms Some show ?thesis
    by (simp add: take_backlog_def Let_def backlog_drain_live live_all)
qed

lemma disconnect_registry:
  "dm_registry (disconnect now c d) = fst (registry_restore (cn_session c) now (claim_release (cn_session c) (dm_registry d)))"
  by (simp add: disconnect_def Let_def session_disconnected_def claim_drop_def)

lemma disconnect_keeps:
  assumes "keepable (cn_session c) now d"
  shows "inflight_of (cn_session c) (dm_registry (disconnect now c d)) = []"
    and "items (backlog_of (cn_session c) (dm_registry (disconnect now c d))) = pending_for (cn_session c) d"
    and "max_age_ms (backlog_of (cn_session c) (dm_registry (disconnect now c d))) =
      max_age_ms (backlog_of (cn_session c) (dm_registry d))"
proof -
  let ?s = "cn_session c" and ?r = "claim_release (cn_session c) (dm_registry d)"
  have r: "inflight_of ?s ?r = inflight_of ?s (dm_registry d)" "backlog_of ?s ?r = backlog_of ?s (dm_registry d)"
    by (simp_all add: claim_release_def)
  from restore_keeps [of ?s ?r now] assms
  show "inflight_of ?s (dm_registry (disconnect now c d)) = []"
    "items (backlog_of ?s (dm_registry (disconnect now c d))) = pending_for ?s d"
    "max_age_ms (backlog_of ?s (dm_registry (disconnect now c d))) = max_age_ms (backlog_of ?s (dm_registry d))"
    unfolding disconnect_registry r by (simp_all add: keepable_def pending_for_def Let_def)
qed

section \<open>Into the registry\<close>

lemma deliver_pends:
  assumes "in_deliver outcome now s ev ts d = (res, d')" "\<forall>err. res \<noteq> Dropped err"
  shows "(ts, ev) \<in> set (pending_for s d') \<and> (res = Delivered \<longleftrightarrow> s \<in> inner (dm_registry d) \<and> outcome = Sent) \<and>
    (res \<noteq> Delivered \<longrightarrow> (ts, ev) \<in> set (items (backlog_of s (dm_registry d'))))"
proof (cases "s \<in> inner (dm_registry d) \<and> outcome = Sent")
  case True
  with assms show ?thesis
    by (auto simp: in_deliver_def dispatch_def registry_deliver_def pending_for_def Let_def)
next
  case False
  then have "\<exists>r1 err. registry_deliver outcome s ev ts (dm_registry d) = (r1, Inl err)"
    by (cases outcome) (auto simp: registry_deliver_def Let_def)
  then obtain r1 err where r1: "registry_deliver outcome s ev ts (dm_registry d) = (r1, Inl err)" by blast
  then have err: "err = NotConnected"
    using assms by (cases err) (auto simp: in_deliver_def dispatch_def)
  obtain r2 n k where e: "registry_enqueue s ts ev now r1 = (r2, n, k)" by (metis prod_cases3)
  have d': "d' = d\<lparr>dm_registry := r2\<rparr>" "res = Queued n"
    using assms(1) r1 err e by (auto simp: in_deliver_def dispatch_def)
  obtain b k' where b: "backlog_push ts ev now (backlog_of s r1) = (b, k')" by force
  then have "backlog_of s r2 = b"
    using e by (auto simp: registry_enqueue_def)
  moreover have "(ts, ev) \<in> set (items b)"
    using fq.push_newest_kept [OF b] last_in_set by metis
  ultimately show ?thesis
    using d' False by (auto simp: pending_for_def)
qed

lemma run_task_pends:
  assumes "run_task e outcome now t d = (res, d')" "\<forall>err. res \<noteq> Dropped err"
  shows "\<exists>ev. ev_event_id ev = ev_event_id (task_event t) \<and> ev_room_id ev = ev_room_id (task_event t) \<and>
    (task_ts t, ev) \<in> set (pending_for (task_session t) d') \<and>
    (res \<noteq> Delivered \<longrightarrow> (task_ts t, ev) \<in> set (items (backlog_of (task_session t) (dm_registry d'))))"
proof (cases t)
  case (Task_Deliver s ev ts)
  with assms deliver_pends [of outcome now s ev ts d res d'] show ?thesis by auto
next
  case (Task_Fetch s ev md ts)
  obtain ev' s' where f: "fetch_attachment e (dm_spool d) md ev (dm_fs d) = (ev', s')" by force
  have "ev_event_id ev' = ev_event_id ev" "ev_room_id ev' = ev_room_id ev"
    using f by (auto simp: fetch_attachment_def in_note_def Let_def
        split: if_splits option.splits sum.splits prod.splits download_error.splits)
  with Task_Fetch f assms deliver_pends [of outcome now s ev' ts "d\<lparr>dm_fs := s'\<rparr>" res d'] show ?thesis by auto
qed

section \<open>Out of the registry\<close>

lemma marks_set_refuses:
  assumes "ts < t \<or> ts = t \<and> eid = e"
  shows "verdict ts eid (marks_get room (marks_set to_string ok room \<lparr>ts_ms = t, event_id = e\<rparr> m)) started window =
    AlreadyDelivered"
  using assms by (auto simp: verdict_def marks_get_def marks_set_def Let_def split: option.splits)

lemma daemon_acked_mark:
  "daemon_watermark room (daemon_acked sdk to_string ok s ev ts now d) =
     marks_get room (marks_set to_string ok (ev_room_id ev) \<lparr>ts_ms = ts, event_id = ev_event_id ev\<rparr> (dm_marks d))"
  by (auto simp: daemon_acked_def daemon_watermark_def mark_read_def Let_def split: option.splits)

lemma take_event_id: "take_event eid l = Some (x, l1) \<Longrightarrow> ev_event_id (snd x) = eid"
  by (induction l arbitrary: l1) (auto split: if_splits option.splits)

section \<open>Properties\<close>


definition demo_connected :: daemon where
  "demo_connected = demo_daemon\<lparr>dm_registry := (dm_registry demo_daemon)\<lparr>inner := {''mind''}\<rparr>\<rparr>"


text \<open>
  C23: an acknowledged event is not delivered again: once a session acknowledged an event in
  flight, the handlers refuse it, and everything sent in the same room before it, whatever
  the state of the daemon is otherwise.
\<close>

theorem acknowledged_not_admitted:
  assumes "registry_ack (cn_session c) (ack_event_id a) (dm_registry (wd_daemon w)) = (r, Some (ts, ev))"
    and "sr_room_id room = ev_room_id ev"
    and "sent_at x < ts \<or> sent_at x = ts \<and> sent_id x = ack_event_id a"
  shows "on_event sdk' (wd_daemon (serve_ack sdk p e a c w)) room x = None"
proof (rule on_event_refused)
  have "ev_event_id ev = ack_event_id a"
    using assms(1) by (auto simp: registry_ack_def split: option.splits dest: take_event_id)
  then have "verdict (sent_at x) (sent_id x) (daemon_watermark (sr_room_id room) (wd_daemon (serve_ack sdk p e a c w)))
      st win = AlreadyDelivered" for st win
    using assms marks_set_refuses [of "sent_at x" ts "sent_id x" "ack_event_id a" "ev_room_id ev"]
    by (simp add: serve_ack_def daemon_acked_mark)
  then show "admit (wd_daemon (serve_ack sdk p e a c w)) room (sent_by x) (sent_id x) (sent_at x) = None"
    by (auto simp: admit_def split: sum.splits inbound_t.splits)
qed

theorem acknowledged_not_admitted_witness:
  "on_event demo_sdk (wd_daemon (serve_ack demo_sdk \<lparr>cp_marks = (\<lambda>_. []), cp_decode = Some, cp_show = (\<lambda>_. [])\<rparr>
       \<lparr>ce_now = 0, ce_open_ok = True, ce_write = Written, ce_flush_ok = True, ce_marks_ok = True\<rparr>
       \<lparr>ack_event_id = ''$1''\<rparr> (conn_new demo_daemon ''mind'')
       \<lparr>wd_daemon = demo_daemon\<lparr>dm_registry := (dm_registry demo_daemon)\<lparr>inflight := [''mind'' \<mapsto> [(1000, demo_event ''$1'')]]\<rparr>\<rparr>,
        wd_posts = []\<rparr>))
     (demo_room\<lparr>sr_room_id := ''!r''\<rparr>) (RV_Message demo_message) = None"
  by (rule acknowledged_not_admitted [where ts = 1000 and ev = "demo_event ''$1''"])
     (auto simp: registry_ack_def conn_new_def demo_event_def demo_message_def)

end
