(* ===== verification/Owner_Alert.thy ===== *)
theory Owner_Alert
  imports Outbound
begin

text \<open>
  The daemon's alerts to the owner (\<open>crates/siltad/src/alert.rs\<close>): the wording, the choice
  of the owner's DM, and the watcher that sends the alerts that come due. The bookkeeping
  is \<open>Alert\<close>, the reports of silent sessions come from the typing refreshes of
  \<open>Daemon_State\<close>; posts are recorded in the world of \<open>Outbound\<close>.
\<close>

section \<open>The wording\<close>

definition minutes :: "u64 \<Rightarrow> string" where
  "minutes ms =
     (let m = unat ms div 60000
      in if m < 60 then dec m @ '' min''
         else if m mod 60 = 0 then dec (m div 60) @ '' h''
         else dec (m div 60) @ '' h '' @ dec (m mod 60) @ '' min'')"

text \<open>The warning sign in UTF-8.\<close>

definition WARNING_SIGN :: string where
  "WARNING_SIGN = [CHR 0xE2, CHR 0x9A, CHR 0xA0]"

definition quote :: "string \<Rightarrow> string" where
  "quote s = [CHR 0x22] @ s @ [CHR 0x22]"

fun alert_message :: "alert \<Rightarrow> string \<Rightarrow> u64 \<Rightarrow> string" where
  "alert_message (Away session since_ms) host now =
     WARNING_SIGN @ '' Silta: session '' @ quote session @ '' has been disconnected for '' @
     minutes (saturating_sub now since_ms) @ '' (since '' @ rfc3339_utc since_ms @ ''). Check '' @
     quote (''systemctl status silta-session@'' @ session) @ '' and '' @
     quote (''journalctl -u silta-session@'' @ session) @ '' on '' @ host @
     ''; a failed start or a missing or expired token are the usual causes.''"
| "alert_message (Back session away_ms) host now =
     ''Silta: session '' @ quote session @ '' is connected again after '' @ minutes away_ms @ ''.''"
| "alert_message (Silent session room_id delivered_ms) host now =
     WARNING_SIGN @ '' Silta: session '' @ quote session @ '' received a message at '' @ rfc3339_utc delivered_ms @
     '' and has shown no reply, reaction or typing for '' @ minutes (saturating_sub now delivered_ms) @
     ''. If it repeats, check '' @ quote (''journalctl -u silta-session@'' @ session) @ '' on '' @ host @
     '': an expired token shows as authentication_failed, an API account out of credits as an API error.''"

section \<open>The owner's DM\<close>

text \<open>The loop over a room's members: whether it ran to its end, and the owner found.\<close>

fun owner_of_members :: "routing \<Rightarrow> string list \<Rightarrow> string option \<Rightarrow> bool \<times> string option" where
  "owner_of_members r [] found = (True, found)"
| "owner_of_members r (m # ms) found =
     (if is_bot m r then owner_of_members r ms found
      else case person_for m r of
        None \<Rightarrow> (False, found)
      | Some p \<Rightarrow>
          if pc_role p = Owner \<and> (found = None \<or> found = Some (pc_name p))
          then owner_of_members r ms (Some (pc_name p))
          else (False, found))"

fun find_owner_dm :: "routing \<Rightarrow> sdk_room list \<Rightarrow> sdk_room option" where
  "find_owner_dm r [] = None"
| "find_owner_dm r (room # rooms) =
     (case member_ids room of
        Inl _ \<Rightarrow> find_owner_dm r rooms
      | Inr members \<Rightarrow>
          (case owner_of_members r members None of
             (True, Some name) \<Rightarrow> Some room
           | _ \<Rightarrow> find_owner_dm r rooms))"

definition owner_dm :: "sdk \<Rightarrow> daemon \<Rightarrow> sdk_room option" where
  "owner_dm sdk d = find_owner_dm (dm_routing d) (cl_joined_rooms sdk)"

definition alert_send :: "sdk \<Rightarrow> u64 \<Rightarrow> alert \<Rightarrow> world \<Rightarrow> world" where
  "alert_send sdk now a w =
     (case owner_dm sdk (wd_daemon w) of
        None \<Rightarrow> w
      | Some room \<Rightarrow> snd (post sdk room (Out_Plain (alert_message a (dm_hostname (wd_daemon w)) now)) w))"

section \<open>The watcher\<close>

definition on_alerts :: "watch \<Rightarrow> world \<Rightarrow> world" where
  "on_alerts a w = w\<lparr>wd_daemon := (wd_daemon w)\<lparr>dm_alerts := a\<rparr>\<rparr>"

text \<open>
  A tick, or a report received from the typing refreshes; each with the clock it reads.
  \<open>None\<close> is the panic of \<open>Watch::tick\<close>.
\<close>

datatype watcher_input = W_Tick u64 | W_Report u64

definition take_report :: "world \<Rightarrow> (silence \<times> world) option" where
  "take_report w =
     (case ty_silence (dm_typing (wd_daemon w)) of
        [] \<Rightarrow> None
      | s # rest \<Rightarrow> Some (s, on_typing (\<lambda>st. st\<lparr>ty_silence := rest\<rparr>) w))"

fun watcher_step :: "sdk \<Rightarrow> watcher_input \<Rightarrow> world \<Rightarrow> world option" where
  "watcher_step sdk (W_Tick now) w =
     (case watch_tick now (dm_alerts (wd_daemon w)) of
        None \<Rightarrow> None
      | Some (a, due) \<Rightarrow> Some (fold (alert_send sdk now) due (on_alerts a w)))"
| "watcher_step sdk (W_Report now) w =
     (case take_report w of
        None \<Rightarrow> Some w
      | Some (s, w1) \<Rightarrow>
          (let (a, due) = watch_silent (si_session s) (si_room_id s) (si_delivered_ms s) now (dm_alerts (wd_daemon w1))
           in Some (fold (alert_send sdk now) (case due of Some x \<Rightarrow> [x] | None \<Rightarrow> []) (on_alerts a w1))))"

text \<open>The task runs only when the alerts are on.\<close>

fun watcher_run :: "sdk \<Rightarrow> watcher_input list \<Rightarrow> world \<Rightarrow> world option" where
  "watcher_run sdk [] w = Some w"
| "watcher_run sdk (i # is) w =
     (if \<not> watch_enabled (dm_alerts (wd_daemon w)) then Some w
      else case watcher_step sdk i w of None \<Rightarrow> None | Some w1 \<Rightarrow> watcher_run sdk is w1)"

section \<open>Where alerts go\<close>

text \<open>A joined room of one person with the owner role, the bot aside.\<close>

definition owner_room :: "sdk \<Rightarrow> routing \<Rightarrow> string \<Rightarrow> bool" where
  "owner_room sdk r room_id =
     (\<exists>room \<in> set (cl_joined_rooms sdk). \<exists>ms name. sr_room_id room = room_id \<and> sr_members room = Inr ms \<and>
        (\<exists>m \<in> set ms. \<not> is_bot m r) \<and>
        (\<forall>m \<in> set ms. \<not> is_bot m r \<longrightarrow>
           (\<exists>p. person_for m r = Some p \<and> pc_role p = Owner \<and> pc_name p = name)))"

lemma owner_of_members_sound:
  assumes "owner_of_members r ms found = (True, Some name)"
  shows "(found = None \<or> found = Some name) \<and> (found \<noteq> None \<or> (\<exists>m \<in> set ms. \<not> is_bot m r)) \<and>
    (\<forall>m \<in> set ms. \<not> is_bot m r \<longrightarrow> (\<exists>p. person_for m r = Some p \<and> pc_role p = Owner \<and> pc_name p = name))"
  using assms
proof (induction r ms found rule: owner_of_members.induct)
  case (2 r m ms found)
  then show ?case by (auto split: if_splits option.splits)
qed simp

lemma find_owner_dm_sound:
  "find_owner_dm r rooms = Some room \<Longrightarrow>
     room \<in> set rooms \<and> (\<exists>ms name. sr_members room = Inr ms \<and> owner_of_members r ms None = (True, Some name))"
  by (induction rooms) (auto simp: member_ids_def split: sum.splits prod.splits option.splits bool.splits)

lemma owner_dm_room: "owner_dm sdk d = Some room \<Longrightarrow> owner_room sdk (dm_routing d) (sr_room_id room)"
  using find_owner_dm_sound [of "dm_routing d" "cl_joined_rooms sdk" room] owner_of_members_sound
  by (fastforce simp: owner_dm_def owner_room_def)

lemma alert_send_posted:
  "posted_only (owner_room sdk (dm_routing (wd_daemon w))) w (alert_send sdk now a w)"
  "wd_daemon (alert_send sdk now a w) = wd_daemon w"
  using owner_dm_room [of sdk "wd_daemon w"]
  by (auto simp: alert_send_def post_def Let_def posted_only_def split: option.splits)

lemma alerts_posted:
  "posted_only (owner_room sdk (dm_routing (wd_daemon w))) w (fold (alert_send sdk now) as w) \<and>
   wd_daemon (fold (alert_send sdk now) as w) = wd_daemon w"
proof (induction as arbitrary: w)
  case (Cons a as)
  show ?case
    using Cons [of "alert_send sdk now a w"] alert_send_posted [where w = w]
    by (auto intro: posted_only_trans)
qed simp

lemma posted_only_daemon: "posted_only P (w\<lparr>wd_daemon := d\<rparr>) v = posted_only P w v"
  by (simp add: posted_only_def)

lemma alerts_after:
  assumes "dm_routing d = dm_routing (wd_daemon w)"
  shows "posted_only (owner_room sdk (dm_routing (wd_daemon w))) w (fold (alert_send sdk now) as (w\<lparr>wd_daemon := d\<rparr>))"
    and "wd_daemon (fold (alert_send sdk now) as (w\<lparr>wd_daemon := d\<rparr>)) = d"
  using alerts_posted [where w = "w\<lparr>wd_daemon := d\<rparr>"] assms by (simp_all add: posted_only_daemon)

definition watched_once :: "daemon \<Rightarrow> bool" where
  "watched_once d = distinct (map fst (watch.sessions (dm_alerts d)))"

text \<open>The steps of the watcher seen from the posts: the alerts, over a changed daemon.\<close>

lemma watcher_step_alerts:
  assumes "watched_once (wd_daemon w)"
  obtains as d now where "watcher_step sdk i w = Some (fold (alert_send sdk now) as (w\<lparr>wd_daemon := d\<rparr>))"
    "dm_routing d = dm_routing (wd_daemon w)" "watched_once d"
proof (cases i)
  case (W_Tick now)
  let ?a = "dm_alerts (wd_daemon w)"
  obtain a due where "watch_tick now ?a = Some (a, due)" "map fst (watch.sessions a) = map fst (watch.sessions ?a)"
    using watch_tick_eq [of ?a now] assms by (auto simp: watched_once_def)
  with W_Tick assms show thesis
    by (intro that [of now due "(wd_daemon w)\<lparr>dm_alerts := a\<rparr>"]) (simp_all add: on_alerts_def watched_once_def)
next
  case (W_Report now)
  show thesis
  proof (cases "take_report w")
    case None
    with W_Report assms show thesis by (intro that [of now "[]" "wd_daemon w"]) simp_all
  next
    case (Some p)
    obtain r w1 where p: "p = (r, w1)" by force
    let ?a = "dm_alerts (wd_daemon w)"
    obtain f where w1: "w1 = on_typing f w"
      using Some p by (auto simp: take_report_def split: list.splits)
    obtain a due where silent: "watch_silent (si_session r) (si_room_id r) (si_delivered_ms r) now ?a = (a, due)" by force
    then have "distinct (map fst (watch.sessions a))"
      using assms by (auto simp: watched_once_def watch_silent_def distinct_update split: if_splits option.splits)
    with W_Report Some p w1 silent show thesis
      by (intro that [of now "case due of Some x \<Rightarrow> [x] | None \<Rightarrow> []" "(wd_daemon w1)\<lparr>dm_alerts := a\<rparr>"])
         (simp_all add: on_alerts_def on_typing_def watched_once_def)
  qed
qed

lemma watcher_run_posted:
  assumes "watched_once (wd_daemon w)"
  shows "\<exists>w'. watcher_run sdk is w = Some w' \<and> posted_only (owner_room sdk (dm_routing (wd_daemon w))) w w'"
  using assms
proof (induction "is" arbitrary: w)
  case (Cons i "is")
  show ?case
  proof (cases "watch_enabled (dm_alerts (wd_daemon w))")
    case True
    obtain as d now where st: "watcher_step sdk i w = Some (fold (alert_send sdk now) as (w\<lparr>wd_daemon := d\<rparr>))"
      "dm_routing d = dm_routing (wd_daemon w)" "watched_once d"
      using watcher_step_alerts [OF Cons.prems] .
    let ?w = "fold (alert_send sdk now) as (w\<lparr>wd_daemon := d\<rparr>)"
    note step = alerts_after [OF st(2), of sdk now as]
    obtain w' where "watcher_run sdk is ?w = Some w'" "posted_only (owner_room sdk (dm_routing d)) ?w w'"
      using Cons.IH [of ?w] st(3) step(2) by auto
    with True st step show ?thesis by (auto intro: posted_only_trans)
  qed simp
qed simp

section \<open>Properties\<close>

text \<open>
  C25: whatever ticks and reports of silent sessions the watcher gets, it never panics and
  every alert it posts goes into a joined room in which, the bot aside, there is at least
  one member and every member is an address of one registered person with the owner role.
\<close>

theorem alerts_reach_owner_only:
  assumes "watched_once (wd_daemon w)"
  shows "\<exists>w'. watcher_run sdk inputs w = Some w' \<and>
    posted_only (owner_room sdk (dm_routing (wd_daemon w))) w w'"
  using assms by (rule watcher_run_posted)

theorem alerts_reach_owner_only_witness:
  "\<exists>w'. watcher_run demo_sdk [W_Tick 0, W_Report 0, W_Tick 700000] \<lparr>wd_daemon = demo_daemon, wd_posts = []\<rparr> = Some w' \<and>
     posted_only (owner_room demo_sdk (routing_new demo_config)) \<lparr>wd_daemon = demo_daemon, wd_posts = []\<rparr> w'"
proof -
  have "watched_once demo_daemon"
    by (simp add: watched_once_def demo_daemon_def daemon_new_def Let_def watch_new_def watch_new_distinct)
  moreover have "dm_routing demo_daemon = routing_new demo_config"
    by (simp add: demo_daemon_def daemon_new_def Let_def)
  ultimately show ?thesis
    using alerts_reach_owner_only [of "\<lparr>wd_daemon = demo_daemon, wd_posts = []\<rparr>" demo_sdk
        "[W_Tick 0, W_Report 0, W_Tick 700000]"] by (simp del: watcher_run.simps)
qed

end
