(* ===== verification/Session_State.thy ===== *)
theory Session_State
  imports Rotation Calendar "HOL-Library.AList" "HOL-Library.List_Lexorder" "HOL-Library.Char_ord"
begin

unbundle bit_operations_syntax

text \<open>
  What the supervisor keeps in a session's state directory
  (\<open>crates/silta-session/src/state.rs\<close>) and its watch on Claude Code's output
  (\<open>contract.rs\<close>). The files the supervisor reads and writes are the fields of
  \<open>session_dir\<close>: the text of the id, ready, marker and rotation files, Claude Code's
  projects with their transcripts and memory directories, and the snapshots. JSON, the
  outcome of each write, copy and removal, and the random bytes are parameters.
\<close>

section \<open>Files and directories\<close>

text \<open>
  A directory entry: a file with the millisecond since the epoch of its last change (if
  there is one) and its bytes, a directory, a directory that cannot be listed, or anything else.
\<close>

datatype tree =
    TFile "int option" string
  | TDir "(string \<times> tree) list"
  | TClosed
  | TOther "int option"

record project =
  pj_transcripts :: "(string \<times> string) list"
  pj_memory :: "tree option"

datatype snap_item = SI_Memory tree | SI_Transcript string string

record session_dir =
  sdr_id :: "string option"
  sdr_ready :: "string option"
  sdr_marker :: "string option"
  sdr_rotation :: "string option"
  sdr_projects :: "(string \<times> project) list"
  sdr_backups :: "(string \<times> (string \<times> snap_item) list) list"
  sdr_cache :: "(string \<times> tree) list"

text \<open>\<open>write_atomic\<close>: the new text is in place only when both the write and the rename succeed.\<close>

definition write_atomic :: "bool \<Rightarrow> string \<Rightarrow> string option \<Rightarrow> string option" where
  "write_atomic ok new old = (if ok then Some new else old)"

section \<open>The session id\<close>

definition transcript :: "string \<Rightarrow> session_dir \<Rightarrow> (string \<times> string) option" where
  "transcript i d =
     map_option (\<lambda>(slug, p). (slug, the (map_of (pj_transcripts p) i)))
       (find (\<lambda>(slug, p). map_of (pj_transcripts p) i \<noteq> None) (sdr_projects d))"

definition read_id :: "session_dir \<Rightarrow> string option" where
  "read_id d = (case sdr_id d of
      None \<Rightarrow> None
    | Some txt \<Rightarrow> (let i = trim txt in if i \<noteq> [] then Some i else None))"

definition write_id :: "bool \<Rightarrow> string \<Rightarrow> session_dir \<Rightarrow> session_dir" where
  "write_id ok i d = d\<lparr>sdr_id := write_atomic ok (i @ [NL]) (sdr_id d)\<rparr>"

definition drop_id :: "session_dir \<Rightarrow> session_dir" where
  "drop_id d = d\<lparr>sdr_id := None\<rparr>"

definition clear_channel_ready :: "session_dir \<Rightarrow> session_dir" where
  "clear_channel_ready d = d\<lparr>sdr_ready := None\<rparr>"

definition write_channel_ready :: "bool \<Rightarrow> string \<Rightarrow> session_dir \<Rightarrow> session_dir" where
  "write_channel_ready ok i d = d\<lparr>sdr_ready := write_atomic ok (i @ [NL]) (sdr_ready d)\<rparr>"

text \<open>\<open>new_id\<close> on the sixteen bytes read from \<open>/dev/urandom\<close>.\<close>

definition hex_digit :: "nat \<Rightarrow> char" where
  "hex_digit n = (if n < 10 then char_of (48 + n) else char_of (87 + n))"

definition hex_byte :: "8 word \<Rightarrow> string" where
  "hex_byte b = [hex_digit (unat b div 16), hex_digit (unat b mod 16)]"

definition new_id :: "8 word list \<Rightarrow> string" where
  "new_id bytes0 =
     (let bytes1 = bytes0[6 := (bytes0 ! 6 AND 0x0f) OR 0x40];
          bytes = bytes1[8 := (bytes1 ! 8 AND 0x3f) OR 0x80];
          hex = concat (map hex_byte bytes)
      in take 8 hex @ ''-'' @ take 4 (drop 8 hex) @ ''-'' @ take 4 (drop 12 hex) @ ''-'' @
         take 4 (drop 16 hex) @ ''-'' @ take 12 (drop 20 hex))"

section \<open>The rotation's next step\<close>

datatype next_start =
    Next_Normal
  | Next_Retry bool u32 bool
  | Next_Postponed u32 bool
  | Next_Fresh bool

definition marker_exists :: "session_dir \<Rightarrow> bool" where
  "marker_exists d = (sdr_marker d \<noteq> None)"

definition write_marker :: "bool \<Rightarrow> string \<Rightarrow> session_dir \<Rightarrow> session_dir" where
  "write_marker ok why d = d\<lparr>sdr_marker := write_atomic ok (why @ [NL]) (sdr_marker d)\<rparr>"

definition read_next :: "(string \<Rightarrow> next_start option) \<Rightarrow> session_dir \<Rightarrow> next_start" where
  "read_next from_str d =
     (case sdr_rotation d of
        None \<Rightarrow> Next_Normal
      | Some txt \<Rightarrow> (case from_str txt of None \<Rightarrow> Next_Normal | Some n \<Rightarrow> n))"

definition write_next :: "(next_start \<Rightarrow> string) \<Rightarrow> bool \<Rightarrow> next_start \<Rightarrow> session_dir \<Rightarrow> session_dir" where
  "write_next to_str ok n d =
     (if n = Next_Normal then (if ok then d\<lparr>sdr_rotation := None\<rparr> else d)
      else d\<lparr>sdr_rotation := write_atomic ok (to_str n @ [NL]) (sdr_rotation d)\<rparr>)"

definition clear_rotation :: "session_dir \<Rightarrow> session_dir" where
  "clear_rotation d = d\<lparr>sdr_marker := None, sdr_rotation := None\<rparr>"

section \<open>The handoff note\<close>

definition HANDOFF_NOTE :: string where
  "HANDOFF_NOTE = ''handoff.md''"

record handoff_watch =
  since_secs :: nat
  note_existed :: bool

text \<open>The memory directories: those of the projects whose \<open>memory\<close> is a directory.\<close>

definition is_dir :: "tree \<Rightarrow> bool" where
  "is_dir t = (case t of TDir _ \<Rightarrow> True | TClosed \<Rightarrow> True | _ \<Rightarrow> False)"

definition memory_dirs :: "session_dir \<Rightarrow> (string \<times> tree) list" where
  "memory_dirs d =
     concat (map (\<lambda>(slug, p). case pj_memory p of Some t \<Rightarrow> if is_dir t then [(slug, t)] else [] | None \<Rightarrow> [])
       (sdr_projects d))"

definition entry_of :: "string \<Rightarrow> tree \<Rightarrow> tree option" where
  "entry_of name t = (case t of TDir es \<Rightarrow> map_of es name | _ \<Rightarrow> None)"

definition watch_handoff :: "u64 \<Rightarrow> session_dir \<Rightarrow> handoff_watch" where
  "watch_handoff now d =
     \<lparr>since_secs = unat now div 1000,
      note_existed = (\<exists>m \<in> set (map snd (memory_dirs d)).
         case entry_of HANDOFF_NOTE m of Some (TFile _ _) \<Rightarrow> True | _ \<Rightarrow> False)\<rparr>"

text \<open>The time of the last change of an entry; a directory has none in the model.\<close>

definition mtime :: "tree \<Rightarrow> int option" where
  "mtime t = (case t of TFile m _ \<Rightarrow> m | TOther m \<Rightarrow> m | _ \<Rightarrow> None)"

fun any_file :: "(tree \<Rightarrow> bool) \<Rightarrow> tree \<Rightarrow> bool" and any_entry :: "(tree \<Rightarrow> bool) \<Rightarrow> (string \<times> tree) list \<Rightarrow> bool" where
  "any_file P (TDir es) = any_entry P es"
| "any_file P TClosed = False"
| "any_file P (TFile m c) = P (TFile m c)"
| "any_file P (TOther m) = P (TOther m)"
| "any_entry P [] = False"
| "any_entry P ((n, t) # es) = (any_file P t \<or> any_entry P es)"

definition written_since :: "nat \<Rightarrow> tree \<Rightarrow> bool" where
  "written_since secs t = (case mtime t of None \<Rightarrow> False | Some s \<Rightarrow> s \<ge> 0 \<and> nat s div 1000 \<ge> secs)"

definition handoff_written :: "handoff_watch \<Rightarrow> session_dir \<Rightarrow> bool" where
  "handoff_written hw d =
     (\<exists>m \<in> set (map snd (memory_dirs d)).
        if note_existed hw
        then (case entry_of HANDOFF_NOTE m of Some t \<Rightarrow> written_since (since_secs hw) t | None \<Rightarrow> False)
        else any_file (written_since (since_secs hw)) m)"

section \<open>Snapshots\<close>

text \<open>
  \<open>copy_dir\<close>: what was copied, and the number of files, or \<open>None\<close> at the first failure.
  \<open>ok\<close> tells whether the copy of a file succeeds.
\<close>

fun copy_dir :: "(tree \<Rightarrow> bool) \<Rightarrow> tree \<Rightarrow> tree \<times> nat option"
  and copy_entries :: "(tree \<Rightarrow> bool) \<Rightarrow> (string \<times> tree) list \<Rightarrow> (string \<times> tree) list \<times> nat option" where
  "copy_dir ok (TDir es) = (let (out, r) = copy_entries ok es in (TDir out, r))"
| "copy_dir ok TClosed = (TDir [], None)"
| "copy_dir ok (TFile m c) = (TDir [], None)"
| "copy_dir ok (TOther m) = (TDir [], None)"
| "copy_entries ok [] = ([], Some 0)"
| "copy_entries ok ((n, TFile m c) # es) =
     (if ok (TFile m c)
      then let (out, r) = copy_entries ok es in ((n, TFile m c) # out, map_option Suc r)
      else ([], None))"
| "copy_entries ok ((n, TOther m) # es) = copy_entries ok es"
| "copy_entries ok ((n, TDir ds) # es) =
     (case copy_dir ok (TDir ds) of
        (t, None) \<Rightarrow> ([(n, t)], None)
      | (t, Some k) \<Rightarrow> (let (out, r) = copy_entries ok es in ((n, t) # out, map_option ((+) k) r)))"
| "copy_entries ok ((n, TClosed) # es) = ([(n, TDir [])], None)"

record snapshot_info =
  sn_name :: string
  sn_memory_files :: nat
  sn_transcript :: bool

fun copy_memories :: "(tree \<Rightarrow> bool) \<Rightarrow> (string \<times> tree) list \<Rightarrow> (string \<times> snap_item) list \<times> nat option" where
  "copy_memories ok [] = ([], Some 0)"
| "copy_memories ok ((slug, t) # ms) =
     (case copy_dir ok t of
        (t', None) \<Rightarrow> ([(slug, SI_Memory t')], None)
      | (t', Some k) \<Rightarrow>
          (let (out, r) = copy_memories ok ms in ((slug, SI_Memory t') # out, map_option ((+) k) r)))"

definition add_snapshot :: "string \<Rightarrow> (string \<times> snap_item) list \<Rightarrow> session_dir \<Rightarrow> session_dir" where
  "add_snapshot name xs d =
     d\<lparr>sdr_backups := AList.update name
         (xs @ (case map_of (sdr_backups d) name of Some old \<Rightarrow> old | None \<Rightarrow> [])) (sdr_backups d)\<rparr>"

definition is_rotation_snapshot :: "string \<Rightarrow> bool" where
  "is_rotation_snapshot n = (ends_with ''-before-handoff'' n \<or> ends_with ''-after-handoff'' n)"

text \<open>\<open>old.sort()\<close> on paths under one directory is the byte order of their names.\<close>

definition prune_snapshots :: "(string \<Rightarrow> bool) \<Rightarrow> nat \<Rightarrow> session_dir \<Rightarrow> session_dir" where
  "prune_snapshots rm_ok keep d =
     (let old = sort (filter is_rotation_snapshot (map fst (sdr_backups d)));
          gone = drop (2 * keep) (rev old)
      in d\<lparr>sdr_backups := filter (\<lambda>(n, _). \<not> (n \<in> set gone \<and> rm_ok n)) (sdr_backups d)\<rparr>)"

definition snapshot ::
  "(tree \<Rightarrow> bool) \<Rightarrow> bool \<Rightarrow> (string \<Rightarrow> bool) \<Rightarrow> nat \<Rightarrow> string \<Rightarrow> string \<Rightarrow> u64 \<Rightarrow> session_dir \<Rightarrow> snapshot_info option \<times> session_dir"
where
  "snapshot ok copy_ok rm_ok keep moment_text i now d =
     (let name = rfc3339_utc now @ ''-'' @ moment_text
      in case copy_memories ok (memory_dirs d) of
           (out, None) \<Rightarrow> (None, add_snapshot name out d)
         | (out, Some n) \<Rightarrow>
             (case transcript i d of
                Some (slug, txt) \<Rightarrow>
                  if copy_ok
                  then (Some \<lparr>sn_name = name, sn_memory_files = n, sn_transcript = True\<rparr>,
                        prune_snapshots rm_ok keep (add_snapshot name (out @ [(slug, SI_Transcript i txt)]) d))
                  else (None, add_snapshot name out d)
              | None \<Rightarrow>
                  (Some \<lparr>sn_name = name, sn_memory_files = n, sn_transcript = False\<rparr>,
                   prune_snapshots rm_ok keep (add_snapshot name out d))))"

text \<open>The pruning of the cache: files last changed before the cutoff go, directories stay.\<close>

fun prune_older :: "(tree \<Rightarrow> bool) \<Rightarrow> int \<Rightarrow> (string \<times> tree) list \<Rightarrow> (string \<times> tree) list" where
  "prune_older rm_ok cutoff [] = []"
| "prune_older rm_ok cutoff ((n, TDir ds) # es) =
     (n, TDir (prune_older rm_ok cutoff ds)) # prune_older rm_ok cutoff es"
| "prune_older rm_ok cutoff ((n, TClosed) # es) = (n, TClosed) # prune_older rm_ok cutoff es"
| "prune_older rm_ok cutoff ((n, TFile m c) # es) =
     (if (case m of Some s \<Rightarrow> s < cutoff | None \<Rightarrow> False) \<and> rm_ok (TFile m c)
      then prune_older rm_ok cutoff es else (n, TFile m c) # prune_older rm_ok cutoff es)"
| "prune_older rm_ok cutoff ((n, TOther m) # es) =
     (if (case m of Some s \<Rightarrow> s < cutoff | None \<Rightarrow> False) \<and> rm_ok (TOther m)
      then prune_older rm_ok cutoff es else (n, TOther m) # prune_older rm_ok cutoff es)"

definition prune_cache :: "(tree \<Rightarrow> bool) \<Rightarrow> int \<Rightarrow> session_dir \<Rightarrow> session_dir" where
  "prune_cache rm_ok now d = d\<lparr>sdr_cache := prune_older rm_ok (now - 30 * 86400 * 1000) (sdr_cache d)\<rparr>"

section \<open>The contract with Claude Code\<close>

definition TESTED_VERSIONS :: "string list" where
  "TESTED_VERSIONS = [''2.1.281'', ''2.1.283'']"

definition FALLBACK_FATAL :: "string list" where
  "FALLBACK_FATAL = [''model_not_found'', ''permission_denied'', ''last_resort'', ''model_blocked'']"

definition FALLBACK_OUTAGE :: "string list" where
  "FALLBACK_OUTAGE = [''overloaded'', ''server_error'']"

record contract =
  spoke_at :: "instant option"
  warned_usage :: bool
  warned_turn :: bool

definition contract_default :: contract where
  "contract_default = \<lparr>spoke_at = None, warned_usage = False, warned_turn = False\<rparr>"

datatype contract_line =
    CL_Untested string
  | CL_No_Usage
  | CL_Unknown_Fallback string
  | CL_Auto_Compacted
  | CL_No_Result duration

definition contract_event :: "stream_event \<Rightarrow> bool \<Rightarrow> instant \<Rightarrow> contract \<Rightarrow> contract_line option \<times> contract" where
  "contract_event ev rotation now c =
     (case ev of
        SInit session version \<Rightarrow>
          (if version \<notin> set TESTED_VERSIONS then Some (CL_Untested version) else None, c)
      | SAssistant sub tokens synthetic \<Rightarrow>
          if sub then (None, c)
          else let c1 = c\<lparr>spoke_at := (case spoke_at c of None \<Rightarrow> Some now | Some t \<Rightarrow> Some t)\<rparr>
               in if tokens = None \<and> \<not> warned_usage c1 then (Some CL_No_Usage, c1\<lparr>warned_usage := True\<rparr>)
                  else (None, c1)
      | SResult is_error person \<Rightarrow> (None, c\<lparr>spoke_at := None, warned_turn := False\<rparr>)
      | SModelFallback trigger \<Rightarrow>
          (if trigger \<notin> set FALLBACK_FATAL \<and> trigger \<notin> set FALLBACK_OUTAGE
           then Some (CL_Unknown_Fallback trigger) else None, c)
      | SCompacted auto \<Rightarrow> (if auto \<and> rotation then Some CL_Auto_Compacted else None, c)
      | _ \<Rightarrow> (None, c))"

definition contract_tick :: "instant \<Rightarrow> duration \<Rightarrow> contract \<Rightarrow> contract_line option \<times> contract" where
  "contract_tick now cap c =
     (case spoke_at c of
        None \<Rightarrow> (None, c)
      | Some t \<Rightarrow>
          if warned_turn c \<or> now - t < cap then (None, c)
          else (Some (CL_No_Result cap), c\<lparr>warned_turn := True\<rparr>))"

section \<open>Copies are complete\<close>

text \<open>The files below an entry, with their paths and bytes.\<close>

fun files_of :: "tree \<Rightarrow> (string list \<times> string) list" and files_in :: "(string \<times> tree) list \<Rightarrow> (string list \<times> string) list" where
  "files_of (TFile m c) = [([], c)]"
| "files_of (TDir es) = files_in es"
| "files_of TClosed = []"
| "files_of (TOther m) = []"
| "files_in [] = []"
| "files_in ((n, t) # es) = map (\<lambda>(p, c). (n # p, c)) (files_of t) @ files_in es"

lemma copy_files:
  "copy_dir ok t = (t', Some k) \<Longrightarrow> files_of t' = files_of t \<and> k = length (files_of t)"
  "copy_entries ok es = (es', Some k) \<Longrightarrow> files_in es' = files_in es \<and> k = length (files_in es)"
proof (induction ok t and ok es arbitrary: t' k and es' k rule: copy_dir_copy_entries.induct)
  case (1 ok es)
  then show ?case by (cases "copy_entries ok es") auto
next
  case (6 ok n m c es)
  obtain out q where out: "copy_entries ok es = (out, q)" by (meson surj_pair)
  have ok: "ok (TFile m c)" using 6(2) by (rule contrapos_pp) simp
  with 6(2) out obtain j where q: "q = Some j" by (cases q) auto
  have "files_in out = files_in es" "j = length (files_in es)"
    using 6(1) [OF ok out [unfolded q]] by blast+
  with 6(2) ok out q show ?case by auto
next
  case (8 ok n ds es)
  obtain t r where t: "copy_dir ok (TDir ds) = (t, r)" by (meson surj_pair)
  obtain i where r: "r = Some i" using 8(3) t by (cases r) auto
  obtain out q where out: "copy_entries ok es = (out, q)" by (meson surj_pair)
  obtain j where q: "q = Some j" using 8(3) t r out by (cases q) auto
  have "files_of t = files_of (TDir ds)" "i = length (files_of (TDir ds))"
    using 8(1) [OF t [unfolded r]] by blast+
  moreover have "files_in out = files_in es" "j = length (files_in es)"
    using 8(2) [OF t [symmetric, unfolded r] refl out [unfolded q]] by blast+
  ultimately show ?case using 8(3) t r out q by auto
qed auto

lemma copy_memories_complete:
  assumes "copy_memories ok ms = (out, Some n)"
  shows "length out = length ms \<and>
    (\<forall>i < length ms. \<exists>t. out ! i = (fst (ms ! i), SI_Memory t) \<and> files_of t = files_of (snd (ms ! i))) \<and>
    n = sum_list (map (\<lambda>(slug, t). length (files_of t)) ms)"
  using assms
proof (induction ms arbitrary: out n)
  case (Cons x ms)
  obtain slug t where x: "x = (slug, t)" by force
  obtain t' r where t': "copy_dir ok t = (t', r)" by force
  obtain k where r: "r = Some k" using Cons.prems x t' by (cases r) auto
  obtain rest q where rest: "copy_memories ok ms = (rest, q)" by force
  obtain j where q: "q = Some j" using Cons.prems x t' r rest by (cases q) auto
  have out: "out = (slug, SI_Memory t') # rest" "n = k + j"
    using Cons.prems x t' r rest q by auto
  have IH: "length rest = length ms \<and>
      (\<forall>i < length ms. \<exists>t. rest ! i = (fst (ms ! i), SI_Memory t) \<and> files_of t = files_of (snd (ms ! i))) \<and>
      j = sum_list (map (\<lambda>(slug, t). length (files_of t)) ms)"
    using Cons.IH [OF rest [unfolded q]] .
  have "files_of t' = files_of t \<and> k = length (files_of t)"
    using copy_files(1) [OF t' [unfolded r]] .
  with IH show ?case
    by (auto simp: out x nth_Cons split: nat.splits)
qed simp

section \<open>The newest snapshots stay\<close>

text \<open>The snapshots of rotations, newest first by name.\<close>

definition rotation_snapshots :: "session_dir \<Rightarrow> string list" where
  "rotation_snapshots d = rev (sort (filter is_rotation_snapshot (map fst (sdr_backups d))))"

lemma set_rotation_snapshots: "set (rotation_snapshots d) = {n \<in> fst ` set (sdr_backups d). is_rotation_snapshot n}"
  by (auto simp: rotation_snapshots_def)

lemma take_or_drop:
  assumes "distinct xs"
  shows "x \<in> set xs \<Longrightarrow> x \<notin> set (drop k xs) \<longleftrightarrow> x \<in> set (take k xs)"
proof -
  have "set (take k xs) \<inter> set (drop k xs) = {}"
    using assms by (metis append_take_drop_id distinct_append)
  moreover have "set xs = set (take k xs) \<union> set (drop k xs)"
    by (metis append_take_drop_id set_append)
  ultimately show "x \<in> set xs \<Longrightarrow> x \<notin> set (drop k xs) \<longleftrightarrow> x \<in> set (take k xs)" by blast
qed

lemma prune_snapshots_keeps:
  assumes "distinct (map fst (sdr_backups d))" "\<forall>n. rm_ok n"
  shows "x \<in> set (sdr_backups (prune_snapshots rm_ok keep d)) \<longleftrightarrow>
    x \<in> set (sdr_backups d) \<and> (is_rotation_snapshot (fst x) \<longrightarrow> fst x \<in> set (take (2 * keep) (rotation_snapshots d)))"
proof -
  have d: "distinct (rotation_snapshots d)"
    using assms(1) by (simp add: rotation_snapshots_def)
  have drop: "set (drop (2 * keep) (rotation_snapshots d)) \<subseteq> set (rotation_snapshots d)"
    by (rule set_drop_subset)
  have "x \<in> set (sdr_backups d) \<Longrightarrow> is_rotation_snapshot (fst x) \<Longrightarrow> fst x \<in> set (rotation_snapshots d)"
    by (auto simp: set_rotation_snapshots)
  then have "x \<in> set (sdr_backups d) \<Longrightarrow> fst x \<notin> set (drop (2 * keep) (rotation_snapshots d)) \<longleftrightarrow>
      (is_rotation_snapshot (fst x) \<longrightarrow> fst x \<in> set (take (2 * keep) (rotation_snapshots d)))"
    using take_or_drop [OF d, of "fst x" "2 * keep"] drop set_rotation_snapshots [of d] by blast
  then show ?thesis
    using assms(2) by (auto simp: prune_snapshots_def rotation_snapshots_def [symmetric] Let_def)
qed

lemma add_snapshot_keys:
  "fst ` set (sdr_backups (add_snapshot name xs d)) = insert name (fst ` set (sdr_backups d))"
  "distinct (map fst (sdr_backups d)) \<Longrightarrow> distinct (map fst (sdr_backups (add_snapshot name xs d)))"
  by (auto simp: add_snapshot_def dom_map_of_conv_image_fst [symmetric] update_conv' distinct_update)

lemma add_snapshot_holds: "\<exists>old. map_of (sdr_backups (add_snapshot name xs d)) name = Some (xs @ old)"
  by (simp add: add_snapshot_def update_conv')

lemma hd_rotation_snapshots:
  assumes "n \<in> set (rotation_snapshots d)" "\<forall>m \<in> set (rotation_snapshots d). m \<le> n"
  shows "hd (rotation_snapshots d) = n"
proof -
  let ?s = "sort (filter is_rotation_snapshot (map fst (sdr_backups d)))"
  have n: "n \<in> set ?s" and le: "\<forall>m \<in> set ?s. m \<le> n"
    using assms by (simp_all add: rotation_snapshots_def)
  have "n \<le> last ?s"
    by (rule sorted_le_last [OF sorted_sort n])
  moreover have "last ?s \<in> set ?s"
    using n by (metis last_in_set empty_iff list.set(1))
  ultimately have "last ?s = n"
    using le by (meson antisym)
  then show ?thesis by (simp add: rotation_snapshots_def hd_rev)
qed

lemma prune_keeps_newest:
  assumes "distinct (map fst (sdr_backups d))" "\<forall>n. rm_ok n" "0 < keep"
    and "map_of (sdr_backups d) name = Some xs" "\<forall>m \<in> fst ` set (sdr_backups d). is_rotation_snapshot m \<longrightarrow> m \<le> name"
  shows "map_of (sdr_backups (prune_snapshots rm_ok keep d)) name = Some xs"
proof -
  have mem: "(name, xs) \<in> set (sdr_backups d)"
    using assms(4) by (rule map_of_SomeD)
  have "name \<in> set (take (2 * keep) (rotation_snapshots d))" if rot: "is_rotation_snapshot name"
  proof -
    have "name \<in> set (rotation_snapshots d)"
      using mem rot by (force simp: set_rotation_snapshots)
    moreover from this assms(5) have "hd (rotation_snapshots d) = name"
      by (intro hd_rotation_snapshots) (auto simp: set_rotation_snapshots)
    ultimately show ?thesis
      using assms(3) by (cases "rotation_snapshots d"; cases "2 * keep") auto
  qed
  with mem have "(name, xs) \<in> set (sdr_backups (prune_snapshots rm_ok keep d))"
    by (simp add: prune_snapshots_keeps [OF assms(1,2)])
  moreover have "distinct (map fst (sdr_backups (prune_snapshots rm_ok keep d)))"
    using assms(1) by (simp add: prune_snapshots_def Let_def distinct_map_filter)
  ultimately show ?thesis by (simp add: map_of_eq_Some_iff)
qed

text \<open>A copy of the memory and the transcript of a session.\<close>

definition holds_session :: "string \<Rightarrow> session_dir \<Rightarrow> (string \<times> snap_item) list \<Rightarrow> bool" where
  "holds_session i d xs =
     ((\<forall>x \<in> set (memory_dirs d). \<exists>t. (fst x, SI_Memory t) \<in> set xs \<and> files_of t = files_of (snd x)) \<and>
      (\<forall>slug bs. transcript i d = Some (slug, bs) \<longrightarrow> (slug, SI_Transcript i bs) \<in> set xs))"

lemma snapshot_Some:
  assumes "snapshot ok copy_ok rm_ok keep mt i now d = (Some info, d')"
  obtains xs where "d' = prune_snapshots rm_ok keep (add_snapshot (sn_name info) xs d)" "holds_session i d xs"
    "sn_name info = rfc3339_utc now @ ''-'' @ mt"
    "sn_memory_files info = sum_list (map (\<lambda>(slug, t). length (files_of t)) (memory_dirs d))"
proof -
  obtain out n where out: "copy_memories ok (memory_dirs d) = (out, Some n)"
    using assms by (auto simp: snapshot_def Let_def split: prod.splits option.splits)
  note all = copy_memories_complete [OF out]
  have mem: "\<exists>t. (fst x, SI_Memory t) \<in> set out \<and> files_of t = files_of (snd x)" if "x \<in> set (memory_dirs d)" for x
    using that all by (metis in_set_conv_nth)
  show thesis
  proof (cases "transcript i d")
    case None
    with assms out mem all show thesis
      by (intro that [of out]) (auto simp: snapshot_def Let_def holds_session_def)
  next
    case (Some x)
    obtain slug tx where x: "x = (slug, tx)" by force
    with Some assms out mem all show thesis
      by (intro that [of "out @ [(slug, SI_Transcript i tx)]"])
         (auto simp: snapshot_def Let_def holds_session_def split: if_splits)
  qed
qed

section \<open>Properties\<close>


text \<open>The version and the variant nibble of the bytes the code sets.\<close>

lemma high_nibble: "unat (b :: 8 word) div 16 = unat (drop_bit 4 b)"
  by (simp add: unat_div drop_bit_eq_div)

lemma version_nibble: "unat (((b :: 8 word) AND 0x0f) OR 0x40) div 16 = 4"
proof -
  have "drop_bit 4 ((b AND 0x0f) OR 0x40) = (4 :: 8 word)"
    by (simp add: drop_bit_or drop_bit_and)
  then show ?thesis by (simp add: high_nibble)
qed

lemma word_below_four: "x < 4 \<Longrightarrow> x \<in> {0, 1, 2, 3}" for x :: "8 word"
proof -
  assume "x < 4"
  then have "unat x < 4" by (simp add: word_less_nat_alt)
  then have "unat x = 0 \<or> unat x = 1 \<or> unat x = 2 \<or> unat x = 3" by linarith
  moreover have "x = word_of_nat (unat x)" by simp
  ultimately have "x = word_of_nat 0 \<or> x = word_of_nat 1 \<or> x = word_of_nat 2 \<or> x = word_of_nat 3" by metis
  then show ?thesis by simp
qed

lemma variant_nibble: "unat (((b :: 8 word) AND 0x3f) OR 0x80) div 16 \<in> {8, 9, 10, 11}"
proof -
  have "drop_bit 4 ((b AND 0x3f) OR 0x80) = (drop_bit 4 b AND 3) OR 8"
    by (simp add: drop_bit_or drop_bit_and)
  moreover have "drop_bit 4 b AND 3 \<in> {0, 1, 2, 3}"
  proof -
    have "drop_bit 4 b AND 3 = take_bit 2 (drop_bit 4 b)"
      by (simp add: take_bit_eq_mask mask_eq_exp_minus_1)
    then have "unat (drop_bit 4 b AND 3) < 4"
      using take_bit_nat_less_exp [of 2 "unat (drop_bit 4 b)"] by (simp add: unsigned_take_bit_eq)
    then have "drop_bit 4 b AND 3 < 4"
      by (simp add: word_less_nat_alt)
    then show ?thesis
      by (rule word_below_four)
  qed
  ultimately show ?thesis
    by (auto simp: high_nibble)
qed

lemma hex_digit_hex: "n < 16 \<Longrightarrow> hex_digit n \<in> set ''0123456789abcdef''"
proof -
  have "\<forall>n \<in> {..<16}. hex_digit n \<in> set ''0123456789abcdef''" by code_simp
  then show "n < 16 \<Longrightarrow> ?thesis" by blast
qed

lemma hex_byte_hex: "set (hex_byte b) \<subseteq> set ''0123456789abcdef''"
proof -
  have "unat b < 256"
    using unat_lt_pow [of b] by simp
  then have "unat b div 16 < 16" "unat b mod 16 < 16"
    by auto
  then have "hex_digit (unat b div 16) \<in> set ''0123456789abcdef''" "hex_digit (unat b mod 16) \<in> set ''0123456789abcdef''"
    by (simp_all only: hex_digit_hex)
  then show ?thesis
    unfolding hex_byte_def by (simp only: list.set(2) [of _ "[_]"] list.set(2) [of _ "[]"] list.set(1) insert_subset empty_subsetI simp_thms)
qed

lemma update_sixteen:
  "[b0, b1, b2, b3, b4, b5, b6, b7, b8, b9, b10, b11, b12, b13, b14, b15][6 := v] =
     [b0, b1, b2, b3, b4, b5, v, b7, b8, b9, b10, b11, b12, b13, b14, b15]"
  "[b0, b1, b2, b3, b4, b5, b6, b7, b8, b9, b10, b11, b12, b13, b14, b15][8 := v] =
     [b0, b1, b2, b3, b4, b5, b6, b7, v, b9, b10, b11, b12, b13, b14, b15]"
  by (simp_all add: numeral_eq_Suc)

lemma new_id_bytes:
  "new_id [b0, b1, b2, b3, b4, b5, b6, b7, b8, b9, b10, b11, b12, b13, b14, b15] =
     hex_byte b0 @ hex_byte b1 @ hex_byte b2 @ hex_byte b3 @ ''-'' @ hex_byte b4 @ hex_byte b5 @ ''-'' @
     hex_byte ((b6 AND 0x0f) OR 0x40) @ hex_byte b7 @ ''-'' @ hex_byte ((b8 AND 0x3f) OR 0x80) @ hex_byte b9 @ ''-'' @
     hex_byte b10 @ hex_byte b11 @ hex_byte b12 @ hex_byte b13 @ hex_byte b14 @ hex_byte b15"
proof -
  define h l where "h x = hex_digit (unat x div 16)" and "l x = hex_digit (unat x mod 16)" for x :: "8 word"
  have h: "hex_byte x = [h x, l x]" for x
    by (simp add: hex_byte_def h_def l_def)
  show ?thesis
    unfolding new_id_def Let_def update_sixteen by (simp add: h)
qed

lemma sixteen: "length xs = 16 \<Longrightarrow> \<exists>b0 b1 b2 b3 b4 b5 b6 b7 b8 b9 b10 b11 b12 b13 b14 b15.
    xs = [b0, b1, b2, b3, b4, b5, b6, b7, b8, b9, b10, b11, b12, b13, b14, b15]"
  by (auto simp: numeral_eq_Suc length_Suc_conv)

text \<open>
  The id of a new session is a version 4 UUID, whatever the random bytes: 36
  characters, lower-case hexadecimal but for the four hyphens in their places, the version
  digit 4 and a variant digit 8, 9, a or b.
\<close>

theorem new_id_is_v4:
  assumes "length bytes = 16"
  shows "length (new_id bytes) = 36 \<and> map ((!) (new_id bytes)) [8, 13, 18, 23] = ''----'' \<and>
    new_id bytes ! 14 = CHR ''4'' \<and> new_id bytes ! 19 \<in> set ''89ab'' \<and>
    set (new_id bytes) \<subseteq> insert (CHR ''-'') (set ''0123456789abcdef'')"
proof -
  obtain b0 b1 b2 b3 b4 b5 b6 b7 b8 b9 b10 b11 b12 b13 b14 b15 where
    b: "bytes = [b0, b1, b2, b3, b4, b5, b6, b7, b8, b9, b10, b11, b12, b13, b14, b15]"
    using sixteen [OF assms] by blast
  have "hex_digit 4 = CHR ''4''" by code_simp
  moreover have "\<forall>n \<in> {8, 9, 10, 11}. hex_digit n \<in> set ''89ab''" by code_simp
  then have "hex_digit (unat ((b8 AND 0x3f) OR 0x80) div 16) \<in> set ''89ab''"
    using variant_nibble [of b8] by (rule bspec)
  moreover have "length (hex_byte x) = 2" for x by (simp add: hex_byte_def)
  ultimately have "length (new_id bytes) = 36" "map ((!) (new_id bytes)) [8, 13, 18, 23] = ''----''"
    "new_id bytes ! 14 = CHR ''4''" "new_id bytes ! 19 \<in> set ''89ab''"
    using version_nibble [of b6] unfolding b new_id_bytes
    by (simp_all add: hex_byte_def nth_append)
  moreover have "set (new_id bytes) \<subseteq> insert (CHR ''-'') (set ''0123456789abcdef'')"
    unfolding b new_id_bytes set_append using hex_byte_hex
    by (intro Un_least) (blast | simp)+
  ultimately show ?thesis by blast
qed

theorem new_id_is_v4_witness:
  "new_id (replicate 16 0xff) ! 14 = CHR ''4'' \<and> length (new_id (replicate 16 0xff)) = 36"
  using new_id_is_v4 [of "replicate 16 0xff"] by simp


end
