(* ===== verification/Supervisor.thy ===== *)
theory Supervisor
  imports Session_State
begin

text \<open>
  The supervisor of one session (\<open>crates/silta-session/src/lib.rs\<close>): how a start is
  planned, the command line and environment of Claude Code, one run of it as a state
  machine over what the select loop sees, and the loop over runs. The texts of the host
  lines and of the reasons are constructors. A run's inputs carry the monotonic clock, the
  wall clock and the outcomes of file operations; what Claude Code and the hook do to the
  marker and the memory in between is an input of its own. Pipes, signals and the child
  process appear as their effects: a line, the end of the pipes, an exit status.
\<close>

section \<open>Configuration\<close>

definition EXIT_MODEL :: int where
  "EXIT_MODEL = 79"

definition EXIT_EMERGENCY :: int where
  "EXIT_EMERGENCY = 80"

definition WINDOW_REQUEST :: string where
  "WINDOW_REQUEST = ''silta-window''"

definition CHANNEL :: string where
  "CHANNEL = ''plugin:silta-claude@silta-local''"

datatype emergency = OneShot string | Prompt string

definition is_command :: "string \<Rightarrow> bool" where
  "is_command line =
     (case split_whitespace_u (chars line) of
        [] \<Rightarrow> False
      | word # _ \<Rightarrow>
          (case strip_prefix ''/'' (concat word) of
             None \<Rightarrow> False
           | Some name \<Rightarrow> name \<noteq> [] \<and> CHR ''/'' \<notin> set name))"

definition emergency_new :: "string \<Rightarrow> bool \<Rightarrow> emergency option" where
  "emergency_new line0 accept =
     (let line = trim line0 in
      if line = [] then None
      else if accept \<and> \<not> is_command line then Some (Prompt line)
      else Some (OneShot line))"

datatype auth = OAuth string | ApiKey string | Gateway string string

definition AUTH_VARS :: "string list" where
  "AUTH_VARS = [''CLAUDE_CODE_OAUTH_TOKEN'', ''ANTHROPIC_API_KEY'', ''ANTHROPIC_AUTH_TOKEN'',
     ''ANTHROPIC_BASE_URL'', ''CLAUDE_CODE_ENABLE_GATEWAY_MODEL_DISCOVERY'']"

datatype auth_error = None_Found | Both_Found string string | No_Gateway_Url

definition auth_fmt :: "auth \<Rightarrow> string" where
  "auth_fmt a = (case a of
      OAuth _ \<Rightarrow> ''a subscription token''
    | ApiKey _ \<Rightarrow> ''a Console API key''
    | Gateway url _ \<Rightarrow> ''a gateway token for '' @ url)"

text \<open>\<open>read\<close> is the text of a file of the credentials directory, if it can be read.\<close>

definition auth_load :: "(string \<Rightarrow> string option) \<Rightarrow> string option \<Rightarrow> auth_error + auth" where
  "auth_load read gateway_url =
     (let found = List.map_filter (\<lambda>f. case read (''auth_'' @ f) of
              None \<Rightarrow> None
            | Some t \<Rightarrow> (let token = concat (concat (split_whitespace_u (chars t)))
                        in if token \<noteq> [] then Some (f, token) else None))
            [''oauth-token'', ''api-key'', ''gateway-token'']
      in case found of
           [] \<Rightarrow> Inl None_Found
         | [(f, token)] \<Rightarrow>
             if f = ''oauth-token'' then Inr (OAuth token)
             else if f = ''api-key'' then Inr (ApiKey token)
             else (case gateway_url of
                     Some url \<Rightarrow> if url \<noteq> [] then Inr (Gateway url token) else Inl No_Gateway_Url
                   | None \<Rightarrow> Inl No_Gateway_Url)
         | (f, _) # (g, _) # _ \<Rightarrow> Inl (Both_Found f g))"

record sup_config =
  su_session :: string
  su_state :: string
  su_persona :: string
  su_plugin_bin :: string
  su_socket :: string
  su_model :: "string option"
  su_effort :: "string option"
  su_fallback_model :: "string option"
  su_window :: "u64 option"
  su_window_wait :: duration
  su_auth :: "auth option"
  su_stop_grace :: duration
  su_limits :: limits
  su_backups_keep :: nat
  su_emergency :: "emergency option"

definition one_shot :: "sup_config \<Rightarrow> bool" where
  "one_shot cfg = (case su_emergency cfg of Some (OneShot _) \<Rightarrow> True | _ \<Rightarrow> False)"

section \<open>The start\<close>

datatype start_kind = K_Fresh | K_Resumed | K_AfterRotation bool | K_Retry

record start =
  st_id :: string
  st_resume :: bool
  st_kind :: start_kind
  st_attempts :: u32
  st_handoff :: bool
  st_snapshot :: bool

text \<open>
  What planning a start needs from outside: JSON of the next step, the random bytes
  (\<open>None\<close> when they cannot be read), and whether the writes succeed.
\<close>

record plan_io =
  pl_from_str :: "string \<Rightarrow> next_start option"
  pl_to_str :: "next_start \<Rightarrow> string"
  pl_random :: "8 word list option"
  pl_id_ok :: bool
  pl_next_ok :: bool

definition plan_fresh :: "plan_io \<Rightarrow> start_kind \<Rightarrow> session_dir \<Rightarrow> start option \<times> session_dir" where
  "plan_fresh p kind d =
     (case pl_random p of
        None \<Rightarrow> (None, d)
      | Some bytes \<Rightarrow>
          let i = new_id bytes
          in if pl_id_ok p
             then (Some \<lparr>st_id = i, st_resume = False, st_kind = kind, st_attempts = 0, st_handoff = False,
                         st_snapshot = False\<rparr>, write_id True i d)
             else (None, write_id False i d))"

definition plan_rotated :: "plan_io \<Rightarrow> bool \<Rightarrow> session_dir \<Rightarrow> start option \<times> session_dir" where
  "plan_rotated p ho d =
     (case plan_fresh p (K_AfterRotation ho) d of
        (Some s, d1) \<Rightarrow> (Some s, clear_rotation d1)
      | (None, d1) \<Rightarrow> (None, d1))"

definition resumable :: "session_dir \<Rightarrow> string option" where
  "resumable d = (case read_id d of None \<Rightarrow> None | Some i \<Rightarrow> if transcript i d \<noteq> None then Some i else None)"

definition resumed :: "string \<Rightarrow> start_kind \<Rightarrow> u32 \<Rightarrow> bool \<Rightarrow> bool \<Rightarrow> start" where
  "resumed i kind att ho snap =
     \<lparr>st_id = i, st_resume = True, st_kind = kind, st_attempts = att, st_handoff = ho, st_snapshot = snap\<rparr>"

definition plan_start :: "plan_io \<Rightarrow> session_dir \<Rightarrow> start option \<times> session_dir" where
  "plan_start p d =
     (case read_next (pl_from_str p) d of
        Next_Fresh ho \<Rightarrow> plan_rotated p ho d
      | Next_Retry snap att ho \<Rightarrow>
          (case resumable d of
             Some i \<Rightarrow> (Some (resumed i K_Retry att ho snap), d)
           | None \<Rightarrow> plan_rotated p ho d)
      | n \<Rightarrow>
          (case resumable d of
             Some i \<Rightarrow>
               (case n of
                  Next_Postponed att ho \<Rightarrow>
                    if marker_exists d then (Some (resumed i K_Resumed att ho False), d)
                    else (Some (resumed i K_Resumed 0 False False), write_next (pl_to_str p) (pl_next_ok p) Next_Normal d)
                | _ \<Rightarrow> (Some (resumed i K_Resumed 0 False False), write_next (pl_to_str p) (pl_next_ok p) Next_Normal d))
           | None \<Rightarrow> plan_fresh p K_Fresh (clear_rotation d)))"

section \<open>The command line and the environment\<close>

definition opt_arg :: "string \<Rightarrow> string option \<Rightarrow> string list" where
  "opt_arg flag v = (case v of Some x \<Rightarrow> [flag, x] | None \<Rightarrow> [])"

definition claude_args :: "sup_config \<Rightarrow> start \<Rightarrow> string list" where
  "claude_args cfg s =
     [''-p'', ''--input-format'', ''stream-json'', ''--output-format'', ''stream-json'', ''--verbose'',
      ''--replay-user-messages'', ''--permission-mode'', ''auto'', ''--permission-prompts'', ''none'',
      ''--append-system-prompt-file'', su_persona cfg] @
     opt_arg ''--model'' (su_model cfg) @ opt_arg ''--effort'' (su_effort cfg) @
     opt_arg ''--fallback-model'' (su_fallback_model cfg) @
     (if st_resume s then [''--resume'', st_id s]
      else [''--session-id'', st_id s, ''--name'', ''silta-'' @ su_session cfg]) @
     [''--channels'', CHANNEL]"

definition claude_env ::
  "(u64 \<Rightarrow> string) \<Rightarrow> (string \<Rightarrow> string \<Rightarrow> string) \<Rightarrow> sup_config \<Rightarrow> (string \<rightharpoonup> string) \<Rightarrow> (string \<rightharpoonup> string)"
where
  "claude_env show_num join_path cfg inherited =
     (let workspace = join_path (su_state cfg) ''workspace'';
          e1 = inherited(''HOME'' \<mapsto> su_state cfg, ''SILTA_CLAUDE_BIN'' \<mapsto> su_plugin_bin cfg, ''SILTA_SOCKET'' \<mapsto> su_socket cfg,
                 ''SILTA_INBOX'' \<mapsto> join_path workspace ''inbox'',
                 ''SILTA_READY_FILE'' \<mapsto> join_path (su_state cfg) ''channel-ready'', ''DISABLE_AUTOUPDATER'' \<mapsto> ''1'');
          e2 = (case su_window cfg of
                  Some w \<Rightarrow> e1(''CLAUDE_CODE_AUTO_COMPACT_WINDOW'' \<mapsto> show_num w)
                | None \<Rightarrow> e1);
          e3 = fold (\<lambda>var e. e(var := None)) AUTH_VARS e2
      in case su_auth cfg of
           Some (OAuth token) \<Rightarrow> e3(''CLAUDE_CODE_OAUTH_TOKEN'' \<mapsto> token)
         | Some (ApiKey key) \<Rightarrow> e3(''ANTHROPIC_API_KEY'' \<mapsto> key)
         | Some (Gateway url token) \<Rightarrow>
             e3(''ANTHROPIC_BASE_URL'' \<mapsto> url, ''ANTHROPIC_AUTH_TOKEN'' \<mapsto> token, ''ANTHROPIC_API_KEY'' \<mapsto> [],
                ''CLAUDE_CODE_ENABLE_GATEWAY_MODEL_DISCOVERY'' \<mapsto> ''1'')
         | None \<Rightarrow> e3)"

section \<open>The state of a run\<close>

datatype host_text =
    HT_Intro start_kind
  | HT_Emergency string
  | HT_Handoff
  | HT_Compact
  | HT_Compacted

datatype host_line = HL_User host_text | HL_Control string

datatype end_reason =
    R_Window_Below u64
  | R_Window_Refused
  | R_Window_Timeout
  | R_Fallback string
  | R_No_Answer
  | R_Emergency_Timeout
  | R_Emergency_Compacted
  | R_Emergency_Failed
  | R_Emergency_Turn_Failed
  | R_Emergency_No_Compaction

datatype run_outcome = O_Exit int | O_Ended int end_reason | O_Again "instant option"

record run =
  rn_id :: string
  rn_stdin :: bool
  rn_stopping :: "instant option"
  rn_after :: "run_outcome option"
  rn_kill :: bool
  rn_deadline :: "instant option"
  rn_tracker :: tracker
  rn_watch :: "handoff_watch option"
  rn_contract :: contract
  rn_intro :: "(host_text \<times> instant) option"
  rn_ready :: bool
  rn_compacted :: bool
  rn_compact_failed :: bool
  rn_readers_open :: bool
  rn_no_conversation :: bool
  rn_ticks :: nat
  rn_killed :: bool
  rn_dir :: session_dir
  rn_sent :: "host_line list"

record run_io =
  io_now :: instant
  io_wall :: u64
  io_ready_ok :: bool
  io_next_ok :: bool
  io_marker_ok :: bool
  io_to_str :: "next_start \<Rightarrow> string"
  io_tree_ok :: "tree \<Rightarrow> bool"
  io_copy_ok :: bool
  io_rm_ok :: "string \<Rightarrow> bool"
  io_why :: "u64 \<Rightarrow> string"

section \<open>The operations of a run\<close>

definition run_write :: "host_line \<Rightarrow> run \<Rightarrow> run" where
  "run_write l r = (if rn_stdin r then r\<lparr>rn_sent := rn_sent r @ [l]\<rparr> else r)"

definition run_send :: "host_text \<Rightarrow> run \<Rightarrow> run" where
  "run_send t r = run_write (HL_User t) r"

definition run_control :: "string \<Rightarrow> run \<Rightarrow> run" where
  "run_control i r = run_write (HL_Control i) r"

definition begin_stop :: "sup_config \<Rightarrow> run_io \<Rightarrow> run \<Rightarrow> run" where
  "begin_stop cfg io r =
     r\<lparr>rn_stdin := False,
       rn_stopping := (case rn_stopping r of None \<Rightarrow> Some (io_now io + su_stop_grace cfg) | Some t \<Rightarrow> Some t)\<rparr>"

definition run_end :: "run_io \<Rightarrow> int \<Rightarrow> end_reason \<Rightarrow> run \<Rightarrow> run" where
  "run_end io code reason r =
     (if rn_after r \<noteq> None then r
      else r\<lparr>rn_after := Some (O_Ended code reason), rn_kill := True, rn_intro := None, rn_stdin := False,
             rn_stopping := (case rn_stopping r of None \<Rightarrow> Some (io_now io) | Some t \<Rightarrow> Some t)\<rparr>)"

definition run_done :: "sup_config \<Rightarrow> run_io \<Rightarrow> end_reason \<Rightarrow> run \<Rightarrow> run" where
  "run_done cfg io reason r =
     (if rn_after r \<noteq> None then r
      else begin_stop cfg io (r\<lparr>rn_after := Some (O_Ended EXIT_EMERGENCY reason)\<rparr>))"

definition take_snapshot :: "sup_config \<Rightarrow> run_io \<Rightarrow> string \<Rightarrow> run \<Rightarrow> run" where
  "take_snapshot cfg io what r =
     r\<lparr>rn_dir := snd (snapshot (io_tree_ok io) (io_copy_ok io) (io_rm_ok io) (su_backups_keep cfg) what (rn_id r)
                       (io_wall io) (rn_dir r))\<rparr>"

definition run_start :: "sup_config \<Rightarrow> run_io \<Rightarrow> host_text \<Rightarrow> run \<Rightarrow> run" where
  "run_start cfg io line r =
     run_send line
       (if one_shot cfg
        then (take_snapshot cfg io ''before-emergency'' r)\<lparr>rn_deadline := Some (io_now io + compact_cap (su_limits cfg))\<rparr>
        else r)"

definition run_window :: "sup_config \<Rightarrow> run_io \<Rightarrow> u64 option \<Rightarrow> run \<Rightarrow> run" where
  "run_window cfg io max_tokens r =
     (case su_window cfg of
        None \<Rightarrow> r\<lparr>rn_intro := None\<rparr>
      | Some want \<Rightarrow>
          (case rn_intro r of
             None \<Rightarrow> r
           | Some (line, _) \<Rightarrow>
               let r1 = r\<lparr>rn_intro := None\<rparr>
               in (case max_tokens of
                     Some n \<Rightarrow> if n \<ge> want then run_start cfg io line r1 else run_end io EXIT_MODEL (R_Window_Below n) r1
                   | None \<Rightarrow> run_end io EXIT_MODEL R_Window_Refused r1)))"

definition run_fallback :: "run_io \<Rightarrow> string \<Rightarrow> run \<Rightarrow> run" where
  "run_fallback io trigger r =
     (if trigger \<in> set FALLBACK_FATAL then run_end io EXIT_MODEL (R_Fallback trigger) r else r)"

definition open_channel :: "run_io \<Rightarrow> run \<Rightarrow> run" where
  "open_channel io r =
     (if rn_after r \<noteq> None then r
      else r\<lparr>rn_ready := True, rn_dir := write_channel_ready (io_ready_ok io) (rn_id r) (rn_dir r)\<rparr>)"

definition record_next :: "run_io \<Rightarrow> next_start \<Rightarrow> run \<Rightarrow> run" where
  "record_next io n r = r\<lparr>rn_dir := write_next (io_to_str io) (io_next_ok io) n (rn_dir r)\<rparr>"

definition run_finish :: "sup_config \<Rightarrow> run_io \<Rightarrow> bool \<Rightarrow> run \<Rightarrow> run" where
  "run_finish cfg io ho r =
     begin_stop cfg io ((record_next io (Next_Fresh ho) r)\<lparr>rn_after := Some (O_Again None)\<rparr>)"

fun run_act1 :: "sup_config \<Rightarrow> run_io \<Rightarrow> action \<Rightarrow> run \<Rightarrow> run" where
  "run_act1 cfg io (Snapshot m) r = take_snapshot cfg io (moment_name m) r"
| "run_act1 cfg io MarkPending r =
     r\<lparr>rn_dir := write_marker (io_marker_ok io) (io_why io (ctx (rn_tracker r))) (rn_dir r)\<rparr>"
| "run_act1 cfg io RequestHandoff r =
     run_send HT_Handoff (r\<lparr>rn_watch := Some (watch_handoff (io_wall io) (rn_dir r))\<rparr>)"
| "run_act1 cfg io AwaitHandoff r = r"
| "run_act1 cfg io Compact r = run_send HT_Compact r"
| "run_act1 cfg io AwaitCompaction r = r"
| "run_act1 cfg io Compacted r = run_send HT_Compacted (r\<lparr>rn_dir := clear_rotation (rn_dir r)\<rparr>)"
| "run_act1 cfg io (GiveUp step was_cut ho) r = run_finish cfg io ho r"
| "run_act1 cfg io (Retry step att ho) r =
     begin_stop cfg io
       ((record_next io (Next_Retry (step = Step_Wait) att ho) r)\<lparr>rn_after := Some (O_Again None)\<rparr>)"
| "run_act1 cfg io (Postpone step att ho) r =
     begin_stop cfg io
       ((record_next io (Next_Postponed att ho) r)\<lparr>rn_after := Some (O_Again (Some (io_now io + retry_pause (su_limits cfg))))\<rparr>)"

definition run_act :: "sup_config \<Rightarrow> run_io \<Rightarrow> action list \<Rightarrow> run \<Rightarrow> run" where
  "run_act cfg io as r = fold (run_act1 cfg io) as r"

section \<open>One run\<close>

definition rotates :: "sup_config \<Rightarrow> bool" where
  "rotates cfg = (enabled (su_limits cfg) \<and> \<not> one_shot cfg)"

definition start_line :: "sup_config \<Rightarrow> start_kind \<Rightarrow> host_text" where
  "start_line cfg kind =
     (case su_emergency cfg of
        Some (Prompt line) \<Rightarrow> if kind = K_Resumed then HT_Emergency line else HT_Intro kind
      | Some (OneShot line) \<Rightarrow> HT_Emergency line
      | None \<Rightarrow> HT_Intro kind)"

text \<open>From the spawned process to the select loop.\<close>

definition run_begin :: "sup_config \<Rightarrow> run_io \<Rightarrow> start \<Rightarrow> instant option \<Rightarrow> session_dir \<Rightarrow> run" where
  "run_begin cfg io s nb d =
     (let now = io_now io;
          t = Tracker_new ((su_limits cfg)\<lparr>enabled := rotates cfg\<rparr>) now;
          r0 = \<lparr>rn_id = st_id s, rn_stdin = True, rn_stopping = None, rn_after = None, rn_kill = False, rn_deadline = None,
                rn_tracker = t, rn_watch = None, rn_contract = contract_default, rn_intro = None, rn_ready = False,
                rn_compacted = False, rn_compact_failed = False, rn_readers_open = True, rn_no_conversation = False,
                rn_ticks = 0, rn_killed = False, rn_dir = clear_channel_ready d, rn_sent = []\<rparr>;
          r1 = (if st_kind s = K_Retry
                then let ra = (if st_snapshot s then take_snapshot cfg io (moment_name BeforeHandoff) r0 else r0)
                     in ra\<lparr>rn_watch := Some (watch_handoff (io_wall io) (rn_dir ra))\<rparr>
                else r0);
          r2 = (if st_kind s = K_Retry
                then r1\<lparr>rn_tracker := Tracker_retrying now (st_attempts s) (st_handoff s) t\<rparr>
                else if rotates cfg \<and> marker_exists (rn_dir r1)
                then r1\<lparr>rn_tracker := Tracker_pending now nb (st_attempts s) (st_handoff s) t\<rparr>
                else r1);
          line = start_line cfg (st_kind s)
      in if su_window cfg \<noteq> None
         then (run_control WINDOW_REQUEST r2)\<lparr>rn_intro := Some (line, now + su_window_wait cfg)\<rparr>
         else run_start cfg io line r2)"

text \<open>A one-turn emergency line that compacts.\<close>

definition compaction_line :: "sup_config \<Rightarrow> bool" where
  "compaction_line cfg = (case su_emergency cfg of Some (OneShot line) \<Rightarrow> starts_with ''/compact'' line | _ \<Rightarrow> False)"

definition emergency_result :: "bool \<Rightarrow> run \<Rightarrow> end_reason" where
  "emergency_result is_error r =
     (if rn_compacted r then R_Emergency_Compacted
      else if rn_compact_failed r then R_Emergency_Failed
      else if is_error then R_Emergency_Turn_Failed
      else R_Emergency_No_Compaction)"

text \<open>What a line of output means for the run, before the tracker sees it.\<close>

definition out_event :: "sup_config \<Rightarrow> run_io \<Rightarrow> stream_event \<Rightarrow> run \<Rightarrow> run" where
  "out_event cfg io ev r =
     (case ev of
        SContextUsage request_id max_tokens \<Rightarrow>
          if request_id = WINDOW_REQUEST then run_window cfg io max_tokens r else r
      | SModelFallback trigger \<Rightarrow> run_fallback io trigger r
      | SCompacted auto \<Rightarrow> if \<not> auto \<and> one_shot cfg then r\<lparr>rn_compacted := True\<rparr> else r
      | SCompactionFailed \<Rightarrow> if one_shot cfg then r\<lparr>rn_compact_failed := True\<rparr> else r
      | SResult is_error person \<Rightarrow>
          if \<not> is_error \<and> compaction_line cfg \<and> \<not> rn_compacted r \<and> \<not> rn_compact_failed r then r
          else if one_shot cfg
          then run_done cfg io (emergency_result is_error r)
                 (if rn_compacted r then r\<lparr>rn_dir := clear_rotation (rn_dir r)\<rparr> else r)
          else if \<not> rn_ready r then run_end io 1 R_No_Answer r
          else r
      | SAssistant sub tokens synthetic \<Rightarrow>
          if \<not> one_shot cfg \<and> \<not> sub \<and> \<not> synthetic \<and> \<not> rn_ready r then open_channel io r else r
      | _ \<Rightarrow> r)"

definition on_tracker :: "sup_config \<Rightarrow> run_io \<Rightarrow> (tracker \<Rightarrow> tracker \<times> action list) \<Rightarrow> run \<Rightarrow> run" where
  "on_tracker cfg io f r = (let (t, as) = f (rn_tracker r) in run_act cfg io as (r\<lparr>rn_tracker := t\<rparr>))"

definition out_tracker :: "sup_config \<Rightarrow> run_io \<Rightarrow> stream_event \<Rightarrow> run \<Rightarrow> run" where
  "out_tracker cfg io ev r =
     (if rn_stopping r = None \<and> rn_intro r = None
      then let note = (case ev of SResult _ _ \<Rightarrow> awaiting_handoff (rn_tracker r) | _ \<Rightarrow> False);
               written = (case rn_watch r of Some hw \<Rightarrow> handoff_written hw (rn_dir r) | None \<Rightarrow> False);
               r1 = (if note then r\<lparr>rn_tracker := set_note_written written (rn_tracker r)\<rparr> else r)
           in on_tracker cfg io (Tracker_event ev (io_now io)) r1
      else r)"

definition on_output :: "sup_config \<Rightarrow> run_io \<Rightarrow> stream_event \<Rightarrow> run \<Rightarrow> run" where
  "on_output cfg io ev r =
     (let c = snd (contract_event ev (rotates cfg) (io_now io) (rn_contract r))
      in out_tracker cfg io ev (out_event cfg io ev (r\<lparr>rn_contract := c\<rparr>)))"

text \<open>The tick of a running session: the marker every fifth time, the tracker, the contract.\<close>

definition tick_marker :: "sup_config \<Rightarrow> run_io \<Rightarrow> run \<Rightarrow> run" where
  "tick_marker cfg io r =
     (if rotates cfg \<and> rn_ticks r mod 5 = 0
      then if marker_exists (rn_dir r) \<and> \<not> pending (rn_tracker r)
           then on_tracker cfg io (marker_seen (io_now io)) r
           else if \<not> marker_exists (rn_dir r)
           then (case cancel (rn_tracker r) of
                   (t, True) \<Rightarrow> record_next io Next_Normal (r\<lparr>rn_tracker := t\<rparr>)
                 | (t, False) \<Rightarrow> r\<lparr>rn_tracker := t\<rparr>)
           else r
      else r)"

definition tick_running :: "sup_config \<Rightarrow> run_io \<Rightarrow> run \<Rightarrow> run" where
  "tick_running cfg io r =
     (let r1 = tick_marker cfg io (r\<lparr>rn_ticks := rn_ticks r + 1\<rparr>);
          r2 = on_tracker cfg io (Tracker_tick (io_now io)) r1
      in r2\<lparr>rn_contract := snd (contract_tick (io_now io) (quiet_cap (su_limits cfg)) (rn_contract r2))\<rparr>)"

definition on_tick :: "sup_config \<Rightarrow> run_io \<Rightarrow> run \<Rightarrow> run" where
  "on_tick cfg io r =
     (case rn_stopping r of
        Some deadline \<Rightarrow> if io_now io \<ge> deadline \<and> \<not> rn_killed r then r\<lparr>rn_killed := True\<rparr> else r
      | None \<Rightarrow>
          (case rn_intro r of
             Some (_, deadline) \<Rightarrow> if io_now io \<ge> deadline then run_end io 1 R_Window_Timeout r else r
           | None \<Rightarrow>
               if one_shot cfg
               then (case rn_deadline r of
                       Some deadline \<Rightarrow> if io_now io \<ge> deadline then run_end io EXIT_EMERGENCY R_Emergency_Timeout r else r
                     | None \<Rightarrow> r)
               else tick_running cfg io r))"

definition on_shutdown :: "sup_config \<Rightarrow> run_io \<Rightarrow> run \<Rightarrow> run" where
  "on_shutdown cfg io r =
     (case rn_after r of
        Some (O_Exit _) \<Rightarrow> r
      | Some (O_Ended _ _) \<Rightarrow> r
      | _ \<Rightarrow> begin_stop cfg io (r\<lparr>rn_after := Some (O_Exit 0)\<rparr>))"

text \<open>
  What the select loop sees. \<open>RI_Tick (Some code)\<close> finds the child gone (or cannot wait for
  it and kills it); \<open>RI_World\<close> is what others did to the marker and Claude Code's files.
\<close>

datatype run_input =
    RI_Shutdown
  | RI_Out stream_event
  | RI_Err bool
  | RI_Eof
  | RI_Tick "int option"
  | RI_World "string option" "(string \<times> project) list"

fun run_input_step :: "sup_config \<Rightarrow> run_io \<Rightarrow> run_input \<Rightarrow> run \<Rightarrow> run \<times> int option" where
  "run_input_step cfg io RI_Shutdown r = (on_shutdown cfg io r, None)"
| "run_input_step cfg io (RI_Out ev) r = (if rn_readers_open r then on_output cfg io ev r else r, None)"
| "run_input_step cfg io (RI_Err no_conv) r =
     (if rn_readers_open r \<and> no_conv then r\<lparr>rn_no_conversation := True\<rparr> else r, None)"
| "run_input_step cfg io RI_Eof r = (r\<lparr>rn_readers_open := False\<rparr>, None)"
| "run_input_step cfg io (RI_Tick (Some code)) r = (r, Some code)"
| "run_input_step cfg io (RI_Tick None) r = (on_tick cfg io r, None)"
| "run_input_step cfg io (RI_World m ps) r = (r\<lparr>rn_dir := (rn_dir r)\<lparr>sdr_marker := m, sdr_projects := ps\<rparr>\<rparr>, None)"

text \<open>After each round an ended run is killed.\<close>

definition run_step :: "sup_config \<Rightarrow> run_io \<times> run_input \<Rightarrow> run \<Rightarrow> run \<times> int option" where
  "run_step cfg x r =
     (case run_input_step cfg (fst x) (snd x) r of
        (r1, Some code) \<Rightarrow> (r1, Some code)
      | (r1, None) \<Rightarrow> (if rn_kill r1 \<and> \<not> rn_killed r1 then r1\<lparr>rn_killed := True\<rparr> else r1, None))"

fun run_loop :: "sup_config \<Rightarrow> (run_io \<times> run_input) list \<Rightarrow> run \<Rightarrow> run \<times> int option" where
  "run_loop cfg [] r = (r, None)"
| "run_loop cfg (x # xs) r =
     (case run_step cfg x r of
        (r1, Some code) \<Rightarrow> (r1, Some code)
      | (r1, None) \<Rightarrow> run_loop cfg xs r1)"

text \<open>After the exit: the lines the readers still hold, then the outcome.\<close>

definition run_close :: "sup_config \<Rightarrow> start \<Rightarrow> int \<Rightarrow> bool list \<Rightarrow> run \<Rightarrow> run_outcome \<times> session_dir" where
  "run_close cfg s code left r =
     (let no_conv = (rn_no_conversation r \<or> rn_readers_open r \<and> True \<in> set left)
      in case rn_after r of
           Some x \<Rightarrow> (x, rn_dir r)
         | None \<Rightarrow>
             (O_Exit code, if st_resume s \<and> no_conv \<and> \<not> one_shot cfg then drop_id (rn_dir r) else rn_dir r))"

text \<open>
  What one run sees from its spawn to its end; \<open>None\<close> as its result means that it is
  still running when the inputs end.
\<close>

record run_script =
  rs_spawn_ok :: bool
  rs_io :: run_io
  rs_inputs :: "(run_io \<times> run_input) list"
  rs_left :: "bool list"

definition run_once ::
  "sup_config \<Rightarrow> run_script \<Rightarrow> start \<Rightarrow> instant option \<Rightarrow> session_dir \<Rightarrow> (run_outcome \<times> session_dir) option"
where
  "run_once cfg sc s nb d =
     (if \<not> rs_spawn_ok sc then Some (O_Exit 1, clear_channel_ready d)
      else case run_loop cfg (rs_inputs sc) (run_begin cfg (rs_io sc) s nb d) of
        (r, None) \<Rightarrow> None
      | (r, Some code) \<Rightarrow> Some (run_close cfg s code (rs_left sc) r))"

section \<open>The loop over runs\<close>

record round =
  rd_cancelled :: bool
  rd_plan :: plan_io
  rd_script :: run_script
  rd_cancelled_after :: bool

definition emergency_start :: "session_dir \<Rightarrow> start option" where
  "emergency_start d = map_option (\<lambda>i. resumed i K_Resumed 0 False False) (resumable d)"

text \<open>The exit code after a run, or the pause before the next one.\<close>

definition after_run :: "sup_config \<Rightarrow> bool \<Rightarrow> run_outcome \<Rightarrow> int + instant option" where
  "after_run cfg cancelled x =
     (case x of
        O_Exit code \<Rightarrow> Inl (if cancelled then code else if one_shot cfg then EXIT_EMERGENCY else code)
      | O_Ended code reason \<Rightarrow> Inl (if code = 1 \<and> one_shot cfg then EXIT_EMERGENCY else code)
      | O_Again pause \<Rightarrow> Inr pause)"

fun sup_loop :: "sup_config \<Rightarrow> round list \<Rightarrow> instant option \<Rightarrow> session_dir \<Rightarrow> int option \<times> session_dir" where
  "sup_loop cfg [] nb d = (None, d)"
| "sup_loop cfg (x # xs) nb d =
     (if rd_cancelled x then (Some 0, d)
      else
        (case (if one_shot cfg then (emergency_start d, d) else plan_start (rd_plan x) d) of
           (None, d1) \<Rightarrow> (Some (if one_shot cfg then EXIT_EMERGENCY else 1), d1)
         | (Some s, d1) \<Rightarrow>
             (case run_once cfg (rd_script x) s nb d1 of
                None \<Rightarrow> (None, d1)
              | Some (outcome, d2) \<Rightarrow>
                  (case after_run cfg (rd_cancelled_after x) outcome of
                     Inl code \<Rightarrow> (Some code, d2)
                   | Inr pause \<Rightarrow> sup_loop cfg xs pause d2))))"

text \<open>\<open>dirs_ok\<close>: the workspace's directories could be created; \<open>now\<close> and \<open>rm_ok\<close> are for the cache.\<close>

definition supervise ::
  "sup_config \<Rightarrow> bool \<Rightarrow> (tree \<Rightarrow> bool) \<Rightarrow> int \<Rightarrow> round list \<Rightarrow> session_dir \<Rightarrow> int option \<times> session_dir"
where
  "supervise cfg dirs_ok rm_ok now rounds d =
     (if \<not> dirs_ok then (Some 1, d) else sup_loop cfg rounds None (prune_cache rm_ok now d))"

end
