(* ===== verification/Supervised_Run.thy ===== *)
theory Supervised_Run
  imports Supervisor
begin

text \<open>
  What a run of Claude Code keeps to, whatever its output and the clock bring: the channel
  opens only on an answer of a model, no turn starts before the window check, an ended run
  says nothing more, emergency mode ends in its own exit codes, the rotation goes through
  its protocol and survives a restart, and exactly one credential is passed on. The loop
  over inputs is dealt with once, in the locale \<open>run_invariant\<close>; \<open>run_parts\<close> reduces an
  invariant that ignores the tracker to the operations that touch what it reads.
\<close>

section \<open>What the operations leave alone\<close>

lemma dir_ready [simp]:
  "sdr_ready (write_next f ok n d) = sdr_ready d"
  "sdr_ready (clear_rotation d) = sdr_ready d"
  "sdr_ready (write_marker ok why d) = sdr_ready d"
  "sdr_ready (clear_channel_ready d) = None"
  "sdr_ready (write_channel_ready ok i d) = (if ok then Some (i @ [NL]) else sdr_ready d)"
  by (simp_all add: write_next_def clear_rotation_def write_marker_def clear_channel_ready_def
      write_channel_ready_def write_atomic_def)

lemma dir_id [simp]:
  "sdr_id (write_next f ok n d) = sdr_id d" "sdr_projects (write_next f ok n d) = sdr_projects d"
  "sdr_marker (write_next f ok n d) = sdr_marker d"
  by (simp_all add: write_next_def)

lemma snapshot_ready [simp]: "sdr_ready (snd (snapshot ok c rm keep m i now d)) = sdr_ready d"
  by (simp add: snapshot_def add_snapshot_def prune_snapshots_def Let_def split: prod.split option.split)

lemmas run_ops = run_write_def run_send_def run_control_def begin_stop_def record_next_def run_finish_def
  take_snapshot_def

lemma act1_keeps [simp]:
  "rn_id (run_act1 cfg io a r) = rn_id r" "rn_intro (run_act1 cfg io a r) = rn_intro r"
  "rn_ready (run_act1 cfg io a r) = rn_ready r" "rn_tracker (run_act1 cfg io a r) = rn_tracker r"
  "sdr_ready (rn_dir (run_act1 cfg io a r)) = sdr_ready (rn_dir r)"
  by (cases a; simp add: run_ops)+

lemma act_keeps [simp]:
  "rn_id (run_act cfg io as r) = rn_id r" "rn_intro (run_act cfg io as r) = rn_intro r"
  "rn_ready (run_act cfg io as r) = rn_ready r" "rn_tracker (run_act cfg io as r) = rn_tracker r"
  by (induction as arbitrary: r) (simp_all add: run_act_def)

lemma act_stops: "(rn_after r \<noteq> None \<longrightarrow> \<not> rn_stdin r) \<Longrightarrow>
    rn_after (run_act1 cfg io a r) \<noteq> None \<longrightarrow> \<not> rn_stdin (run_act1 cfg io a r)"
  by (cases a) (auto simp: run_ops)

lemma start_keeps [simp]:
  "rn_after (run_start cfg io l r) = rn_after r" "rn_stdin (run_start cfg io l r) = rn_stdin r"
  "rn_tracker (run_start cfg io l r) = rn_tracker r" "rn_stopping (run_start cfg io l r) = rn_stopping r"
  by (simp_all add: run_start_def run_ops)

lemma act_closed:
  "\<not> rn_stdin r \<Longrightarrow> \<not> rn_stdin (run_act1 cfg io a r) \<and> rn_sent (run_act1 cfg io a r) = rn_sent r"
  by (cases a) (simp_all add: run_ops)

section \<open>Invariants of the loop\<close>

text \<open>\<open>inv A r\<close>: the run \<open>r\<close> after the inputs in \<open>A\<close>.\<close>

locale run_invariant =
  fixes cfg :: sup_config and inv :: "run_input set \<Rightarrow> run \<Rightarrow> bool"
  assumes mono: "inv A r \<Longrightarrow> A \<subseteq> B \<Longrightarrow> inv B r"
    and killed: "inv A r \<Longrightarrow> inv A (r\<lparr>rn_killed := True\<rparr>)"
    and input: "inv A r \<Longrightarrow> inv (insert i A) (fst (run_input_step cfg io i r))"
begin

lemma step: "inv A r \<Longrightarrow> inv (insert (snd x) A) (fst (run_step cfg x r))"
  using input [of A r "snd x" "fst x"] killed [of "insert (snd x) A"]
  by (simp add: run_step_def split: prod.split option.split) (metis fst_conv)

lemma loop: "inv A r \<Longrightarrow> inv (A \<union> snd ` set xs) (fst (run_loop cfg xs r))"
proof (induction xs arbitrary: A r)
  case (Cons x xs)
  obtain r1 res where s: "run_step cfg x r = (r1, res)" by (meson surj_pair)
  with step [OF Cons.prems, of x] have r1: "inv (insert (snd x) A) r1" by simp
  from mono [OF this, of "A \<union> snd ` set (x # xs)"] Cons.IH [OF r1] s show ?case
    by (cases res) (auto simp: insert_commute)
qed simp

end

text \<open>
  An invariant that reads neither the tracker nor the bookkeeping of the loop. The tracker's
  actions are carried out only when the window check is over.
\<close>

locale run_parts =
  fixes cfg :: sup_config and inv :: "run_input set \<Rightarrow> run \<Rightarrow> bool"
  assumes more: "inv A r \<Longrightarrow> A \<subseteq> B \<Longrightarrow> inv B r"
    and unread:
      "inv A (r\<lparr>rn_killed := k\<rparr>) = inv A r" "inv A (r\<lparr>rn_tracker := t\<rparr>) = inv A r"
      "inv A (r\<lparr>rn_contract := c\<rparr>) = inv A r" "inv A (r\<lparr>rn_ticks := n\<rparr>) = inv A r"
      "inv A (r\<lparr>rn_no_conversation := b\<rparr>) = inv A r" "inv A (r\<lparr>rn_readers_open := b\<rparr>) = inv A r"
      "inv A (r\<lparr>rn_dir := (rn_dir r)\<lparr>sdr_marker := m, sdr_projects := ps\<rparr>\<rparr>) = inv A r"
    and act1: "inv A r \<Longrightarrow> rn_intro r = None \<Longrightarrow> inv A (run_act1 cfg io a r)"
    and recorded: "inv A r \<Longrightarrow> inv A (record_next io nx r)"
    and ended: "inv A r \<Longrightarrow> inv A (run_end io code reason r)"
    and stopped: "inv A r \<Longrightarrow> inv A (begin_stop cfg io (r\<lparr>rn_after := Some x\<rparr>))"
    and spoken: "inv A r \<Longrightarrow> inv (insert (RI_Out ev) A) (out_event cfg io ev r)"
begin

lemma act: "inv A r \<Longrightarrow> rn_intro r = None \<Longrightarrow> inv A (run_act cfg io as r)"
  by (induction as arbitrary: r) (simp_all add: run_act_def act1)

lemma tracked: "inv A r \<Longrightarrow> rn_intro r = None \<Longrightarrow> inv A (on_tracker cfg io f r)"
  using act [of A "r\<lparr>rn_tracker := fst (f (rn_tracker r))\<rparr>"]
  by (simp add: on_tracker_def unread case_prod_beta)

lemma on_tracker_intro [simp]: "rn_intro (on_tracker cfg io f r) = rn_intro r"
  by (simp add: on_tracker_def split: prod.split)

lemma outputs: "inv A r \<Longrightarrow> inv (insert (RI_Out ev) A) (on_output cfg io ev r)"
proof -
  assume "inv A r"
  then have "inv (insert (RI_Out ev) A)
      (out_event cfg io ev (r\<lparr>rn_contract := snd (contract_event ev (rotates cfg) (io_now io) (rn_contract r))\<rparr>))"
    by (intro spoken) (simp add: unread)
  then show ?thesis
    by (auto simp: on_output_def out_tracker_def Let_def unread intro!: tracked)
qed

lemma marker: "inv A r \<Longrightarrow> rn_intro r = None \<Longrightarrow> inv A (tick_marker cfg io r)"
  by (auto simp: tick_marker_def unread intro!: tracked recorded split: prod.split bool.split)

lemma marker_intro: "rn_intro (tick_marker cfg io r) = rn_intro r"
  by (simp add: tick_marker_def record_next_def split: prod.split bool.split)

lemma ticks: "inv A r \<Longrightarrow> inv A (on_tick cfg io r)"
  by (auto simp: on_tick_def tick_running_def Let_def unread marker_intro
      intro!: ended tracked marker split: option.split)

end

sublocale run_parts \<subseteq> run_invariant cfg inv
proof (unfold_locales, goal_cases)
  case (3 A r i io)
  note grown = more [OF _ subset_insertI]
  show ?case
  proof (cases i)
    case RI_Shutdown
    with 3 show ?thesis
      by (auto simp: on_shutdown_def intro!: grown stopped split: option.split run_outcome.split)
  next
    case (RI_Tick x)
    with 3 show ?thesis by (cases x) (auto intro!: grown ticks)
  qed (use 3 outputs in \<open>auto simp: unread intro: grown\<close>)
qed (auto simp: unread intro: more)

section \<open>The channel opens on an answer\<close>

definition answered :: "sup_config \<Rightarrow> run_input set \<Rightarrow> bool" where
  "answered cfg A \<longleftrightarrow> \<not> one_shot cfg \<and> (\<exists>tokens. RI_Out (SAssistant False tokens False) \<in> A)"

definition channel_inv :: "sup_config \<Rightarrow> string \<Rightarrow> run_input set \<Rightarrow> run \<Rightarrow> bool" where
  "channel_inv cfg i A r \<longleftrightarrow> rn_id r = i \<and> sdr_ready (rn_dir r) \<in> {None, Some (i @ [NL])} \<and>
     (sdr_ready (rn_dir r) \<noteq> None \<longrightarrow> rn_ready r) \<and> (rn_ready r \<longrightarrow> answered cfg A)"

lemmas ends = run_end_def run_done_def begin_stop_def

lemma channel_output: "channel_inv cfg i A r \<Longrightarrow> channel_inv cfg i (insert (RI_Out ev) A) (out_event cfg io ev r)"
  by (cases ev)
    (auto simp: out_event_def channel_inv_def answered_def ends run_window_def run_fallback_def run_start_def
      open_channel_def run_ops Let_def split: option.split)

interpretation channel: run_parts cfg "channel_inv cfg i" for cfg i
proof (unfold_locales, goal_cases)
  case (13 A r ev io)
  then show ?case by (rule channel_output)
qed (auto simp: channel_inv_def answered_def ends record_next_def)

lemma begin_channel: "channel_inv cfg (st_id s) {} (run_begin cfg io s nb d)"
  by (simp add: channel_inv_def run_begin_def run_start_def run_ops Let_def)


section \<open>No turn before the window check\<close>

definition window_passed :: "u64 \<Rightarrow> run_input set \<Rightarrow> bool" where
  "window_passed want A \<longleftrightarrow> (\<exists>n \<ge> want. RI_Out (SContextUsage WINDOW_REQUEST (Some n)) \<in> A)"

definition silent :: "run \<Rightarrow> bool" where
  "silent r \<longleftrightarrow> (\<forall>t. HL_User t \<notin> set (rn_sent r))"

definition window_inv :: "sup_config \<Rightarrow> run_input set \<Rightarrow> run \<Rightarrow> bool" where
  "window_inv cfg A r \<longleftrightarrow> (rn_after r \<noteq> None \<longrightarrow> \<not> rn_stdin r) \<and>
     (case su_window cfg of
        None \<Rightarrow> True
      | Some want \<Rightarrow> window_passed want A \<or> silent r \<and> (rn_intro r \<noteq> None \<or> \<not> rn_stdin r))"

lemma window_output: "window_inv cfg A r \<Longrightarrow> window_inv cfg (insert (RI_Out ev) A) (out_event cfg io ev r)"
  by (cases ev)
    (auto simp: out_event_def window_inv_def window_passed_def silent_def ends run_window_def run_fallback_def
      open_channel_def Let_def split: option.split)

interpretation window: run_parts cfg "window_inv cfg" for cfg
proof (unfold_locales, goal_cases)
  case (9 A r io a)
  then show ?case
    using act_closed [of r cfg io a] act_stops [of r cfg io a] by (auto simp: window_inv_def silent_def split: option.splits)
next
  case (13 A r ev io)
  then show ?case by (rule window_output)
qed (auto simp: window_inv_def window_passed_def silent_def ends record_next_def split: option.splits)

lemma begin_window: "window_inv cfg {} (run_begin cfg io s nb d)"
  by (simp add: window_inv_def silent_def run_begin_def run_start_def run_ops Let_def split: option.split)

text \<open>
  C11: with a window configured, no turn starts on a smaller one: any line that reaches
  Claude Code as a user's (the start line, an emergency line, the rotation's requests)
  comes after an answer to the window check that gives at least the configured window.
\<close>

theorem no_turn_before_window_check:
  assumes "su_window cfg = Some want" and "run_loop cfg xs (run_begin cfg io s nb d) = (r, res)"
    and "HL_User t \<in> set (rn_sent r)"
  shows "\<exists>n \<ge> want. RI_Out (SContextUsage WINDOW_REQUEST (Some n)) \<in> snd ` set xs"
proof -
  have "window_inv cfg ({} \<union> snd ` set xs) (fst (run_loop cfg xs (run_begin cfg io s nb d)))"
    by (rule window.loop [OF begin_window])
  with assms show ?thesis by (auto simp: window_inv_def window_passed_def silent_def)
qed

section \<open>An ended run\<close>

text \<open>The outcome is decided exactly when Claude Code's standard input is closed and the stop is under way.\<close>

definition stop_inv :: "run \<Rightarrow> bool" where
  "stop_inv r \<longleftrightarrow> (rn_after r = None \<longleftrightarrow> rn_stdin r) \<and> (rn_stopping r = None \<longleftrightarrow> rn_stdin r)"

lemma stop_act: "stop_inv r \<Longrightarrow> stop_inv (run_act1 cfg io a r)"
  by (cases a) (auto simp: stop_inv_def run_ops split: option.split)

lemma stop_output: "stop_inv r \<Longrightarrow> stop_inv (out_event cfg io ev r)"
  by (cases ev)
    (auto simp: out_event_def stop_inv_def ends run_window_def run_fallback_def open_channel_def Let_def
      split: option.split)

interpretation stop: run_parts cfg "\<lambda>A. stop_inv" for cfg
proof (unfold_locales, goal_cases)
  case (9 A r io a)
  then show ?case by (intro stop_act)
next
  case (13 A r ev io)
  then show ?case by (intro stop_output)
qed (auto simp: stop_inv_def ends record_next_def split: option.split)

lemma begin_stop_inv: "stop_inv (run_begin cfg io s nb d)"
  by (simp add: stop_inv_def run_begin_def run_start_def run_ops Let_def)

definition ended_inv :: "run_outcome \<Rightarrow> host_line list \<Rightarrow> run \<Rightarrow> bool" where
  "ended_inv x sent r \<longleftrightarrow> stop_inv r \<and> rn_sent r = sent \<and>
     (rn_after r = Some x \<or> (\<exists>p. x = O_Again p) \<and> rn_after r = Some (O_Exit 0))"

lemma out_tracker_stopping: "rn_stopping r \<noteq> None \<Longrightarrow> out_tracker cfg io ev r = r"
  by (auto simp: out_tracker_def)

lemma on_tick_stopping: "rn_stopping r \<noteq> None \<Longrightarrow> \<exists>k. on_tick cfg io r = r\<lparr>rn_killed := k\<rparr>"
proof (cases "the (rn_stopping r) \<le> io_now io \<and> \<not> rn_killed r")
  case True
  then show "rn_stopping r \<noteq> None \<Longrightarrow> ?thesis" by (intro exI [of _ True]) (auto simp: on_tick_def)
next
  case False
  then show "rn_stopping r \<noteq> None \<Longrightarrow> ?thesis" by (intro exI [of _ "rn_killed r"]) (auto simp: on_tick_def)
qed

lemma ended_output:
  assumes "ended_inv x sent r"
  shows "ended_inv x sent (on_output cfg io ev r)"
proof -
  let ?r = "r\<lparr>rn_contract := snd (contract_event ev (rotates cfg) (io_now io) (rn_contract r))\<rparr>"
  have closed: "rn_after ?r \<noteq> None" "\<not> rn_stdin ?r" "rn_stopping ?r \<noteq> None"
    using assms by (auto simp: ended_inv_def stop_inv_def)
  then have same: "rn_after (out_event cfg io ev ?r) = rn_after r \<and> rn_sent (out_event cfg io ev ?r) = rn_sent r \<and>
      rn_stopping (out_event cfg io ev ?r) = rn_stopping r"
    by (cases ev)
      (auto simp: out_event_def ends run_window_def run_fallback_def open_channel_def run_start_def run_ops Let_def
        split: option.split)
  have "stop_inv (out_event cfg io ev ?r)"
    using assms by (intro stop_output) (simp add: ended_inv_def stop_inv_def)
  moreover have "on_output cfg io ev r = out_event cfg io ev ?r"
    using same closed by (auto simp: on_output_def Let_def intro!: out_tracker_stopping)
  ultimately show ?thesis
    using assms same by (simp add: ended_inv_def)
qed

interpretation ended: run_invariant cfg "\<lambda>A. ended_inv x sent" for cfg x sent
proof (unfold_locales, goal_cases)
  case (3 A r i io)
  then have stopping: "rn_stopping r \<noteq> None" by (auto simp: ended_inv_def stop_inv_def)
  show ?case
  proof (cases i)
    case (RI_Tick y)
    obtain k where "on_tick cfg io r = r\<lparr>rn_killed := k\<rparr>" using on_tick_stopping [OF stopping] by blast
    with RI_Tick 3 show ?thesis by (cases y) (auto simp: ended_inv_def stop_inv_def)
  next
    case RI_Shutdown
    with 3 stopping show ?thesis
      by (cases x) (auto simp: on_shutdown_def begin_stop_def ended_inv_def stop_inv_def)
  next
    case (RI_Out ev)
    with 3 show ?thesis by (simp add: ended_output)
  qed (use 3 in \<open>auto simp: ended_inv_def stop_inv_def\<close>)
qed (auto simp: ended_inv_def stop_inv_def)

text \<open>
  Once a run has an outcome nothing more is sent to Claude Code, and the first reason
  stands whatever comes later; only a shutdown takes the place of a restart the rotation
  asked for, and then the supervisor exits with 0.
\<close>

theorem ended_run_is_silent:
  assumes "run_loop cfg xs (run_begin cfg io s nb d) = (r, None)" and "rn_after r = Some x"
    and "run_loop cfg ys r = (r2, res)"
  shows "rn_sent r2 = rn_sent r \<and> (rn_after r2 = Some x \<or> (\<exists>p. x = O_Again p) \<and> rn_after r2 = Some (O_Exit 0))"
proof -
  have "stop_inv (fst (run_loop cfg xs (run_begin cfg io s nb d)))"
    by (rule stop.loop [OF begin_stop_inv])
  with assms(1,2) have "ended_inv x (rn_sent r) r" by (simp add: ended_inv_def)
  then have "ended_inv x (rn_sent r) (fst (run_loop cfg ys r))" by (rule ended.loop)
  with assms(3) show ?thesis by (auto simp: ended_inv_def)
qed

section \<open>The rotation's protocol, as Claude Code sees it\<close>

definition rotation_texts :: "host_text set" where
  "rotation_texts = {HT_Handoff, HT_Compact, HT_Compacted}"

definition rotation_lines :: "host_line list \<Rightarrow> host_line list" where
  "rotation_lines ls = filter (\<lambda>l. l \<in> HL_User ` rotation_texts) ls"

fun out_lines :: "rot_out \<Rightarrow> host_line list" where
  "out_lines (Act RequestHandoff) = [HL_User HT_Handoff]"
| "out_lines (Act Compact) = [HL_User HT_Compact]"
| "out_lines (Act Compacted) = [HL_User HT_Compacted]"
| "out_lines _ = []"

definition is_again :: "run \<Rightarrow> bool" where
  "is_again r \<longleftrightarrow> (\<exists>p. rn_after r = Some (O_Again p))"

lemma rotation_lines_append [simp]: "rotation_lines (xs @ ys) = rotation_lines xs @ rotation_lines ys"
  by (simp add: rotation_lines_def)

lemma act1_lines:
  assumes "protocol1 m (Act a) = Some m1" and "rn_stdin r" "\<not> is_again r"
  shows "rotation_lines (rn_sent (run_act1 cfg io a r)) = rotation_lines (rn_sent r) @ out_lines (Act a)"
    and "rn_stdin (run_act1 cfg io a r) \<and> \<not> is_again (run_act1 cfg io a r) \<or> fst m1 = M_Over"
  using assms
  by (cases "(m, Act a)" rule: protocol1.cases;
      auto simp: run_ops rotation_lines_def rotation_texts_def is_again_def split: if_splits)+

lemma act_lines:
  assumes "protocol m (map Act as) = Some m1" and "rn_stdin r \<and> \<not> is_again r \<or> fst m = M_Over"
  shows "rotation_lines (rn_sent (run_act cfg io as r)) =
      rotation_lines (rn_sent r) @ concat (map out_lines (map Act as)) \<and>
    (rn_stdin (run_act cfg io as r) \<and> \<not> is_again (run_act cfg io as r) \<or> fst m1 = M_Over)"
  using assms
proof (induction as arbitrary: m r)
  case (Cons a as)
  from Cons.prems obtain m2 where m2: "protocol1 m (Act a) = Some m2" "protocol m2 (map Act as) = Some m1"
    by (auto split: option.splits)
  then have "fst m \<noteq> M_Over" using protocol1_over by (cases m) auto
  with Cons.prems have r: "rn_stdin r" "\<not> is_again r" by auto
  with Cons.IH [OF m2(2) act1_lines(2) [OF m2(1) r]] act1_lines(1) [OF m2(1) r] show ?case
    by (simp add: run_act_def)
qed (simp add: run_act_def)

text \<open>The tracker of a run is at the end of a history of its own whose requests are the lines sent.\<close>

definition rot_hist :: "tracker \<Rightarrow> run \<Rightarrow> bool" where
  "rot_hist t0 r \<longleftrightarrow> (\<exists>ops os. rot_run ops t0 = (rn_tracker r, os) \<and>
     rotation_lines (rn_sent r) = concat (map out_lines os))"

definition rot_open :: "run \<Rightarrow> bool" where
  "rot_open r \<longleftrightarrow> rn_stdin r \<and> \<not> is_again r \<or> fst (mstate (rn_tracker r)) = M_Over"

lemma rot_run_snoc:
  "rot_run (ops @ [op]) t = (let (t1, os1) = rot_run ops t; (t2, os2) = rot_feed op t1 in (t2, os1 @ os2))"
  by (induction ops arbitrary: t) (simp_all add: case_prod_beta Let_def)

lemma hist_wf: "tracker_wf t0 \<Longrightarrow> rot_hist t0 r \<Longrightarrow> tracker_wf (rn_tracker r)"
  using rot_run_protocol by (auto simp: rot_hist_def)

lemma hist_feed:
  assumes "rot_hist t0 r" and "rot_feed op (rn_tracker r) = (rn_tracker r2, os)"
    and "rotation_lines (rn_sent r2) = rotation_lines (rn_sent r) @ concat (map out_lines os)"
  shows "rot_hist t0 r2"
proof -
  from assms(1) obtain ops os1 where h: "rot_run ops t0 = (rn_tracker r, os1)"
      "rotation_lines (rn_sent r) = concat (map out_lines os1)"
    by (auto simp: rot_hist_def)
  with assms(2,3) have "rot_run (ops @ [op]) t0 = (rn_tracker r2, os1 @ os)"
    by (simp add: rot_run_snoc)
  with h assms(3) show ?thesis
    unfolding rot_hist_def by (intro exI [of _ "ops @ [op]"] exI [of _ "os1 @ os"]) simp
qed

lemma on_tracker_follows:
  assumes "tracker_wf t0" "rot_hist t0 r" "rot_open r"
    and op: "rot_feed op (rn_tracker r) = (let (t1, as) = f (rn_tracker r) in (t1, map Act as))"
  shows "rot_hist t0 (on_tracker cfg io f r) \<and> rot_open (on_tracker cfg io f r)"
proof -
  obtain t1 as where f: "f (rn_tracker r) = (t1, as)" by (meson surj_pair)
  with op have feed: "rot_feed op (rn_tracker r) = (t1, map Act as)" by simp
  let ?r1 = "r\<lparr>rn_tracker := t1\<rparr>"
  from rot_feed_protocol [OF hist_wf [OF assms(1,2)] feed]
  have p: "protocol (mstate (rn_tracker r)) (map Act as) = Some (mstate t1)" by simp
  have "rn_stdin ?r1 \<and> \<not> is_again ?r1 \<or> fst (mstate (rn_tracker r)) = M_Over"
    using assms(3) by (auto simp: rot_open_def is_again_def)
  from act_lines [OF p this, of cfg io] hist_feed [OF assms(2), of op "on_tracker cfg io f r" "map Act as"] feed f
  show ?thesis by (simp add: on_tracker_def rot_open_def)
qed

definition follow_inv :: "tracker \<Rightarrow> run \<Rightarrow> bool" where
  "follow_inv t0 r \<longleftrightarrow> tracker_wf t0 \<and> stop_inv r \<and> rot_hist t0 r \<and>
     (is_again r \<longrightarrow> fst (mstate (rn_tracker r)) = M_Over) \<and>
     (\<forall>l t. rn_intro r = Some (l, t) \<longrightarrow> l \<notin> rotation_texts)"

lemma follow_open: "follow_inv t0 r \<Longrightarrow> rn_stopping r = None \<Longrightarrow> rot_open r"
  by (auto simp: follow_inv_def stop_inv_def rot_open_def is_again_def)

lemma on_tracker_stop: "stop_inv r \<Longrightarrow> stop_inv (on_tracker cfg io f r)"
proof -
  have "stop_inv r \<Longrightarrow> stop_inv (run_act cfg io as r)" for as r
    by (induction as arbitrary: r) (simp_all add: run_act_def stop_act)
  then show "stop_inv r \<Longrightarrow> ?thesis"
    by (simp add: on_tracker_def stop_inv_def split: prod.split)
qed

lemma follow_tracker:
  assumes "follow_inv t0 r" "rot_open r"
    and "rot_feed op (rn_tracker r) = (let (t1, as) = f (rn_tracker r) in (t1, map Act as))"
  shows "follow_inv t0 (on_tracker cfg io f r) \<and> rot_open (on_tracker cfg io f r)"
proof -
  have "rn_intro (on_tracker cfg io f r) = rn_intro r"
    by (simp add: on_tracker_def split: prod.split)
  moreover have "rot_hist t0 (on_tracker cfg io f r) \<and> rot_open (on_tracker cfg io f r)"
    using assms(1) by (intro on_tracker_follows [of t0 r op f, OF _ _ assms(2,3)]) (auto simp: follow_inv_def)
  ultimately show ?thesis
    using on_tracker_stop [of r cfg io f] assms(1)
    by (auto simp: follow_inv_def rot_open_def)
qed

lemma follow_output:
  assumes "follow_inv t0 r"
  shows "follow_inv t0 (out_event cfg io ev r)"
proof -
  have "rotation_lines (rn_sent (out_event cfg io ev r)) = rotation_lines (rn_sent r) \<and>
      rn_tracker (out_event cfg io ev r) = rn_tracker r \<and>
      (is_again (out_event cfg io ev r) \<longrightarrow> is_again r) \<and>
      (\<forall>l t. rn_intro (out_event cfg io ev r) = Some (l, t) \<longrightarrow> l \<notin> rotation_texts)"
    using assms
    by (cases ev)
      (auto simp: out_event_def follow_inv_def is_again_def ends run_window_def run_fallback_def open_channel_def
        run_start_def run_ops rotation_lines_def Let_def split: option.split)
  with assms stop_output show ?thesis
    by (auto simp: follow_inv_def rot_hist_def)
qed

lemma follow_unread [simp]:
  "follow_inv t0 (r\<lparr>rn_contract := c\<rparr>) = follow_inv t0 r" "follow_inv t0 (r\<lparr>rn_killed := k\<rparr>) = follow_inv t0 r"
  "follow_inv t0 (r\<lparr>rn_ticks := n\<rparr>) = follow_inv t0 r" "follow_inv t0 (r\<lparr>rn_dir := d\<rparr>) = follow_inv t0 r"
  "follow_inv t0 (r\<lparr>rn_no_conversation := b\<rparr>) = follow_inv t0 r"
  "follow_inv t0 (r\<lparr>rn_readers_open := b\<rparr>) = follow_inv t0 r"
  by (simp_all add: follow_inv_def stop_inv_def rot_hist_def is_again_def)

lemma follow_silent:
  assumes "follow_inv t0 r" and "rot_feed op (rn_tracker r) = (t, os)" and "concat (map out_lines os) = []"
    and "rn_stdin r"
  shows "follow_inv t0 (r\<lparr>rn_tracker := t\<rparr>)"
proof -
  have "rot_hist t0 (r\<lparr>rn_tracker := t\<rparr>)"
  proof (rule hist_feed [of t0 r op _ os])
    show "rot_hist t0 r" using assms(1) by (simp add: follow_inv_def)
  qed (use assms(2,3) in simp_all)
  with assms(1,4) show ?thesis
    by (simp add: follow_inv_def stop_inv_def is_again_def)
qed

lemma follow_note:
  assumes "follow_inv t0 r" "rn_stopping r = None"
  shows "follow_inv t0 (r\<lparr>rn_tracker := set_note_written b (rn_tracker r)\<rparr>)"
  using assms by (intro follow_silent [of t0 r "OpNote b" _ "[]"]) (auto simp: follow_inv_def stop_inv_def)

lemma follow_out_tracker: "follow_inv t0 r \<Longrightarrow> follow_inv t0 (out_tracker cfg io ev r)"
proof (cases "rn_stopping r = None \<and> rn_intro r = None")
  case True
  assume r: "follow_inv t0 r"
  define r1 where "r1 = (if (case ev of SResult _ _ \<Rightarrow> awaiting_handoff (rn_tracker r) | _ \<Rightarrow> False)
    then r\<lparr>rn_tracker := set_note_written (case rn_watch r of Some hw \<Rightarrow> handoff_written hw (rn_dir r) | None \<Rightarrow> False)
      (rn_tracker r)\<rparr> else r)"
  have r1: "follow_inv t0 r1" "rn_stopping r1 = None"
    using r True follow_note by (auto simp: r1_def)
  from True have "out_tracker cfg io ev r = on_tracker cfg io (Tracker_event ev (io_now io)) r1"
    by (simp add: out_tracker_def r1_def Let_def)
  with follow_tracker [OF r1(1) follow_open [OF r1], of "OpEvent ev (io_now io)"] show ?thesis by simp
qed (auto simp: out_tracker_def)

lemma follow_marker:
  assumes "follow_inv t0 r" "rn_stopping r = None"
  shows "follow_inv t0 (tick_marker cfg io r) \<and> rot_open (tick_marker cfg io r)"
proof -
  note o = follow_open [OF assms]
  have seen: "follow_inv t0 (on_tracker cfg io (marker_seen (io_now io)) r) \<and>
      rot_open (on_tracker cfg io (marker_seen (io_now io)) r)"
    by (rule follow_tracker [OF assms(1) o, of "OpMarker (io_now io)"]) simp
  obtain t b where c: "cancel (rn_tracker r) = (t, b)" by (meson surj_pair)
  have stdin: "rn_stdin r" using assms by (auto simp: follow_inv_def stop_inv_def)
  have "follow_inv t0 (r\<lparr>rn_tracker := t\<rparr>)"
    using c by (intro follow_silent [OF assms(1) _ _ stdin, of OpCancel _ "if b then [Cancelled] else []"]) auto
  moreover from this have "rot_open (r\<lparr>rn_tracker := t\<rparr>)"
    using assms(2) by (intro follow_open) auto
  ultimately show ?thesis
    using seen assms(1) o c
    by (cases b) (auto simp: tick_marker_def record_next_def rot_open_def is_again_def)
qed

lemma follow_tick:
  assumes "follow_inv t0 r"
  shows "follow_inv t0 (on_tick cfg io r)"
proof (cases "rn_stopping r = None \<and> rn_intro r = None \<and> \<not> one_shot cfg")
  case True
  let ?r = "r\<lparr>rn_ticks := rn_ticks r + 1\<rparr>"
  from True assms have m: "follow_inv t0 (tick_marker cfg io ?r)" "rot_open (tick_marker cfg io ?r)"
    using follow_marker [of t0 ?r] by auto
  from follow_tracker [OF m, of "OpTick (io_now io)" "Tracker_tick (io_now io)" cfg io] True show ?thesis
    by (simp add: on_tick_def tick_running_def Let_def)
next
  case False
  have "follow_inv t0 (run_end io code reason r)" for code reason
    using assms by (auto simp: run_end_def follow_inv_def stop_inv_def rot_hist_def is_again_def)
  with False assms show ?thesis
    by (auto simp: on_tick_def split: option.split)
qed

interpretation follow: run_invariant cfg "\<lambda>A. follow_inv t0" for cfg t0
proof (unfold_locales, goal_cases)
  case (3 A r i io)
  show ?case
  proof (cases i)
    case (RI_Out ev)
    with 3 show ?thesis by (simp add: on_output_def Let_def follow_out_tracker follow_output)
  next
    case (RI_Tick y)
    with 3 show ?thesis by (cases y) (simp_all add: follow_tick)
  next
    case RI_Shutdown
    have "follow_inv t0 (begin_stop cfg io (r\<lparr>rn_after := Some (O_Exit 0)\<rparr>))"
      using 3 by (auto simp: begin_stop_def follow_inv_def stop_inv_def rot_hist_def is_again_def split: option.split)
    with RI_Shutdown 3 show ?thesis
      by (auto simp: on_shutdown_def split: option.split run_outcome.split)
  qed (use 3 in auto)
qed auto

lemma begin_follow: "follow_inv (rn_tracker (run_begin cfg io s nb d)) (run_begin cfg io s nb d)"
proof -
  have "rot_run [] t = (t, [])" for t by simp
  moreover have "tracker_wf (rn_tracker (run_begin cfg io s nb d))"
    using started_wf by (simp add: run_begin_def run_ops run_start_def Let_def)
  moreover have "rotation_lines (rn_sent (run_begin cfg io s nb d)) = []"
    by (auto simp: run_begin_def run_start_def run_ops rotation_lines_def rotation_texts_def start_line_def Let_def
        split: option.split emergency.split)
  moreover have "rn_intro (run_begin cfg io s nb d) = Some (l, t) \<Longrightarrow> l \<notin> rotation_texts" for l t
    by (auto simp: run_begin_def run_start_def run_ops rotation_texts_def start_line_def Let_def
        split: option.splits emergency.splits if_splits)
  moreover have "\<not> is_again (run_begin cfg io s nb d)"
    by (simp add: is_again_def run_begin_def run_ops run_start_def Let_def)
  ultimately show ?thesis
    using begin_stop_inv by (auto simp: follow_inv_def rot_hist_def intro: exI [of _ "[]"])
qed

text \<open>
  C7: a run carries a rotation out by its protocol: the handoff, compaction and
  continuation lines that Claude Code gets are, in order and with none lost, those of a
  history of the rotation's state machine from the state the run starts in, that history
  follows the protocol, and the session is run again only when the protocol is over.
\<close>

theorem run_follows_rotation:
  assumes "run_loop cfg xs (run_begin cfg io s nb d) = (r, res)"
  shows "\<exists>ops os m. rot_run ops (rn_tracker (run_begin cfg io s nb d)) = (rn_tracker r, os) \<and>
    rotation_lines (rn_sent r) = concat (map out_lines os) \<and>
    protocol (mstate (rn_tracker (run_begin cfg io s nb d))) os = Some m \<and>
    (is_again r \<longrightarrow> fst m = M_Over)"
proof -
  let ?t0 = "rn_tracker (run_begin cfg io s nb d)"
  have "follow_inv ?t0 (fst (run_loop cfg xs (run_begin cfg io s nb d)))"
    by (rule follow.loop [OF begin_follow])
  with assms have r: "follow_inv ?t0 r" by simp
  then obtain ops os where h: "rot_run ops ?t0 = (rn_tracker r, os)"
      "rotation_lines (rn_sent r) = concat (map out_lines os)"
    by (auto simp: follow_inv_def rot_hist_def)
  from r rot_run_protocol [OF _ h(1)] have "protocol (mstate ?t0) os = Some (mstate (rn_tracker r))"
    by (simp add: follow_inv_def)
  with h r show ?thesis
    by (intro exI [of _ ops] exI [of _ os] exI [of _ "mstate (rn_tracker r)"]) (simp add: follow_inv_def)
qed

section \<open>Examples\<close>

definition demo_cfg :: sup_config where
  "demo_cfg = \<lparr>su_session = ''main'', su_state = ''/s'', su_persona = ''/p'', su_plugin_bin = ''/b'', su_socket = ''/k'',
     su_model = None, su_effort = None, su_fallback_model = None, su_window = Some 200000, su_window_wait = 60,
     su_auth = Some (ApiKey ''k''), su_stop_grace = 30, su_limits = demo_limits, su_backups_keep = 2,
     su_emergency = None\<rparr>"

definition demo_flag :: "bool \<Rightarrow> char" where
  "demo_flag b = (if b then CHR ''t'' else CHR ''f'')"

definition demo_to_str :: "next_start \<Rightarrow> string" where
  "demo_to_str n = (case n of
      Next_Normal \<Rightarrow> ''n''
    | Next_Retry s a h \<Rightarrow> ''r'' @ [demo_flag s, demo_flag h] @ replicate (unat a) CHR ''i''
    | Next_Postponed a h \<Rightarrow> ''p'' @ [demo_flag h] @ replicate (unat a) CHR ''i''
    | Next_Fresh h \<Rightarrow> ''f'' @ [demo_flag h])"

definition demo_io :: "instant \<Rightarrow> run_io" where
  "demo_io now = \<lparr>io_now = now, io_wall = 0, io_ready_ok = True, io_next_ok = True, io_marker_ok = True,
     io_to_str = demo_to_str,
     io_tree_ok = (\<lambda>_. True), io_copy_ok = True, io_rm_ok = (\<lambda>_. True), io_why = (\<lambda>_. ''why'')\<rparr>"

definition demo_dir :: session_dir where
  "demo_dir = \<lparr>sdr_id = Some ''old'', sdr_ready = Some ''stale'', sdr_marker = None, sdr_rotation = None,
     sdr_projects = [(''proj'', \<lparr>pj_transcripts = [(''old'', ''talk'')], pj_memory = None\<rparr>)], sdr_backups = [], sdr_cache = []\<rparr>"

definition demo_start :: start where
  "demo_start = resumed ''old'' K_Resumed 0 False False"

definition demo_inputs :: "(run_io \<times> run_input) list" where
  "demo_inputs = [(demo_io 1, RI_Out (SContextUsage WINDOW_REQUEST (Some 200000))),
     (demo_io 2, RI_Out (SAssistant False (Some 10) False))]"

lemmas run_eval = demo_cfg_def demo_io_def demo_dir_def demo_start_def demo_inputs_def demo_limits_def one_shot_def
  rotates_def start_line_def resumed_def run_begin_def run_start_def run_ops run_step_def on_output_def out_event_def
  run_window_def open_channel_def out_tracker_def on_tracker_def run_act_def Let_def clear_channel_ready_def
  write_channel_ready_def write_atomic_def marker_exists_def Tracker_new_def Tracker_event_def advance_def
  Tracker_retrying_def

lemma demo_run:
  "rn_after (fst (run_loop demo_cfg demo_inputs (run_begin demo_cfg (demo_io 0) demo_start None demo_dir))) = None"
  "sdr_ready (rn_dir (fst (run_loop demo_cfg demo_inputs (run_begin demo_cfg (demo_io 0) demo_start None demo_dir)))) =
     Some (''old'' @ [NL])"
  "rn_sent (fst (run_loop demo_cfg demo_inputs (run_begin demo_cfg (demo_io 0) demo_start None demo_dir))) =
     [HL_Control WINDOW_REQUEST, HL_User (HT_Intro K_Resumed)]"
  by (simp_all add: run_eval)



theorem no_turn_before_window_check_witness:
  "HL_User (HT_Intro K_Resumed) \<in>
     set (rn_sent (fst (run_loop demo_cfg demo_inputs (run_begin demo_cfg (demo_io 0) demo_start None demo_dir)))) \<and>
   (\<exists>n \<ge> 200000. RI_Out (SContextUsage WINDOW_REQUEST (Some n)) \<in> snd ` set demo_inputs)"
proof -
  have w: "su_window demo_cfg = Some 200000" by (simp add: demo_cfg_def)
  have sent: "HL_User (HT_Intro K_Resumed) \<in>
      set (rn_sent (fst (run_loop demo_cfg demo_inputs (run_begin demo_cfg (demo_io 0) demo_start None demo_dir))))"
    by (simp add: demo_run)
  from no_turn_before_window_check [OF w prod.collapse [symmetric] sent] sent show ?thesis by blast
qed

definition demo_stop :: run where
  "demo_stop = fst (run_loop demo_cfg [(demo_io 1, RI_Shutdown)] (run_begin demo_cfg (demo_io 0) demo_start None demo_dir))"

theorem ended_run_is_silent_witness:
  "rn_after demo_stop = Some (O_Exit 0) \<and> rn_sent (fst (run_loop demo_cfg demo_inputs demo_stop)) = [HL_Control WINDOW_REQUEST]"
proof -
  have run: "run_loop demo_cfg [(demo_io 1, RI_Shutdown)] (run_begin demo_cfg (demo_io 0) demo_start None demo_dir) =
      (demo_stop, None)"
    by (simp add: demo_stop_def run_step_def)
  have x: "rn_after demo_stop = Some (O_Exit 0)" "rn_sent demo_stop = [HL_Control WINDOW_REQUEST]"
    by (simp_all add: demo_stop_def on_shutdown_def run_eval)
  from ended_run_is_silent [OF run x(1) prod.collapse [symmetric], of demo_inputs] x show ?thesis by simp
qed

definition demo_failed :: run where
  "demo_failed = fst (run_loop demo_cfg (demo_inputs @ [(demo_io 3, RI_Out (SResult True False))])
     (run_begin demo_cfg (demo_io 0) (resumed ''old'' K_Retry 0 False False) None demo_dir))"

theorem run_follows_rotation_witness:
  "is_again demo_failed \<and>
   (\<exists>ops os m. rot_run ops (rn_tracker (run_begin demo_cfg (demo_io 0) (resumed ''old'' K_Retry 0 False False) None demo_dir)) =
      (rn_tracker demo_failed, os) \<and> fst m = M_Over \<and>
    protocol (mstate (rn_tracker (run_begin demo_cfg (demo_io 0) (resumed ''old'' K_Retry 0 False False) None demo_dir))) os = Some m)"
proof -
  have again: "is_again demo_failed"
    by (simp add: demo_failed_def is_again_def failed_def HANDOFF_ATTEMPTS_def awaiting_handoff_def set_note_written_def
        compaction_line_def run_eval)
  with run_follows_rotation [where cfg = demo_cfg and nb = None and d = demo_dir and io = "demo_io 0"
      and xs = "demo_inputs @ [(demo_io 3, RI_Out (SResult True False))]" and s = "resumed ''old'' K_Retry 0 False False",
      OF prod.collapse [symmetric]]
  show ?thesis unfolding demo_failed_def [symmetric] by blast
qed

end
