(* ===== verification/Supervision.thy ===== *)
theory Supervision
  imports Supervised_Run
begin

text \<open>
  What holds from one run of Claude Code to the next: the exit codes of emergency mode, a
  rotation carried over a restart, and the credential passed on.
\<close>

section \<open>Emergency mode stays down\<close>

definition outcome_down :: "run_outcome option \<Rightarrow> bool" where
  "outcome_down x \<longleftrightarrow>
     (case x of
        Some (O_Ended code _) \<Rightarrow> code \<in> {1, EXIT_MODEL, EXIT_EMERGENCY}
      | Some (O_Again _) \<Rightarrow> False
      | _ \<Rightarrow> True)"

definition at_rest :: "tracker \<Rightarrow> bool" where
  "at_rest t \<longleftrightarrow> phase t = Idle \<and> \<not> pending t \<and> \<not> enabled (lim t)"

definition down_inv :: "sup_config \<Rightarrow> run \<Rightarrow> bool" where
  "down_inv cfg r \<longleftrightarrow> (one_shot cfg \<longrightarrow> at_rest (rn_tracker r) \<and> outcome_down (rn_after r))"

lemma rest_event: "at_rest t \<Longrightarrow> \<exists>t1. Tracker_event ev now t = (t1, []) \<and> at_rest t1"
  using disabled_feed [of t "OpEvent ev now"] by (auto simp: at_rest_def split: prod.splits)

lemma rest_note [simp]: "at_rest (set_note_written b t) = at_rest t"
  by (simp add: at_rest_def set_note_written_def)

lemma down_ends [simp]:
  "down_inv cfg r \<Longrightarrow> code \<in> {1, EXIT_MODEL, EXIT_EMERGENCY} \<Longrightarrow> down_inv cfg (run_end io code reason r)"
  "down_inv cfg r \<Longrightarrow> down_inv cfg (run_done cfg io reason r)"
  by (auto simp: down_inv_def outcome_down_def ends)

lemma down_output: "down_inv cfg r \<Longrightarrow> down_inv cfg (out_event cfg io ev r)"
  by (cases ev)
    (auto simp: out_event_def down_inv_def outcome_down_def run_window_def run_fallback_def open_channel_def ends Let_def
      split: option.split)

lemma down_out_tracker: "down_inv cfg r \<Longrightarrow> down_inv cfg (out_tracker cfg io ev r)"
proof (cases "one_shot cfg")
  case True
  assume "down_inv cfg r"
  with True have r: "at_rest (rn_tracker r)" "outcome_down (rn_after r)" by (auto simp: down_inv_def)
  have "down_inv cfg (on_tracker cfg io (Tracker_event ev (io_now io)) r1)"
    if "at_rest (rn_tracker r1)" "rn_after r1 = rn_after r" for r1
    using rest_event [OF that(1), of ev "io_now io"] that r
    by (auto simp: on_tracker_def run_act_def down_inv_def)
  with r \<open>down_inv cfg r\<close> show ?thesis
    by (auto simp: out_tracker_def Let_def)
qed (simp add: down_inv_def)

interpretation down: run_invariant cfg "\<lambda>A. down_inv cfg" for cfg
proof (unfold_locales, goal_cases)
  case (3 A r i io)
  show ?case
  proof (cases i)
    case (RI_Out ev)
    have "down_inv cfg (r\<lparr>rn_contract := c\<rparr>)" for c using 3 by (simp add: down_inv_def)
    with RI_Out 3 show ?thesis by (simp add: on_output_def Let_def down_out_tracker down_output)
  next
    case (RI_Tick y)
    with 3 show ?thesis
      by (cases y; cases "one_shot cfg") (auto simp: down_inv_def outcome_down_def on_tick_def run_end_def split: option.split)
  qed (use 3 in \<open>auto simp: down_inv_def outcome_down_def on_shutdown_def begin_stop_def split: option.splits run_outcome.splits\<close>)
qed (auto simp: down_inv_def)

lemma begin_down: "st_kind s \<noteq> K_Retry \<Longrightarrow> down_inv cfg (run_begin cfg io s nb d)"
  by (auto simp: down_inv_def at_rest_def outcome_down_def run_begin_def run_start_def run_ops rotates_def
      Tracker_new_def Let_def)

lemma run_once_down:
  assumes "one_shot cfg" "st_kind s \<noteq> K_Retry" "run_once cfg sc s nb d = Some (x, d1)"
  shows "outcome_down (Some x)"
proof (cases "rs_spawn_ok sc")
  case True
  obtain r res where l: "run_loop cfg (rs_inputs sc) (run_begin cfg (rs_io sc) s nb d) = (r, res)" by (meson surj_pair)
  have "down_inv cfg (fst (run_loop cfg (rs_inputs sc) (run_begin cfg (rs_io sc) s nb d)))"
    by (rule down.loop [OF begin_down [OF assms(2)]])
  with l assms(1) have "outcome_down (rn_after r)" by (simp add: down_inv_def)
  with assms(3) True l show ?thesis
    by (auto simp: run_once_def run_close_def outcome_down_def Let_def split: option.splits)
qed (use assms(3) in \<open>auto simp: run_once_def outcome_down_def\<close>)

lemma resumable_cong:
  "sdr_id d1 = sdr_id d \<Longrightarrow> sdr_projects d1 = sdr_projects d \<Longrightarrow> resumable d1 = resumable d"
proof -
  assume "sdr_id d1 = sdr_id d" "sdr_projects d1 = sdr_projects d"
  moreover from this(2) have "transcript i d1 = transcript i d" for i by (simp add: transcript_def)
  ultimately show ?thesis by (simp add: resumable_def read_id_def cong: option.case_cong)
qed

lemma resumable_prune [simp]: "resumable (prune_cache rm_ok now d) = resumable d"
  by (rule resumable_cong) (simp_all add: prune_cache_def)

text \<open>
  In emergency mode of the one-turn kind the supervisor makes at most one run, and
  unless it was told to stop it exits with the code that keeps the unit down for the
  emergency, or with the one for a model that cannot serve: a restart, which would send the
  line again, never follows. Not exiting means that the one run is still going on.
\<close>

lemma one_shot_exit:
  assumes "one_shot cfg" "\<not> rd_cancelled x" "\<not> rd_cancelled_after x"
  shows "case fst (supervise cfg True rm_ok now (x # xs) d) of
      Some code \<Rightarrow> code \<in> {EXIT_EMERGENCY, EXIT_MODEL}
    | None \<Rightarrow> (\<exists>i. resumable d = Some i \<and>
        run_once cfg (rd_script x) (resumed i K_Resumed 0 False False) None (prune_cache rm_ok now d) = None)"
proof (cases "resumable d")
  case (Some i)
  let ?s = "resumed i K_Resumed 0 False False"
  show ?thesis
  proof (cases "run_once cfg (rd_script x) ?s None (prune_cache rm_ok now d)")
    case (Some y)
    obtain out d1 where y: "y = (out, d1)" by (meson surj_pair)
    with Some run_once_down [OF assms(1), of ?s "rd_script x" None "prune_cache rm_ok now d" out d1]
    have "outcome_down (Some out)" by (simp add: resumed_def)
    with assms Some y \<open>resumable d = Some i\<close> show ?thesis
      by (cases out) (auto simp: supervise_def emergency_start_def after_run_def outcome_down_def)
  qed (use assms Some in \<open>simp add: supervise_def emergency_start_def\<close>)
qed (use assms in \<open>simp add: supervise_def emergency_start_def\<close>)

section \<open>A rotation survives the restart\<close>

lemma read_write_next:
  assumes "from_str (to_str n @ [NL]) = Some n"
  shows "read_next from_str (write_next to_str True n d) = n"
  using assms by (simp add: read_next_def write_next_def write_atomic_def)

lemmas restart = plan_start_def plan_rotated_def plan_fresh_def run_begin_def run_start_def run_ops Let_def
  marker_exists_def clear_channel_ready_def resumed_def

text \<open>
  C15: a rotation goes on where it was across a restart of the session. After a cut the same
  conversation is resumed for its handoff, with the attempts spent and the note's state kept;
  after a failure it is resumed with the rotation still pending under the same count, as
  long as the marker is there; and when the attempts are spent the next start is a fresh
  session that knows whether a handoff was written, with the rotation's records gone.
\<close>

theorem rotation_survives_restart:
  assumes json: "\<forall>n. pl_from_str p (io_to_str io n @ [NL]) = Some n"
    and ok: "io_next_ok io" and id: "resumable (rn_dir r) = Some i"
    and rot: "rotates cfg" "marker_exists (rn_dir r)" and fresh: "pl_random p = Some bytes" "pl_id_ok p"
  shows "(\<exists>s d2. plan_start p (rn_dir (run_act1 cfg io (Retry step att ho) r)) = (Some s, d2) \<and>
      st_id s = i \<and> st_resume s \<and> mstate (rn_tracker (run_begin cfg io2 s nb d2)) = (M_Handoff, att, ho)) \<and>
    (\<exists>s d2. plan_start p (rn_dir (run_act1 cfg io (Postpone step att ho) r)) = (Some s, d2) \<and>
      st_id s = i \<and> st_resume s \<and> mstate (rn_tracker (run_begin cfg io2 s nb d2)) = (M_Rest, att, ho) \<and>
      pending (rn_tracker (run_begin cfg io2 s nb d2))) \<and>
    (\<exists>s d2. plan_start p (rn_dir (run_act1 cfg io (GiveUp step c ho) r)) = (Some s, d2) \<and>
      st_id s = new_id bytes \<and> \<not> st_resume s \<and> st_kind s = K_AfterRotation ho \<and>
      \<not> marker_exists d2 \<and> read_next (pl_from_str p) d2 = Next_Normal)"
proof (intro conjI)
  let ?d = "\<lambda>n. write_next (io_to_str io) True n (rn_dir r)"
  have read: "read_next (pl_from_str p) (?d n) = n" for n
    using json by (intro read_write_next) simp
  have resume: "resumable (?d n) = Some i" for n
    using id resumable_cong [of "?d n" "rn_dir r"] by simp
  show "\<exists>s d2. plan_start p (rn_dir (run_act1 cfg io (Retry step att ho) r)) = (Some s, d2) \<and>
      st_id s = i \<and> st_resume s \<and> mstate (rn_tracker (run_begin cfg io2 s nb d2)) = (M_Handoff, att, ho)"
    using ok read resume started_mstate(3) by (simp add: restart)
  show "\<exists>s d2. plan_start p (rn_dir (run_act1 cfg io (Postpone step att ho) r)) = (Some s, d2) \<and>
      st_id s = i \<and> st_resume s \<and> mstate (rn_tracker (run_begin cfg io2 s nb d2)) = (M_Rest, att, ho) \<and>
      pending (rn_tracker (run_begin cfg io2 s nb d2))"
    using ok read resume rot started_mstate(2)
    by (auto simp: restart Tracker_pending_def Tracker_new_def mstate_def)
  show "\<exists>s d2. plan_start p (rn_dir (run_act1 cfg io (GiveUp step c ho) r)) = (Some s, d2) \<and>
      st_id s = new_id bytes \<and> \<not> st_resume s \<and> st_kind s = K_AfterRotation ho \<and>
      \<not> marker_exists d2 \<and> read_next (pl_from_str p) d2 = Next_Normal"
    using ok read fresh by (simp add: restart clear_rotation_def read_next_def)
qed

section \<open>One credential\<close>

definition token_of :: "(string \<Rightarrow> string option) \<Rightarrow> string \<Rightarrow> string" where
  "token_of read f = (case read (''auth_'' @ f) of
      None \<Rightarrow> [] | Some t \<Rightarrow> concat (concat (split_whitespace_u (chars t))))"

lemma fold_unset: "fold (\<lambda>var e. e(var := None)) vs e v = (if v \<in> set vs then None else e v)"
  by (induction vs arbitrary: e) auto

definition auth_var :: "auth option \<Rightarrow> string \<Rightarrow> string option" where
  "auth_var a v =
     (case a of
        None \<Rightarrow> None
      | Some (OAuth token) \<Rightarrow> if v = ''CLAUDE_CODE_OAUTH_TOKEN'' then Some token else None
      | Some (ApiKey key) \<Rightarrow> if v = ''ANTHROPIC_API_KEY'' then Some key else None
      | Some (Gateway url token) \<Rightarrow>
          if v = ''CLAUDE_CODE_ENABLE_GATEWAY_MODEL_DISCOVERY'' then Some ''1''
          else if v = ''ANTHROPIC_API_KEY'' then Some []
          else if v = ''ANTHROPIC_AUTH_TOKEN'' then Some token
          else if v = ''ANTHROPIC_BASE_URL'' then Some url else None)"

lemma auth_env:
  assumes "v \<in> set AUTH_VARS"
  shows "claude_env show_num join_path cfg inherited v = auth_var (su_auth cfg) v"
proof -
  have "fold (\<lambda>var e. e(var := None)) AUTH_VARS e v = None" for e :: "string \<rightharpoonup> string"
    using assms by (simp add: fold_unset)
  then show ?thesis
    unfolding claude_env_def auth_var_def Let_def
    by (simp only: fun_upd_apply split: option.split auth.split) simp
qed

lemma auth_load_Inr:
  assumes "auth_load read url = Inr a"
  shows "a = OAuth (token_of read ''oauth-token'') \<and> token_of read ''oauth-token'' \<noteq> [] \<and>
      token_of read ''api-key'' = [] \<and> token_of read ''gateway-token'' = [] \<or>
    a = ApiKey (token_of read ''api-key'') \<and> token_of read ''api-key'' \<noteq> [] \<and>
      token_of read ''oauth-token'' = [] \<and> token_of read ''gateway-token'' = [] \<or>
    (\<exists>u. url = Some u \<and> u \<noteq> [] \<and> a = Gateway u (token_of read ''gateway-token'')) \<and>
      token_of read ''gateway-token'' \<noteq> [] \<and>
      token_of read ''oauth-token'' = [] \<and> token_of read ''api-key'' = []"
  using assms
  by (auto simp: auth_load_def token_of_def map_filter_simps Let_def split: option.splits if_splits list.splits)

definition SECRETS :: "string list" where
  "SECRETS = [''CLAUDE_CODE_OAUTH_TOKEN'', ''ANTHROPIC_API_KEY'', ''ANTHROPIC_AUTH_TOKEN'']"

definition CREDENTIALS :: "string list" where
  "CREDENTIALS = [''oauth-token'', ''api-key'', ''gateway-token'']"

lemma secrets_auth: "v \<in> set SECRETS \<Longrightarrow> v \<in> set AUTH_VARS"
  by (auto simp: SECRETS_def AUTH_VARS_def)

lemma auth_var_secret:
  "(\<exists>v \<in> set SECRETS. auth_var (Some a) v = Some t \<and> t \<noteq> []) \<longleftrightarrow>
   t \<noteq> [] \<and> t = (case a of OAuth x \<Rightarrow> x | ApiKey x \<Rightarrow> x | Gateway _ x \<Rightarrow> x)"
  by (cases a) (auto simp: SECRETS_def auth_var_def)

text \<open>
  C16: Claude Code gets exactly one secret, whatever the unit's environment holds: with a
  credential loaded, exactly one of the three credential files has a token, and the
  nonempty values of the variables that carry a secret are that token alone.
\<close>

theorem one_credential:
  assumes "auth_load read url = Inr a" and "su_auth cfg = Some a"
  shows "\<exists>f \<in> set CREDENTIALS. token_of read f \<noteq> [] \<and>
    (\<forall>g \<in> set CREDENTIALS. g \<noteq> f \<longrightarrow> token_of read g = []) \<and>
    {t. \<exists>v \<in> set SECRETS. claude_env show_num join_path cfg inherited v = Some t \<and> t \<noteq> []} = {token_of read f}"
proof -
  have env: "{t. \<exists>v \<in> set SECRETS. claude_env show_num join_path cfg inherited v = Some t \<and> t \<noteq> []} =
      {t. t \<noteq> [] \<and> t = (case a of OAuth x \<Rightarrow> x | ApiKey x \<Rightarrow> x | Gateway _ x \<Rightarrow> x)}"
    using assms(2) auth_env [OF secrets_auth] auth_var_secret [of a] by auto
  from auth_load_Inr [OF assms(1)] show ?thesis
    unfolding env by (elim disjE) (auto simp: CREDENTIALS_def)
qed

section \<open>Examples\<close>

definition demo_emergency :: sup_config where
  "demo_emergency = demo_cfg\<lparr>su_window := None, su_emergency := Some (OneShot ''/compact'')\<rparr>"

definition demo_from_str :: "string \<Rightarrow> next_start option" where
  "demo_from_str t =
     (if hd t = CHR ''n'' then Some Next_Normal
      else if hd t = CHR ''r'' then Some (Next_Retry (t ! 1 = CHR ''t'') (of_nat (length t - 4)) (t ! 2 = CHR ''t''))
      else if hd t = CHR ''p'' then Some (Next_Postponed (of_nat (length t - 3)) (t ! 1 = CHR ''t''))
      else Some (Next_Fresh (t ! 1 = CHR ''t'')))"

lemma demo_json: "demo_from_str (demo_to_str n @ [NL]) = Some n"
  by (cases n) (auto simp: demo_from_str_def demo_to_str_def demo_flag_def)

definition demo_plan :: plan_io where
  "demo_plan = \<lparr>pl_from_str = demo_from_str, pl_to_str = demo_to_str, pl_random = Some (replicate 16 0), pl_id_ok = True,
     pl_next_ok = True\<rparr>"

definition demo_round :: round where
  "demo_round = \<lparr>rd_cancelled = False, rd_plan = demo_plan,
     rd_script = \<lparr>rs_spawn_ok = True, rs_io = demo_io 0, rs_inputs = [(demo_io 1, RI_Tick (Some 1))], rs_left = []\<rparr>,
     rd_cancelled_after = False\<rparr>"

lemma demo_resumable: "resumable demo_dir = Some ''old''"
  by code_simp

lemma demo_run_once:
  "\<exists>d2. run_once demo_emergency (rd_script demo_round) (resumed ''old'' K_Resumed 0 False False) None
      (prune_cache (\<lambda>_. True) 0 demo_dir) = Some (O_Exit 1, d2)"
proof -
  have "map_option fst (run_once demo_emergency (rd_script demo_round) (resumed ''old'' K_Resumed 0 False False) None
      (prune_cache (\<lambda>_. True) 0 demo_dir)) =
      Some (O_Exit 1)"
    by (simp add: run_once_def run_close_def demo_emergency_def demo_round_def run_eval)
  then show ?thesis by auto
qed

theorem one_credential_witness:
  "\<exists>f \<in> set CREDENTIALS. token_of (\<lambda>f. if f = ''auth_api-key'' then Some ''k'' else None) f \<noteq> [] \<and>
    {t. \<exists>v \<in> set SECRETS. claude_env (\<lambda>_. ''200000'') (\<lambda>a b. a @ ''/'' @ b) demo_cfg
        [''ANTHROPIC_AUTH_TOKEN'' \<mapsto> ''stray''] v = Some t \<and> t \<noteq> []} =
      {token_of (\<lambda>f. if f = ''auth_api-key'' then Some ''k'' else None) f}"
proof -
  have "auth_load (\<lambda>f. if f = ''auth_api-key'' then Some ''k'' else None) None = Inr (ApiKey ''k'')"
    by code_simp
  moreover have "su_auth demo_cfg = Some (ApiKey ''k'')" by (simp add: demo_cfg_def)
  ultimately show ?thesis using one_credential by blast
qed

theorem rotation_survives_restart_witness:
  "\<exists>s d2. plan_start demo_plan (rn_dir (run_act1 demo_cfg (demo_io 3) (Postpone Step_Handoff 1 False)
       (run_begin demo_cfg (demo_io 0) demo_start None (demo_dir\<lparr>sdr_marker := Some ''m''\<rparr>)))) = (Some s, d2) \<and>
     st_id s = ''old'' \<and> st_resume s \<and> mstate (rn_tracker (run_begin demo_cfg (demo_io 9) s (Some 903) d2)) = (M_Rest, 1, False)"
proof -
  let ?r = "run_begin demo_cfg (demo_io 0) demo_start None (demo_dir\<lparr>sdr_marker := Some ''m''\<rparr>)"
  have "\<forall>n. pl_from_str demo_plan (io_to_str (demo_io 3) n @ [NL]) = Some n"
    by (simp add: demo_plan_def demo_io_def demo_json)
  moreover have "io_next_ok (demo_io 3)" "rotates demo_cfg" "pl_random demo_plan = Some (replicate 16 0)" "pl_id_ok demo_plan"
    by (simp_all add: demo_io_def demo_plan_def rotates_def demo_cfg_def demo_limits_def one_shot_def)
  moreover have "marker_exists (rn_dir ?r)"
    by (simp add: run_eval)
  moreover have "resumable (rn_dir ?r) = Some ''old''"
    using resumable_cong [of "rn_dir ?r" demo_dir] demo_resumable by (simp add: run_eval)
  ultimately show ?thesis
    using rotation_survives_restart [of demo_plan "demo_io 3" ?r "''old''" demo_cfg "replicate 16 0" Step_Handoff 1 False "demo_io 9" "Some 903"]
    by meson
qed

end
