(* ===== verification/Plugin.thy ===== *)
theory Plugin
  imports File_Transfer "HOL-Library.Multiset" "HOL-Library.Sublist"
begin

text \<open>
  The channel plugin's side of the socket (\<open>crates/silta-claude/src/daemon.rs\<close>): the
  handshake, the live connection that multiplexes commands, events and transfers, and the
  task that reconnects, together with the pump of \<open>mcp.rs\<close> that hands events to Claude Code
  and acknowledges them. The tasks are interleaved steps over one state: the queues between
  them, what was written to the daemon, the answers given to the tools and the events handed
  over. A tool's call is a number; the outcome of every write, read and file operation is an
  input. The texts of journal lines are left out; a queue is never full, which delays its
  sender in the code and nothing else.
\<close>

section \<open>Commands\<close>

definition CLIENT_NAME :: "string \<Rightarrow> string" where
  "CLIENT_NAME version = ''silta-claude/'' @ version"

definition RESULT_TIMEOUT :: duration where
  "RESULT_TIMEOUT = 60 * 1000"

definition SEND_FILE_TIMEOUT :: duration where
  "SEND_FILE_TIMEOUT = 300 * 1000"

definition BACKOFF_MIN :: duration where
  "BACKOFF_MIN = 1000"

definition BACKOFF_MAX :: duration where
  "BACKOFF_MAX = 30 * 1000"

datatype daemon_error =
    PE_Unavailable string
  | PE_Timeout duration
  | PE_Refused result_error string

text \<open>\<open>debug\<close> is \<open>Duration\<close>'s own rendering.\<close>

definition daemon_error_fmt :: "(duration \<Rightarrow> string) \<Rightarrow> daemon_error \<Rightarrow> string" where
  "daemon_error_fmt debug e =
     (case e of
        PE_Unavailable why \<Rightarrow> ''daemon_unavailable: '' @ why
      | PE_Timeout t \<Rightarrow> ''timeout: no result from the daemon within '' @ debug t
      | PE_Refused code message \<Rightarrow> result_error_as_str code @ '': '' @ message)"

record plugin_inbound =
  pi_event :: event
  pi_paths :: "string option list"

record command =
  co_kind :: cmd_kind
  co_file :: "(string \<times> file_header) option"
  co_done :: nat

datatype outgoing = Out_Command command | Out_Ack string

text \<open>
  \<open>send_file\<close> up to the submission. \<open>meta\<close> is what \<open>metadata\<close> says of the path: the text of
  its error, or whether it is a regular file and its length.
\<close>

definition plugin_send_file ::
  "(string \<Rightarrow> string option) \<Rightarrow> (string \<Rightarrow> string) \<Rightarrow> (string \<Rightarrow> string + bool \<times> u64) \<Rightarrow> string \<Rightarrow> send_file \<Rightarrow>
     daemon_error + cmd_kind \<times> (string \<times> file_header)"
where
  "plugin_send_file file_name mime_of meta path c =
     (if \<not> starts_with ''/'' path then Inl (PE_Refused RE_FileError (path @ '' is not an absolute path''))
      else case meta path of
        Inl err \<Rightarrow> Inl (PE_Refused RE_FileError (''cannot read '' @ path @ '': '' @ err))
      | Inr (is_file, len) \<Rightarrow>
          if \<not> is_file then Inl (PE_Refused RE_FileError (path @ '' is not a regular file''))
          else let name = (case file_name path of Some n \<Rightarrow> n | None \<Rightarrow> ''file'');
                   header = \<lparr>fh_transfer = [], fh_name = name, fh_mime = mime_of path, fh_size = len\<rparr>
               in Inr (CSendFile (c\<lparr>sf_transfer := []\<rparr>), path, header))"

text \<open>How the wait of a submitted command ended.\<close>

datatype wait_end = W_Stopped | W_Timeout | W_Lost | W_Done "daemon_error + cmd_result"

definition submit_result :: "duration \<Rightarrow> wait_end \<Rightarrow> daemon_error + cmd_result" where
  "submit_result timeout w =
     (case w of
        W_Stopped \<Rightarrow> Inl (PE_Unavailable ''connection task stopped'')
      | W_Timeout \<Rightarrow> Inl (PE_Timeout timeout)
      | W_Lost \<Rightarrow> Inl (PE_Unavailable ''connection lost'')
      | W_Done (Inl e) \<Rightarrow> Inl e
      | W_Done (Inr r) \<Rightarrow>
          if res_ok r then Inr r
          else Inl (PE_Refused (case res_error r of Some c \<Rightarrow> c | None \<Rightarrow> RE_Unknown)
                      (case res_message r of Some m \<Rightarrow> m | None \<Rightarrow> [])))"

section \<open>Backoff\<close>

text \<open>The delay before its jitter, and the next one; the jitter is a factor from 3/4 to 5/4.\<close>

definition backoff_next :: "duration \<Rightarrow> duration \<times> duration" where
  "backoff_next current = (current, min (current * 2) BACKOFF_MAX)"

section \<open>Waiting to connect\<close>

text \<open>
  The wait for \<open>initialized\<close> and for the ready file. Each poll says whether the file exists and,
  if not, whether the process was told to stop before the next one; \<open>None\<close> is still waiting.
\<close>

datatype ready_wait = RW_Cancelled | RW_Initialized | RW_Dropped

fun poll_ready :: "(bool \<times> bool) list \<Rightarrow> bool option" where
  "poll_ready [] = None"
| "poll_ready ((there, cancelled) # ps) =
     (if there then Some True else if cancelled then Some False else poll_ready ps)"

definition wait_until_ready :: "ready_wait \<Rightarrow> bool \<Rightarrow> (bool \<times> bool) list \<Rightarrow> bool option" where
  "wait_until_ready first ready_file polls =
     (case first of
        RW_Cancelled \<Rightarrow> Some False
      | RW_Dropped \<Rightarrow> Some False
      | RW_Initialized \<Rightarrow> if ready_file then poll_ready polls else Some True)"

section \<open>The handshake\<close>

datatype first_line = FL_Io | FL_Unsent | FL_Timeout | FL_Bad | FL_Eof | FL_Message daemon_message

datatype connect_error =
    CE_Io
  | CE_Unsent
  | CE_Timeout
  | CE_Bad
  | CE_Protocol u32
  | CE_Refused error_code string
  | CE_Unexpected daemon_message
  | CE_Closed

definition plugin_hello :: "string \<Rightarrow> string \<Rightarrow> hello" where
  "plugin_hello version session =
     \<lparr>hello_protocol = PROTOCOL_VERSION, hello_session = session, hello_client = CLIENT_NAME version\<rparr>"

definition plugin_connect :: "first_line \<Rightarrow> connect_error + welcome_msg" where
  "plugin_connect l =
     (case l of
        FL_Io \<Rightarrow> Inl CE_Io
      | FL_Unsent \<Rightarrow> Inl CE_Unsent
      | FL_Timeout \<Rightarrow> Inl CE_Timeout
      | FL_Bad \<Rightarrow> Inl CE_Bad
      | FL_Eof \<Rightarrow> Inl CE_Closed
      | FL_Message (DM_Welcome w) \<Rightarrow>
          if welcome_protocol w \<noteq> PROTOCOL_VERSION then Inl (CE_Protocol (welcome_protocol w)) else Inr w
      | FL_Message (DM_Error e) \<Rightarrow> Inl (CE_Refused (pe_code e) (pe_message e))
      | FL_Message m \<Rightarrow> Inl (CE_Unexpected m))"

section \<open>The live connection\<close>

definition plugin_wrap :: "piece \<Rightarrow> client_message" where
  "plugin_wrap p = (case p of P_Header h \<Rightarrow> CM_File h | P_Chunk c \<Rightarrow> CM_Chunk c | P_End e \<Rightarrow> CM_FileEnd e)"

datatype plugin_phase = Ph_Connecting | Ph_Serving | Ph_Waiting | Ph_Stopped

record plugin =
  pg_phase :: plugin_phase
  pg_backoff :: duration
  pg_waiters :: "(u64 \<times> nat) list"
  pg_next_id :: u64
  pg_rx :: rx
  pg_arrived :: "(string \<times> string) list"
  pg_queue :: "outgoing list"
  pg_events :: "plugin_inbound list"
  pg_pumping :: bool
  pg_written :: "client_message list"
  pg_answers :: "(nat \<times> wait_end) list"
  pg_seen :: "plugin_inbound list"
  pg_notified :: "plugin_inbound list"

text \<open>
  The streaming of a file: sent whole, or failed after \<open>n\<close> lines, with an error that \<open>is_local\<close>
  counts as the file's or not.
\<close>

datatype file_outcome = FO_Sent "string list" | FO_Failed bool "string list" nat

record plugin_env =
  pv_open_ok :: bool
  pv_write :: write_outcome
  pv_flush_ok :: bool
  pv_line_ok :: bool
  pv_err :: string
  pv_file :: file_outcome

text \<open>What never changes: the mime table, the base64 codec and the inbox.\<close>

record plugin_params =
  pp_exts :: "string \<Rightarrow> string list option"
  pp_decode :: "string \<Rightarrow> string option"
  pp_encode :: "string \<Rightarrow> string"
  pp_inbox :: string

definition answer :: "nat \<Rightarrow> wait_end \<Rightarrow> plugin \<Rightarrow> plugin" where
  "answer k w s = s\<lparr>pg_answers := pg_answers s @ [(k, w)]\<rparr>"

definition write_out :: "client_message list \<Rightarrow> plugin \<Rightarrow> plugin" where
  "write_out ms s = s\<lparr>pg_written := pg_written s @ ms\<rparr>"

text \<open>The end of \<open>serve\<close>: the open transfers go, and every waiting command is told.\<close>

definition serve_over :: "plugin \<Rightarrow> plugin" where
  "serve_over s =
     s\<lparr>pg_phase := Ph_Waiting, pg_rx := abort_all (pg_rx s), pg_waiters := [], pg_arrived := [],
       pg_answers := pg_answers s @
         map (\<lambda>(_, k). (k, W_Done (Inl (PE_Unavailable ''connection lost'')))) (pg_waiters s)\<rparr>"

text \<open>
  An event takes the paths of its attachments out of what arrived. The receiving end of the
  events is the pump's, so it is gone with it.
\<close>

fun take_paths :: "attachment list \<Rightarrow> (string \<times> string) list \<Rightarrow> string option list \<times> (string \<times> string) list" where
  "take_paths [] got = ([], got)"
| "take_paths (a # as) got =
     (let (ps, got') = take_paths as (AList.delete (att_transfer a) got)
      in (map_of got (att_transfer a) # ps, got'))"

definition on_event_line :: "event \<Rightarrow> plugin \<Rightarrow> plugin" where
  "on_event_line ev s =
     (let (ps, got) = take_paths (ev_attachments ev) (pg_arrived s);
          x = \<lparr>pi_event = ev, pi_paths = ps\<rparr>;
          s1 = s\<lparr>pg_arrived := got\<rparr>
      in if pg_pumping s then s1\<lparr>pg_events := pg_events s1 @ [x], pg_seen := pg_seen s1 @ [x]\<rparr>
         else serve_over s1)"

definition on_file_end :: "plugin_env \<Rightarrow> file_end \<Rightarrow> plugin \<Rightarrow> plugin" where
  "on_file_end e k s =
     (case receiver_end (pv_flush_ok e) k (pg_rx s) of
        (Inr f, r) \<Rightarrow>
          s\<lparr>pg_rx := r, pg_arrived := AList.update (fh_transfer (rd_header f)) (rd_path f) (pg_arrived s)\<rparr>
      | (Inl _, r) \<Rightarrow> s\<lparr>pg_rx := r\<rparr>)"

definition on_result :: "cmd_result \<Rightarrow> plugin \<Rightarrow> plugin" where
  "on_result res s =
     (case map_of (pg_waiters s) (res_id res) of
        Some k \<Rightarrow> answer k (W_Done (Inr res)) (s\<lparr>pg_waiters := AList.delete (res_id res) (pg_waiters s)\<rparr>)
      | None \<Rightarrow> s)"

text \<open>A line of the daemon: \<open>None\<close> one that cannot be parsed.\<close>

datatype daemon_input = DI_Line "daemon_message option" | DI_Eof | DI_Error

definition on_daemon :: "plugin_params \<Rightarrow> plugin_env \<Rightarrow> daemon_input \<Rightarrow> plugin \<Rightarrow> plugin" where
  "on_daemon p e i s =
     (case i of
        DI_Line (Some (DM_Event ev)) \<Rightarrow> on_event_line ev s
      | DI_Line (Some (DM_File h)) \<Rightarrow> s\<lparr>pg_rx := snd (receiver_begin (pp_exts p) (pv_open_ok e) h (pg_rx s))\<rparr>
      | DI_Line (Some (DM_Chunk c)) \<Rightarrow> s\<lparr>pg_rx := snd (receiver_chunk (pp_decode p) (pv_write e) c (pg_rx s))\<rparr>
      | DI_Line (Some (DM_FileEnd k)) \<Rightarrow> on_file_end e k s
      | DI_Line (Some (DM_Result res)) \<Rightarrow> on_result res s
      | DI_Line (Some (DM_Error _)) \<Rightarrow> serve_over s
      | DI_Line (Some (DM_Welcome _)) \<Rightarrow> s
      | DI_Line None \<Rightarrow> s
      | DI_Eof \<Rightarrow> serve_over s
      | DI_Error \<Rightarrow> serve_over s)"

text \<open>\<open>pending.insert\<close>: a sender that was under the id is dropped, so its command is told that the connection is lost.\<close>

definition await :: "u64 \<Rightarrow> nat \<Rightarrow> plugin \<Rightarrow> plugin" where
  "await i k s =
     (let s1 = (case map_of (pg_waiters s) i of Some k' \<Rightarrow> answer k' W_Lost s | None \<Rightarrow> s)
      in s1\<lparr>pg_waiters := (i, k) # AList.delete i (pg_waiters s)\<rparr>)"

definition send_cmd :: "plugin_env \<Rightarrow> u64 \<Rightarrow> cmd_kind \<Rightarrow> nat \<Rightarrow> plugin \<Rightarrow> plugin" where
  "send_cmd e i kind k s =
     (if pv_line_ok e then await i k (write_out [CM_Cmd \<lparr>cmd_id = i, cmd_kind = kind\<rparr>] s)
      else serve_over (answer k (W_Done (Inl (PE_Unavailable (''write failed: '' @ pv_err e)))) s))"

definition on_command :: "plugin_params \<Rightarrow> plugin_env \<Rightarrow> command \<Rightarrow> plugin \<Rightarrow> plugin" where
  "on_command p e c s0 =
     (let i = pg_next_id s0; s = s0\<lparr>pg_next_id := i + 1\<rparr>; k = co_done c
      in case (co_kind c, co_file c) of
           (CSendFile f, Some (path, header)) \<Rightarrow>
             let transfer = ''t'' @ dec (unat i); h = header\<lparr>fh_transfer := transfer\<rparr>
             in (case pv_file e of
                   FO_Sent src \<Rightarrow>
                     send_cmd e i (CSendFile (f\<lparr>sf_transfer := transfer\<rparr>)) k
                       (write_out (map plugin_wrap (send (pp_encode p) h src)) s)
                 | FO_Failed local src n \<Rightarrow>
                     let s1 = write_out (take n (map plugin_wrap (send (pp_encode p) h src))) s
                     in if local
                        then answer k (W_Done (Inl (PE_Refused RE_FileError (''cannot read '' @ path @ '': '' @ pv_err e)))) s1
                        else serve_over (answer k (W_Done (Inl (PE_Unavailable (''write failed: '' @ pv_err e)))) s1))
         | (kind, _) \<Rightarrow> send_cmd e i kind k s)"

definition on_outgoing :: "plugin_params \<Rightarrow> plugin_env \<Rightarrow> outgoing \<Rightarrow> plugin \<Rightarrow> plugin" where
  "on_outgoing p e x s =
     (case x of
        Out_Ack eid \<Rightarrow> if pv_line_ok e then write_out [CM_Ack \<lparr>ack_event_id = eid\<rparr>] s else serve_over s
      | Out_Command c \<Rightarrow> on_command p e c s)"

text \<open>While the task waits to reconnect, commands fail at once and acknowledgements are dropped.\<close>

definition while_away :: "outgoing \<Rightarrow> plugin \<Rightarrow> plugin" where
  "while_away x s =
     (case x of
        Out_Command c \<Rightarrow> answer (co_done c) (W_Done (Inl (PE_Unavailable ''not connected''))) s
      | Out_Ack _ \<Rightarrow> s)"

section \<open>The tasks\<close>

definition plugin_new :: "plugin_params \<Rightarrow> fs \<Rightarrow> plugin" where
  "plugin_new p files =
     \<lparr>pg_phase = Ph_Connecting, pg_backoff = BACKOFF_MIN, pg_waiters = [], pg_next_id = 1,
      pg_rx = (receiver_new (pp_inbox p) [] (-1), files), pg_arrived = [], pg_queue = [], pg_events = [],
      pg_pumping = True, pg_written = [], pg_answers = [], pg_seen = [], pg_notified = []\<rparr>"

text \<open>
  The steps. \<open>PS_Connect\<close> is the first line after connecting; \<open>PS_Daemon\<close> and \<open>PS_Take\<close> are the
  branches of the loops that read the socket and the queue; \<open>PS_Wake\<close> ends the delay; \<open>PS_Stop\<close>
  is the cancellation, which drops what is queued. \<open>PS_Submit\<close> is a tool's call and
  \<open>PS_Pump ok\<close> one round of the pump.
\<close>

datatype plugin_op =
    PS_Connect first_line
  | PS_Daemon plugin_env daemon_input
  | PS_Take plugin_env
  | PS_Wake
  | PS_Stop
  | PS_Submit command
  | PS_Pump bool

definition on_connect :: "plugin_params \<Rightarrow> first_line \<Rightarrow> plugin \<Rightarrow> plugin" where
  "on_connect p l s =
     (case plugin_connect l of
        Inr w \<Rightarrow>
          s\<lparr>pg_phase := Ph_Serving, pg_backoff := BACKOFF_MIN, pg_next_id := 1, pg_arrived := [],
            pg_rx := (receiver_new (pp_inbox p) [] (-1), snd (pg_rx s))\<rparr>
      | Inl _ \<Rightarrow> s\<lparr>pg_phase := Ph_Waiting\<rparr>)"

definition queued_commands :: "outgoing list \<Rightarrow> nat list" where
  "queued_commands q = List.map_filter (\<lambda>x. case x of Out_Command c \<Rightarrow> Some (co_done c) | Out_Ack _ \<Rightarrow> None) q"

definition on_stop :: "plugin \<Rightarrow> plugin" where
  "on_stop s =
     (let s1 = (if pg_phase s = Ph_Serving then serve_over s else s)
      in s1\<lparr>pg_phase := Ph_Stopped, pg_queue := [],
            pg_answers := pg_answers s1 @ map (\<lambda>k. (k, W_Lost)) (queued_commands (pg_queue s1))\<rparr>)"

definition pump :: "bool \<Rightarrow> plugin \<Rightarrow> plugin" where
  "pump ok s =
     (case pg_events s of
        [] \<Rightarrow> s
      | x # xs \<Rightarrow>
          if \<not> pg_pumping s then s
          else if ok
          then s\<lparr>pg_events := xs, pg_notified := pg_notified s @ [x],
                 pg_queue := (if pg_phase s = Ph_Stopped then pg_queue s
                              else pg_queue s @ [Out_Ack (ev_event_id (pi_event x))])\<rparr>
          else s\<lparr>pg_events := [], pg_pumping := False\<rparr>)"

fun plugin_step :: "plugin_params \<Rightarrow> plugin_op \<Rightarrow> plugin \<Rightarrow> plugin" where
  "plugin_step p (PS_Connect l) s = (if pg_phase s = Ph_Connecting then on_connect p l s else s)"
| "plugin_step p (PS_Daemon e i) s = (if pg_phase s = Ph_Serving then on_daemon p e i s else s)"
| "plugin_step p (PS_Take e) s =
     (case pg_queue s of
        [] \<Rightarrow> s
      | x # xs \<Rightarrow>
          if pg_phase s = Ph_Serving then on_outgoing p e x (s\<lparr>pg_queue := xs\<rparr>)
          else if pg_phase s = Ph_Waiting then while_away x (s\<lparr>pg_queue := xs\<rparr>)
          else s)"
| "plugin_step p PS_Wake s =
     (if pg_phase s = Ph_Waiting then s\<lparr>pg_phase := Ph_Connecting, pg_backoff := snd (backoff_next (pg_backoff s))\<rparr> else s)"
| "plugin_step p PS_Stop s = (if pg_phase s = Ph_Stopped then s else on_stop s)"
| "plugin_step p (PS_Submit c) s =
     (if pg_phase s = Ph_Stopped then answer (co_done c) W_Stopped s
      else s\<lparr>pg_queue := pg_queue s @ [Out_Command c]\<rparr>)"
| "plugin_step p (PS_Pump ok) s = pump ok s"

definition plugin_run :: "plugin_params \<Rightarrow> plugin_op list \<Rightarrow> plugin \<Rightarrow> plugin" where
  "plugin_run p ops s = fold (plugin_step p) ops s"

section \<open>Invariants\<close>

locale plugin_invariant =
  fixes p :: plugin_params and inv :: "plugin_op list \<Rightarrow> plugin \<Rightarrow> bool"
  assumes step: "inv ops s \<Longrightarrow> inv (ops @ [x]) (plugin_step p x s)"
begin

lemma run_from: "inv ops0 s \<Longrightarrow> inv (ops0 @ ops) (plugin_run p ops s)"
proof (induction ops arbitrary: ops0 s)
  case (Cons x xs)
  from Cons.IH [OF step [OF Cons.prems], of x] show ?case by (simp add: plugin_run_def)
qed (simp add: plugin_run_def)

lemma run: "inv [] s \<Longrightarrow> inv ops (plugin_run p ops s)"
  using run_from [of "[]"] by simp

end

lemmas plugin_ops = answer_def write_out_def serve_over_def on_event_line_def on_file_end_def on_result_def on_daemon_def
  await_def send_cmd_def on_command_def on_outgoing_def while_away_def on_connect_def on_stop_def pump_def Let_def

text \<open>Every call of a tool is answered once, waits for its result, or is queued.\<close>

fun submitted :: "plugin_op list \<Rightarrow> nat list" where
  "submitted [] = []"
| "submitted (PS_Submit c # ops) = co_done c # submitted ops"
| "submitted (_ # ops) = submitted ops"

definition accounted :: "plugin \<Rightarrow> nat multiset" where
  "accounted s = mset (map fst (pg_answers s)) + mset (map snd (pg_waiters s)) + mset (queued_commands (pg_queue s))"

definition waiters_wf :: "plugin \<Rightarrow> bool" where
  "waiters_wf s \<longleftrightarrow> distinct (map fst (pg_waiters s)) \<and> (pg_phase s \<noteq> Ph_Serving \<longrightarrow> pg_waiters s = []) \<and>
     (pg_phase s = Ph_Stopped \<longrightarrow> queued_commands (pg_queue s) = [])"

lemma submitted_append [simp]: "submitted (xs @ ys) = submitted xs @ submitted ys"
  by (induction xs rule: submitted.induct) auto

lemma queued_simps [simp]:
  "queued_commands [] = []" "queued_commands (Out_Command c # q) = co_done c # queued_commands q"
  "queued_commands (Out_Ack i # q) = queued_commands q"
  "queued_commands (q @ q2) = queued_commands q @ queued_commands q2"
  by (simp_all add: queued_commands_def map_filter_def)

lemma delete_values:
  "distinct (map fst ws) \<Longrightarrow> map_of ws i = Some k \<Longrightarrow> mset (map snd ws) = add_mset k (mset (map snd (AList.delete i ws)))"
proof (induction ws)
  case (Cons w ws)
  obtain j x where w: "w = (j, x)" by (cases w)
  show ?case
  proof (cases "j = i")
    case True
    with Cons.prems w have "AList.delete i ws = ws" by (simp add: delete_conv' map_of_eq_None_iff)
    with True Cons.prems w show ?thesis by simp
  qed (use Cons w in auto)
qed simp

lemma delete_keys: "distinct (map fst ws) \<Longrightarrow> distinct (map fst (AList.delete i ws))"
  by (simp add: distinct_delete)

lemma delete_gone: "i \<notin> fst ` set (AList.delete i ws)"
  by (auto simp: AList.delete_eq)

lemma delete_absent: "map_of ws i = None \<Longrightarrow> AList.delete i ws = ws"
  by (simp add: delete_id map_of_eq_None_iff)

lemma serve_over_accounted [simp]: "accounted (serve_over s) = accounted s"
  by (simp add: serve_over_def accounted_def image_mset.compositionality comp_def case_prod_beta)

lemma serve_over_wf [simp]: "waiters_wf (serve_over s)"
  by (simp add: serve_over_def waiters_wf_def)

lemma answer_accounted [simp]: "accounted (answer k w s) = add_mset k (accounted s)"
  by (simp add: answer_def accounted_def)

lemma answer_wf [simp]: "waiters_wf (answer k w s) = waiters_wf s"
  by (simp add: answer_def waiters_wf_def)

lemma write_out_quiet [simp]:
  "accounted (write_out ms s) = accounted s" "waiters_wf (write_out ms s) = waiters_wf s"
  "pg_phase (write_out ms s) = pg_phase s" "pg_waiters (write_out ms s) = pg_waiters s"
  by (simp_all add: write_out_def accounted_def waiters_wf_def)

lemma await_keeps:
  assumes "waiters_wf s" "pg_phase s = Ph_Serving"
  shows "accounted (await i k s) = add_mset k (accounted s)" "waiters_wf (await i k s)"
proof -
  have d: "distinct (map fst (pg_waiters s))" using assms by (simp add: waiters_wf_def)
  show "accounted (await i k s) = add_mset k (accounted s)"
    using delete_values [OF d, of i] delete_absent [of "pg_waiters s" i]
    by (cases "map_of (pg_waiters s) i") (simp_all add: await_def Let_def accounted_def answer_def)
  show "waiters_wf (await i k s)"
    using assms delete_keys [OF d, of i] delete_gone [of i "pg_waiters s"]
    by (simp add: await_def Let_def waiters_wf_def answer_def split: option.split)
qed

lemma send_cmd_keeps:
  assumes "waiters_wf s" "pg_phase s = Ph_Serving"
  shows "accounted (send_cmd e i kind k s) = add_mset k (accounted s)" "waiters_wf (send_cmd e i kind k s)"
  using assms await_keeps [of "write_out [CM_Cmd \<lparr>cmd_id = i, cmd_kind = kind\<rparr>] s"]
  by (simp_all add: send_cmd_def)

lemma on_command_keeps:
  assumes "waiters_wf s" "pg_phase s = Ph_Serving"
  shows "accounted (on_command p e c s) = add_mset (co_done c) (accounted s)" "waiters_wf (on_command p e c s)"
proof -
  let ?s = "s\<lparr>pg_next_id := pg_next_id s + 1\<rparr>"
  have s: "waiters_wf ?s" "pg_phase ?s = Ph_Serving" "accounted ?s = accounted s"
    using assms by (simp_all add: waiters_wf_def accounted_def)
  have w: "waiters_wf (write_out ms ?s)" "pg_phase (write_out ms ?s) = Ph_Serving" for ms using s by simp_all
  show "accounted (on_command p e c s) = add_mset (co_done c) (accounted s)" "waiters_wf (on_command p e c s)"
    using s w send_cmd_keeps [OF s(1,2)] send_cmd_keeps [OF w]
    by (simp_all add: on_command_def Let_def split: cmd_kind.split option.split prod.split file_outcome.split)
qed

lemma daemon_keeps:
  assumes "waiters_wf s" "pg_phase s = Ph_Serving"
  shows "accounted (on_daemon p e i s) = accounted s" "waiters_wf (on_daemon p e i s)"
proof -
  have rx: "accounted (s\<lparr>pg_rx := r\<rparr>) = accounted s" "waiters_wf (s\<lparr>pg_rx := r\<rparr>)"
    "accounted (s\<lparr>pg_rx := r, pg_arrived := g\<rparr>) = accounted s" "waiters_wf (s\<lparr>pg_rx := r, pg_arrived := g\<rparr>)"
    "accounted (s\<lparr>pg_arrived := g\<rparr>) = accounted s"
    "accounted (s\<lparr>pg_arrived := g, pg_events := es, pg_seen := sn\<rparr>) = accounted s"
    "waiters_wf (s\<lparr>pg_arrived := g, pg_events := es, pg_seen := sn\<rparr>)" for r g es sn
    using assms by (simp_all add: accounted_def waiters_wf_def)
  have result: "accounted (on_result res s) = accounted s" "waiters_wf (on_result res s)" for res
    using assms delete_values [of "pg_waiters s" "res_id res"]
    by (auto simp: on_result_def waiters_wf_def accounted_def answer_def distinct_delete split: option.split)
  show "accounted (on_daemon p e i s) = accounted s" "waiters_wf (on_daemon p e i s)"
    using assms by (simp_all add: on_daemon_def on_event_line_def on_file_end_def rx result Let_def
        split: daemon_input.split option.split daemon_message.split prod.split sum.split)
qed

definition account_inv :: "plugin_op list \<Rightarrow> plugin \<Rightarrow> bool" where
  "account_inv ops s \<longleftrightarrow> waiters_wf s \<and> accounted s = mset (submitted ops)"

lemma stop_keeps:
  assumes "waiters_wf s"
  shows "accounted (on_stop s) = accounted s" "waiters_wf (on_stop s)"
proof -
  have "accounted (on_stop s) = accounted (if pg_phase s = Ph_Serving then serve_over s else s)"
    by (simp add: on_stop_def accounted_def comp_def Let_def)
  then show "accounted (on_stop s) = accounted s" by simp
  show "waiters_wf (on_stop s)"
    using assms serve_over_wf [of s] by (auto simp: on_stop_def waiters_wf_def Let_def serve_over_def)
qed

lemma take_keeps:
  assumes "waiters_wf s"
  shows "accounted (plugin_step p (PS_Take e) s) = accounted s \<and> waiters_wf (plugin_step p (PS_Take e) s)"
proof (cases "pg_queue s")
  case (Cons x xs)
  let ?s = "s\<lparr>pg_queue := xs\<rparr>"
  have s: "waiters_wf ?s" if "pg_phase s \<noteq> Ph_Stopped" using assms that by (simp add: waiters_wf_def)
  have a: "accounted s = (case x of Out_Command c \<Rightarrow> add_mset (co_done c) (accounted ?s) | Out_Ack _ \<Rightarrow> accounted ?s)"
    using Cons by (simp add: accounted_def split: outgoing.split)
  show ?thesis
    using Cons s a on_command_keeps [of ?s] assms
    by (auto simp: on_outgoing_def while_away_def split: outgoing.split)
qed (use assms in simp)

interpretation account: plugin_invariant p account_inv for p
proof (unfold_locales, goal_cases)
  case (1 ops s x)
  then have s: "waiters_wf s" "accounted s = mset (submitted ops)" by (simp_all add: account_inv_def)
  show ?case
  proof (cases x)
    case (PS_Connect l)
    with s show ?thesis
      by (auto simp: account_inv_def on_connect_def waiters_wf_def accounted_def split: sum.split)
  next
    case (PS_Daemon e i)
    with s daemon_keeps [OF s(1)] show ?thesis by (simp add: account_inv_def)
  next
    case (PS_Take e)
    with s take_keeps [OF s(1)] show ?thesis by (simp add: account_inv_def del: plugin_step.simps)
  next
    case PS_Stop
    with s stop_keeps [OF s(1)] show ?thesis by (simp add: account_inv_def)
  next
    case (PS_Pump ok)
    with s show ?thesis
      by (auto simp: account_inv_def pump_def waiters_wf_def accounted_def split: list.split)
  qed (use s in \<open>auto simp: account_inv_def waiters_wf_def accounted_def answer_def\<close>)
qed

lemma new_account: "account_inv [] (plugin_new p files)"
  by (simp add: account_inv_def waiters_wf_def accounted_def plugin_new_def)

text \<open>
  C21: no call of a tool is forgotten or answered twice, however the connection comes and
  goes: at every moment the calls made are exactly those answered, those waiting for a
  result on the live connection and those queued; without a connection none waits, and once
  the plugin has stopped every call has exactly one answer.
\<close>

theorem calls_answered_once:
  assumes "plugin_run p ops (plugin_new p files) = s"
  shows "mset (submitted ops) =
      mset (map fst (pg_answers s)) + mset (map snd (pg_waiters s)) + mset (queued_commands (pg_queue s)) \<and>
    (pg_phase s \<noteq> Ph_Serving \<longrightarrow> pg_waiters s = []) \<and>
    (pg_phase s = Ph_Stopped \<longrightarrow> mset (map fst (pg_answers s)) = mset (submitted ops))"
proof -
  have "account_inv ops (plugin_run p ops (plugin_new p files))"
    by (rule account.run [OF new_account])
  with assms show ?thesis
    by (auto simp: account_inv_def accounted_def waiters_wf_def)
qed

section \<open>Acknowledgements follow notifications\<close>

fun ack_lines :: "client_message list \<Rightarrow> string list" where
  "ack_lines [] = []"
| "ack_lines (CM_Ack a # ms) = ack_event_id a # ack_lines ms"
| "ack_lines (_ # ms) = ack_lines ms"

fun queued_acks :: "outgoing list \<Rightarrow> string list" where
  "queued_acks [] = []"
| "queued_acks (Out_Ack i # q) = i # queued_acks q"
| "queued_acks (Out_Command c # q) = queued_acks q"

definition notified_ids :: "plugin \<Rightarrow> string list" where
  "notified_ids s = map (\<lambda>x. ev_event_id (pi_event x)) (pg_notified s)"

definition ack_inv :: "plugin \<Rightarrow> bool" where
  "ack_inv s \<longleftrightarrow> subseq (ack_lines (pg_written s) @ queued_acks (pg_queue s)) (notified_ids s) \<and>
     (if pg_pumping s then pg_seen s = pg_notified s @ pg_events s else prefix (pg_notified s) (pg_seen s) \<and> pg_events s = [])"

lemma ack_lines_append [simp]: "ack_lines (xs @ ys) = ack_lines xs @ ack_lines ys"
  by (induction xs rule: ack_lines.induct) auto

lemma queued_acks_append [simp]: "queued_acks (xs @ ys) = queued_acks xs @ queued_acks ys"
  by (induction xs rule: queued_acks.induct) auto

lemma ack_lines_pieces [simp]: "ack_lines (map plugin_wrap ps) = []"
  by (induction ps) (auto simp: plugin_wrap_def split: piece.split)

lemma ack_lines_some_pieces [simp]: "ack_lines (take n (map plugin_wrap ps)) = []"
  unfolding take_map by (rule ack_lines_pieces)

lemma subseq_skip: "subseq (as @ xs) (as @ x # xs)"
  by (intro list_emb_append_mono) auto

text \<open>What an operation of the connection leaves as it was, up to the lines it writes.\<close>

definition same_pump :: "plugin \<Rightarrow> plugin \<Rightarrow> bool" where
  "same_pump s s' \<longleftrightarrow> ack_lines (pg_written s') = ack_lines (pg_written s) \<and> pg_queue s' = pg_queue s \<and>
     pg_pumping s' = pg_pumping s \<and> pg_seen s' = pg_seen s \<and> pg_notified s' = pg_notified s \<and> pg_events s' = pg_events s"

lemma same_pump_ops [intro]:
  "same_pump s s" "same_pump s t \<Longrightarrow> same_pump s (serve_over t)" "same_pump s t \<Longrightarrow> same_pump s (answer k w t)"
  "same_pump s t \<Longrightarrow> ack_lines ms = [] \<Longrightarrow> same_pump s (write_out ms t)"
  "same_pump s t \<Longrightarrow> same_pump s (await i k t)"
  by (auto simp: same_pump_def plugin_ops split: option.splits)

lemma same_pump_cmd:
  assumes "same_pump s t"
  shows "same_pump s (send_cmd e i kind k t)"
  using assms by (auto simp: send_cmd_def intro!: same_pump_ops(2-5))

lemma command_pump: "same_pump s (on_command p e c s)"
proof -
  have "same_pump s (s\<lparr>pg_next_id := n\<rparr>)" for n by (simp add: same_pump_def)
  then show ?thesis
    by (auto simp: on_command_def Let_def intro!: same_pump_cmd same_pump_ops
        split: cmd_kind.split option.split prod.split file_outcome.split)
qed

lemma ack_inv_same: "ack_inv s \<Longrightarrow> same_pump s s' \<Longrightarrow> ack_inv s'"
  by (simp add: ack_inv_def same_pump_def notified_ids_def)

lemma daemon_ack: "ack_inv s \<Longrightarrow> ack_inv (on_daemon p e i s)"
proof -
  assume s: "ack_inv s"
  have "ack_inv (on_event_line ev s)" for ev
    using s by (auto simp: on_event_line_def ack_inv_def notified_ids_def serve_over_def Let_def split: prod.split)
  with s show ?thesis
    by (auto simp: on_daemon_def on_file_end_def on_result_def ack_inv_def notified_ids_def serve_over_def answer_def
        split: daemon_input.split option.split daemon_message.split prod.split sum.split)
qed

lemma take_ack:
  assumes "ack_inv s"
  shows "ack_inv (plugin_step p (PS_Take e) s)"
proof (cases "pg_queue s")
  case (Cons x xs)
  have away: "subseq (ack_lines (pg_written s) @ queued_acks xs) (notified_ids s)"
    using assms Cons subseq_skip [of "ack_lines (pg_written s)"]
    by (cases x) (auto simp: ack_inv_def intro: subseq_order.trans)
  have s: "ack_inv (s\<lparr>pg_queue := xs\<rparr>)"
    using assms away by (auto simp: ack_inv_def notified_ids_def)
  have serve: "ack_inv (serve_over (s\<lparr>pg_queue := xs\<rparr>))" by (rule ack_inv_same [OF s]) blast
  show ?thesis
  proof (cases x)
    case (Out_Ack eid)
    then show ?thesis
      using Cons assms serve s
      by (auto simp: on_outgoing_def while_away_def write_out_def ack_inv_def notified_ids_def)
  next
    case (Out_Command c)
    with s have "ack_inv (on_command p e c (s\<lparr>pg_queue := xs\<rparr>))" "ack_inv (answer k w (s\<lparr>pg_queue := xs\<rparr>))" for k w
      using ack_inv_same [OF s command_pump] ack_inv_same [OF s] by blast+
    with Out_Command Cons assms show ?thesis by (simp add: on_outgoing_def while_away_def)
  qed
qed (use assms in simp)

lemma stop_ack: "ack_inv s \<Longrightarrow> ack_inv (on_stop s)"
  using list_emb_append2 subseq_order.trans [of "ack_lines (pg_written s)"]
  by (auto simp: on_stop_def ack_inv_def notified_ids_def serve_over_def Let_def
      intro: subseq_order.trans [OF list_emb_prefix])

interpretation acks: plugin_invariant p "\<lambda>ops. ack_inv" for p
proof (unfold_locales, goal_cases)
  case (1 ops s x)
  show ?case
  proof (cases x)
    case (PS_Pump ok)
    with 1 show ?thesis
      by (auto simp: pump_def ack_inv_def notified_ids_def split: list.split intro: list_emb_append_mono
          simp flip: append_assoc)
  qed (use 1 daemon_ack take_ack stop_ack in
      \<open>auto simp del: plugin_step.simps(3) simp: on_connect_def ack_inv_def notified_ids_def answer_def split: sum.split\<close>)
qed

lemma new_acks: "ack_inv (plugin_new p files)"
  by (simp add: ack_inv_def notified_ids_def plugin_new_def)

text \<open>
  C20: the plugin acknowledges an event only after Claude Code got its notification: the
  acknowledgements written to the daemon, over all connections, are a subsequence of the
  events notified, in that order and each at most once, and the events notified are the
  first of those received, in the order the daemon sent them. What is not acknowledged the
  daemon delivers again.
\<close>

theorem acks_follow_notifications:
  assumes "plugin_run p ops (plugin_new p files) = s"
  shows "subseq (ack_lines (pg_written s)) (map (\<lambda>x. ev_event_id (pi_event x)) (pg_notified s)) \<and>
    prefix (pg_notified s) (pg_seen s)"
proof -
  have "ack_inv (plugin_run p ops (plugin_new p files))"
    by (rule acks.run [OF new_acks])
  then have s: "ack_inv s" by (simp only: assms)
  then have "subseq (ack_lines (pg_written s)) (notified_ids s)"
    unfolding ack_inv_def by (meson list_emb_prefix prefixI subseq_order.trans subseq_append_le_same_iff
        subseq_rev_drop_many subseq_order.order_refl)
  with s show ?thesis by (auto simp: ack_inv_def notified_ids_def split: if_splits)
qed

section \<open>Examples\<close>

definition demo_params :: plugin_params where
  "demo_params = \<lparr>pp_exts = (\<lambda>_. None), pp_decode = Some, pp_encode = (\<lambda>x. x), pp_inbox = ''/in''\<rparr>"

definition demo_files :: fs where
  "demo_files = \<lparr>fs_inodes = (\<lambda>_. []), fs_paths = Map.empty, fs_next = 0\<rparr>"

definition demo_outcomes :: plugin_env where
  "demo_outcomes = \<lparr>pv_open_ok = True, pv_write = Written, pv_flush_ok = True, pv_line_ok = True, pv_err = [], pv_file = FO_Sent []\<rparr>"

definition demo_arrival :: event where
  "demo_arrival = \<lparr>ev_kind = EK_Message, ev_person = ''alice'', ev_role = Owner, ev_sender = ''@a:x'', ev_room_id = ''!r'',
     ev_room = Dm, ev_event_id = ''$1'', ev_ts = ''t'', ev_in_reply_to = None, ev_thread = None, ev_reacts_to = None,
     ev_text = ''hi'', ev_transcribed = False, ev_attachments = []\<rparr>"

definition demo_ops :: "plugin_op list" where
  "demo_ops =
     [PS_Connect (FL_Message (DM_Welcome \<lparr>welcome_protocol = PROTOCOL_VERSION, welcome_session = ''main'',
        welcome_user_id = ''@bot:x'', welcome_people = [], welcome_inbox_max_age_days = 1\<rparr>)),
      PS_Submit \<lparr>co_kind = CTyping \<lparr>ty_room_id = ''!r''\<rparr>, co_file = None, co_done = 7\<rparr>, PS_Take demo_outcomes,
      PS_Daemon demo_outcomes (DI_Line (Some (DM_Event demo_arrival))), PS_Pump True, PS_Take demo_outcomes, PS_Stop]"

lemma demo_plugin_run:
  "pg_phase (plugin_run demo_params demo_ops (plugin_new demo_params demo_files)) = Ph_Stopped"
  "submitted demo_ops = [7]"
  "ack_lines (pg_written (plugin_run demo_params demo_ops (plugin_new demo_params demo_files))) = [''$1'']"
  by (simp_all add: demo_ops_def plugin_run_def plugin_new_def demo_outcomes_def plugin_connect_def plugin_ops
      demo_arrival_def)

theorem calls_answered_once_witness:
  "mset (map fst (pg_answers (plugin_run demo_params demo_ops (plugin_new demo_params demo_files)))) = {#7#}"
proof -
  let ?s = "plugin_run demo_params demo_ops (plugin_new demo_params demo_files)"
  have "pg_phase ?s = Ph_Stopped \<longrightarrow> mset (map fst (pg_answers ?s)) = mset (submitted demo_ops)"
    by (rule calls_answered_once [OF refl, THEN conjunct2, THEN conjunct2])
  then have "mset (map fst (pg_answers ?s)) = mset (submitted demo_ops)"
    using demo_plugin_run(1) by (rule mp)
  then show ?thesis by (simp add: demo_plugin_run(2))
qed

theorem acks_follow_notifications_witness:
  "subseq [''$1''] (map (\<lambda>x. ev_event_id (pi_event x))
     (pg_notified (plugin_run demo_params demo_ops (plugin_new demo_params demo_files))))"
  using acks_follow_notifications [OF refl, THEN conjunct1] demo_plugin_run(3) by metis

end
