(* ===== verification/Mcp_Server.thy ===== *)
theory Mcp_Server
  imports Plugin
begin

text \<open>
  What Claude Code sees of the plugin (\<open>crates/silta-claude/src/mcp.rs\<close>, \<open>transport.rs\<close>):
  the tools with their commands and results, the line of a history message, the channel tag
  of an event, and the transport that answers \<open>server/discover\<close> itself. The maps of
  \<open>serde_json\<close> are association lists; the rendering of JSON is a parameter.
\<close>

section \<open>The tools\<close>

record reply_params =
  rpp_room_id :: string
  rpp_text :: string
  rpp_reply_to :: "string option"
  rpp_thread :: "string option"
  rpp_more :: bool

record react_params =
  rcp_room_id :: string
  rcp_event_id :: string
  rcp_emoji :: string
  rcp_more :: bool

record edit_params =
  edp_room_id :: string
  edp_event_id :: string
  edp_text :: string
  edp_more :: bool

record send_file_params =
  sfp_room_id :: string
  sfp_path :: string
  sfp_caption :: "string option"
  sfp_reply_to :: "string option"
  sfp_thread :: "string option"
  sfp_more :: bool

record typing_params =
  typ_room_id :: string

record fetch_messages_params =
  fmp_room_id :: string
  fmp_limit :: "u32 option"
  fmp_from :: "string option"

record fetch_message_params =
  f1p_room_id :: string
  f1p_event_id :: string

record search_messages_params =
  smp_room_id :: string
  smp_pattern :: string
  smp_limit :: "u32 option"
  smp_from :: "string option"

datatype tool_call =
    T_Reply reply_params
  | T_React react_params
  | T_Edit edit_params
  | T_SendFile send_file_params
  | T_Typing typing_params
  | T_FetchMessages fetch_messages_params
  | T_SearchMessages search_messages_params
  | T_FetchMessage fetch_message_params

fun tool_command :: "tool_call \<Rightarrow> cmd_kind" where
  "tool_command (T_Reply p) =
     CReply \<lparr>rp_room_id = rpp_room_id p, rp_text = rpp_text p, rp_reply_to = rpp_reply_to p, rp_thread = rpp_thread p,
             rp_more = rpp_more p\<rparr>"
| "tool_command (T_React p) =
     CReact \<lparr>rc_room_id = rcp_room_id p, rc_event_id = rcp_event_id p, rc_emoji = rcp_emoji p, rc_more = rcp_more p\<rparr>"
| "tool_command (T_Edit p) =
     CEdit \<lparr>ed_room_id = edp_room_id p, ed_event_id = edp_event_id p, ed_text = edp_text p, ed_more = edp_more p\<rparr>"
| "tool_command (T_SendFile p) =
     CSendFile \<lparr>sf_room_id = sfp_room_id p, sf_transfer = [], sf_caption = sfp_caption p, sf_reply_to = sfp_reply_to p,
                sf_thread = sfp_thread p, sf_more = sfp_more p\<rparr>"
| "tool_command (T_Typing p) = CTyping \<lparr>ty_room_id = typ_room_id p\<rparr>"
| "tool_command (T_FetchMessages p) =
     CFetchMessages \<lparr>fm_room_id = fmp_room_id p, fm_limit = fmp_limit p, fm_from = fmp_from p\<rparr>"
| "tool_command (T_SearchMessages p) =
     CSearchMessages \<lparr>sm_room_id = smp_room_id p, sm_pattern = smp_pattern p, sm_limit = smp_limit p, sm_from = smp_from p\<rparr>"
| "tool_command (T_FetchMessage p) = CFetchMessage \<lparr>f1_room_id = f1p_room_id p, f1_event_id = f1p_event_id p\<rparr>"

definition HISTORY_TEXT_CHARS :: nat where
  "HISTORY_TEXT_CHARS = 300"

definition ELLIPSIS :: string where
  "ELLIPSIS = [CHR 0xE2, CHR 0x80, CHR 0xA6]"

text \<open>Where the window on a text of \<open>n\<close> characters starts.\<close>

definition window_start :: "nat \<Rightarrow> nat \<Rightarrow> nat option \<Rightarrow> nat" where
  "window_start n limit at = (case at of Some k \<Rightarrow> min (k - limit div 3) (n - limit) | None \<Rightarrow> 0)"

definition shown_text :: "nat option \<Rightarrow> string \<Rightarrow> nat option \<Rightarrow> string" where
  "shown_text max_chars t at =
     (let n = length (chars t)
      in case max_chars of
           Some limit \<Rightarrow>
             if n > limit
             then let start = window_start n limit at;
                      window = concat (take limit (drop start (chars t)));
                      after = n - start - limit
                  in (if start > 0 then ''['' @ dec start @ '' characters] '' @ ELLIPSIS else []) @ window @
                     (if after > 0 then ELLIPSIS @ '' ['' @ dec after @ '' more characters]'' else [])
             else t
         | None \<Rightarrow> t)"

definition history_fields :: "nat option \<Rightarrow> history_message \<Rightarrow> (string \<times> json) list" where
  "history_fields max_chars m =
     [(''event_id'', JString (hm_event_id m))] @
     (if hm_own m then [(''own'', JBool True)]
      else case hm_person m of Some p \<Rightarrow> [(''person'', JString p)] | None \<Rightarrow> []) @
     [(''ts'', JString (hm_ts m))] @
     (case hm_in_reply_to m of Some v \<Rightarrow> [(''in_reply_to'', JString v)] | None \<Rightarrow> []) @
     (case hm_thread m of Some v \<Rightarrow> [(''thread'', JString v)] | None \<Rightarrow> []) @
     [(''text'', JString (shown_text max_chars (hm_text m) (hm_match_start m)))] @
     (if hm_attachments m \<noteq> []
      then [(''attachments'', JArray (map (\<lambda>a. JString (ha_name a @ '' ('' @ ha_mime a @ '', '' @ dec (unat (ha_size a)) @ '' bytes)''))
              (hm_attachments m)))]
      else [])"

definition history_line :: "(json \<Rightarrow> string) \<Rightarrow> history_message \<Rightarrow> nat option \<Rightarrow> string" where
  "history_line show_json m max_chars = show_json (JObject (history_fields max_chars m))"

datatype tool_result = Tool_Ok string | Tool_Error string

definition sent_result :: "cmd_result \<Rightarrow> string" where
  "sent_result r = ''sent: '' @ (case res_event_id r of Some i \<Rightarrow> i | None \<Rightarrow> [])"

definition history_text :: "(json \<Rightarrow> string) \<Rightarrow> string \<Rightarrow> string list \<Rightarrow> string \<Rightarrow> cmd_result \<Rightarrow> string" where
  "history_text show_json nothing extra start r =
     (let lines = map (\<lambda>m. history_line show_json m (Some HISTORY_TEXT_CHARS))
                    (case res_messages r of Some ms \<Rightarrow> ms | None \<Rightarrow> [])
      in join [NL] ((if lines = [] then [nothing] else lines) @ extra @
           [case res_more r of Some token \<Rightarrow> ''more: '' @ token | None \<Rightarrow> start]))"

fun tool_answer :: "(json \<Rightarrow> string) \<Rightarrow> (duration \<Rightarrow> string) \<Rightarrow> tool_call \<Rightarrow> daemon_error + cmd_result \<Rightarrow> tool_result" where
  "tool_answer show_json debug call (Inl e) = Tool_Error (daemon_error_fmt debug e)"
| "tool_answer show_json debug (T_Typing p) (Inr r) = Tool_Ok ''typing''"
| "tool_answer show_json debug (T_FetchMessages p) (Inr r) =
     Tool_Ok (history_text show_json ''(no messages)'' [] ''(start of the room's history)'' r)"
| "tool_answer show_json debug (T_SearchMessages p) (Inr r) =
     Tool_Ok (history_text show_json ''(no matches)''
       [''scanned '' @ dec (case res_scanned r of Some n \<Rightarrow> unat n | None \<Rightarrow> 0) @ '' events back to '' @
        (case res_until r of Some u \<Rightarrow> u | None \<Rightarrow> ''(nothing)'')]
       ''(searched back to the start of the room's history)'' r)"
| "tool_answer show_json debug (T_FetchMessage p) (Inr r) =
     Tool_Ok (case res_messages r of Some (m # _) \<Rightarrow> history_line show_json m None | _ \<Rightarrow> [])"
| "tool_answer show_json debug call (Inr r) = Tool_Ok (sent_result r)"

section \<open>The channel tag\<close>

definition attachment_key :: "nat \<Rightarrow> string \<Rightarrow> string" where
  "attachment_key n what = ''attachment_'' @ dec n @ ''_'' @ what"

definition missing_note :: "attachment \<Rightarrow> string" where
  "missing_note a = ''[attachment \"'' @ att_name a @ ''\" was not received; ask for it again]''"

text \<open>The attributes of the attachments from number \<open>n\<close> on, and the notes for those without a path.\<close>

fun attachment_meta :: "nat \<Rightarrow> attachment list \<Rightarrow> string option list \<Rightarrow> (string \<times> string) list \<times> string list" where
  "attachment_meta n [] paths = ([], [])"
| "attachment_meta n (a # as) paths =
     (let (meta, missing) = attachment_meta (n + 1) as (tl paths);
          fields = [(attachment_key n ''name'', att_name a), (attachment_key n ''mime'', att_mime a),
                    (attachment_key n ''size'', dec (unat (att_size a)))]
      in case paths of
           Some path # _ \<Rightarrow> (fields @ [(attachment_key n ''path'', path)] @ meta, missing)
         | _ \<Rightarrow> (fields @ meta, missing_note a # missing))"

definition opt_meta :: "string \<Rightarrow> string option \<Rightarrow> (string \<times> string) list" where
  "opt_meta k v = (case v of Some x \<Rightarrow> [(k, x)] | None \<Rightarrow> [])"

definition event_meta :: "event \<Rightarrow> (string \<times> string) list" where
  "event_meta ev =
     (if ev_kind ev \<noteq> EK_Message then [(''kind'', event_kind_as_str (ev_kind ev))] else []) @
     [(''person'', ev_person ev), (''role'', role_as_str (ev_role ev)), (''room_id'', ev_room_id ev),
      (''room'', room_kind_as_str (ev_room ev)), (''event_id'', ev_event_id ev), (''ts'', ev_ts ev)] @
     opt_meta ''in_reply_to'' (ev_in_reply_to ev) @ opt_meta ''thread'' (ev_thread ev) @
     opt_meta ''reacts_to'' (ev_reacts_to ev)"

definition add_line :: "string \<Rightarrow> string \<Rightarrow> string" where
  "add_line line content = (if content \<noteq> [] then content @ [NL] @ line else line)"

definition base_content :: "event \<Rightarrow> string" where
  "base_content ev =
     (if ev_text ev = [] \<and> ev_attachments ev \<noteq> []
      then join [NL] (map (\<lambda>a. ''[attachment: '' @ att_name a @ '']'') (ev_attachments ev))
      else ev_text ev)"

text \<open>\<open>channel_params\<close>: the content and the attributes.\<close>

definition channel_params :: "plugin_inbound \<Rightarrow> string \<times> (string \<times> string) list" where
  "channel_params x =
     (let ev = pi_event x; (meta, missing) = attachment_meta 1 (ev_attachments ev) (pi_paths x)
      in (fold add_line missing (base_content ev), event_meta ev @ meta))"

section \<open>The transport\<close>

datatype ('m, 'i) client_rpc = Rpc_Discover 'i | Rpc_Other 'm

text \<open>
  \<open>receive\<close>: the message handed on (\<open>None\<close> at the end), the discover requests declined on the
  way with their ids, and what is still unread. \<open>ok\<close> tells whether an answer could be sent.
\<close>

fun legacy_receive :: "('i \<Rightarrow> bool) \<Rightarrow> ('m, 'i) client_rpc list \<Rightarrow> 'm option \<times> 'i list \<times> ('m, 'i) client_rpc list" where
  "legacy_receive ok [] = (None, [], [])"
| "legacy_receive ok (Rpc_Other m # ms) = (Some m, [], ms)"
| "legacy_receive ok (Rpc_Discover i # ms) =
     (if ok i then let (m, declined, rest) = legacy_receive ok ms in (m, i # declined, rest) else (None, [], ms))"

section \<open>Properties\<close>

text \<open>
  A shortened history line shows the match: of a text above the limit exactly the
  limit of characters are shown, they are consecutive characters of the text, the first
  match starts among them when there is one, and the counts before and after them are those
  of the characters left out.
\<close>

theorem history_window_shows_match:
  assumes "length (chars t) > limit" and "\<forall>k. at = Some k \<longrightarrow> k < length (chars t)" and "0 < limit"
  shows "\<exists>before window after. chars t = before @ window @ after \<and> length window = limit \<and>
    (\<forall>k. at = Some k \<longrightarrow> length before \<le> k \<and> k < length before + limit) \<and>
    shown_text (Some limit) t at =
      (if before \<noteq> [] then ''['' @ dec (length before) @ '' characters] '' @ ELLIPSIS else []) @ concat window @
      (if after \<noteq> [] then ELLIPSIS @ '' ['' @ dec (length after) @ '' more characters]'' else [])"
proof -
  let ?n = "length (chars t)" and ?s = "window_start (length (chars t)) limit at"
  have s: "?s + limit \<le> ?n" "\<forall>k. at = Some k \<longrightarrow> ?s \<le> k \<and> k < ?s + limit"
    using assms by (auto simp: window_start_def split: option.split)
  let ?b = "take ?s (chars t)" and ?w = "take limit (drop ?s (chars t))" and ?a = "drop (?s + limit) (chars t)"
  have len: "length ?b = ?s" "length ?w = limit" "length ?a = ?n - ?s - limit"
    using s by auto
  have parts: "chars t = ?b @ ?w @ ?a"
    by (metis append_take_drop_id drop_drop add.commute)
  have ends: "?b \<noteq> [] \<longleftrightarrow> ?s > 0" "?a \<noteq> [] \<longleftrightarrow> ?n - ?s - limit > 0"
    using len by (metis length_greater_0_conv)+
  have shown: "shown_text (Some limit) t at =
      (if ?b \<noteq> [] then ''['' @ dec (length ?b) @ '' characters] '' @ ELLIPSIS else []) @ concat ?w @
      (if ?a \<noteq> [] then ELLIPSIS @ '' ['' @ dec (length ?a) @ '' more characters]'' else [])"
    unfolding len ends using assms(1) by (simp add: shown_text_def Let_def)
  show ?thesis
  proof (intro exI conjI)
    show "\<forall>k. at = Some k \<longrightarrow> length ?b \<le> k \<and> k < length ?b + limit" using s(2) by (simp only: len(1))
  qed (rule parts len(2) shown)+
qed

theorem history_window_shows_match_witness:
  "\<exists>before window after. chars ''abcdefgh'' = before @ window @ after \<and> length window = 3 \<and>
    length before \<le> 6 \<and> 6 < length before + 3"
proof -
  have "length (chars ''abcdefgh'') = 8" by code_simp
  then have "3 < length (chars ''abcdefgh'')" "\<forall>k. Some (6 :: nat) = Some k \<longrightarrow> k < length (chars ''abcdefgh'')" "0 < (3 :: nat)"
    by simp_all
  from history_window_shows_match [OF this] obtain before window after where
    "chars ''abcdefgh'' = before @ window @ after" "length window = 3"
    "\<forall>k. Some (6 :: nat) = Some k \<longrightarrow> length before \<le> k \<and> k < length before + 3"
    by (elim exE conjE) (rule that)
  then show ?thesis by (intro exI conjI) (assumption | simp only: option.inject simp_thms)+
qed

lemma attachment_meta_explained:
  assumes "length paths = length as" and "i < length as"
  shows "(case paths ! i of
      Some path \<Rightarrow> (attachment_key (n + i) ''path'', path) \<in> set (fst (attachment_meta n as paths))
    | None \<Rightarrow> missing_note (as ! i) \<in> set (snd (attachment_meta n as paths))) \<and>
    (attachment_key (n + i) ''name'', att_name (as ! i)) \<in> set (fst (attachment_meta n as paths))"
  using assms
proof (induction n as paths arbitrary: i rule: attachment_meta.induct)
  case (2 n a as paths)
  then obtain q qs where q: "paths = q # qs" by (cases paths) auto
  obtain meta missing where m: "attachment_meta (n + 1) as qs = (meta, missing)" by (meson surj_pair)
  show ?case
  proof (cases i)
    case 0
    with q m show ?thesis by (cases q) auto
  next
    case (Suc j)
    have "length (tl paths) = length as" "j < length as"
      using "2.prems" q Suc by simp_all
    from "2.IH" [OF this] q m Suc show ?thesis by (cases q) (auto split: option.splits)
  qed
qed simp

lemma add_line_prefix: "prefix c (fold add_line ls c)"
proof (induction ls arbitrary: c)
  case (Cons l ls)
  have "prefix c (add_line l c)" by (simp add: add_line_def)
  with Cons [of "add_line l c"] show ?case by (auto intro: prefix_order.trans)
qed simp

lemma add_line_holds: "l \<in> set ls \<Longrightarrow> sublist l (fold add_line ls c)"
proof (induction ls arbitrary: c)
  case (Cons m ls)
  show ?case
  proof (cases "l = m")
    case True
    have "suffix m (c @ [NL] @ m)" by (rule suffixI [of _ "c @ [NL]"]) simp
    then have "sublist m (add_line m c)" by (auto simp: add_line_def dest: suffix_imp_sublist)
    with True prefix_imp_sublist [OF add_line_prefix [of "add_line m c" ls]] show ?thesis
      by (auto intro: sublist_order.order_trans)
  qed (use Cons in auto)
qed simp

lemma take_paths_length: "length (fst (take_paths as got)) = length as"
  by (induction as arbitrary: got) (simp_all add: case_prod_beta Let_def)

definition paths_inv :: "plugin \<Rightarrow> bool" where
  "paths_inv s \<longleftrightarrow> (\<forall>x \<in> set (pg_seen s). length (pi_paths x) = length (ev_attachments (pi_event x)))"

lemma daemon_paths: "paths_inv s \<Longrightarrow> paths_inv (on_daemon p e i s)"
proof -
  assume s: "paths_inv s"
  have "paths_inv (on_event_line ev s)" for ev
    using s take_paths_length [of "ev_attachments ev" "pg_arrived s"]
    by (auto simp: on_event_line_def paths_inv_def serve_over_def Let_def split: prod.split)
  with s show ?thesis
    by (auto simp: on_daemon_def on_file_end_def on_result_def paths_inv_def serve_over_def answer_def
        split: daemon_input.split option.split daemon_message.split prod.split sum.split)
qed

lemma take_seen: "pg_seen (plugin_step p (PS_Take e) s) = pg_seen s"
proof (cases "pg_queue s")
  case (Cons x xs)
  with command_pump [of "s\<lparr>pg_queue := xs\<rparr>" p e] show ?thesis
    by (auto simp: on_outgoing_def while_away_def write_out_def serve_over_def answer_def same_pump_def
        split: outgoing.split)
qed simp

interpretation paths: plugin_invariant p "\<lambda>ops. paths_inv" for p
proof (unfold_locales, goal_cases)
  case (1 ops s x)
  show ?case
  proof (cases x)
    case (PS_Take e)
    with 1 show ?thesis using take_seen [of p e s] by (simp add: paths_inv_def del: plugin_step.simps)
  qed (use 1 daemon_paths in \<open>auto simp: on_connect_def on_stop_def pump_def serve_over_def answer_def paths_inv_def Let_def
      split: sum.split list.split\<close>)
qed


definition demo_with_file :: event where
  "demo_with_file = demo_arrival\<lparr>ev_attachments := [\<lparr>att_transfer = ''a'', att_name = ''x.png'', att_mime = ''image/png'', att_size = 3\<rparr>]\<rparr>"

definition demo_tag_ops :: "plugin_op list" where
  "demo_tag_ops = take 1 demo_ops @ [PS_Daemon demo_outcomes (DI_Line (Some (DM_Event demo_with_file))), PS_Pump True]"


end
