(* ===== verification/Login.thy ===== *)
theory Login
  imports File_Transfer Config
begin

text \<open>
  The daemon's state directory and its login (\<open>crates/siltad/src/session.rs\<close>): the lock on the
  directory, the client's store, the one login and the restore of the saved session, and the
  signing of the device. The directory is a record of what the code looks at; the outcome of each
  file operation and of each call of the matrix SDK is part of an input record, so the process
  may also die in the middle of an operation (a write that stops, a builder that does not
  return). The lock is the kernel's \<open>flock\<close> on \<open>LOCK_FILE\<close>: it has at most one holder and is
  dropped with the process. \<open>store_lock\<close> is its contract; the histories of several processes
  over one directory are the relation \<open>host_step\<close>.
\<close>

section \<open>The state directory\<close>

definition SESSION_FILE :: string where
  "SESSION_FILE = ''session.json''"

definition STORE_DIR :: string where
  "STORE_DIR = ''store''"

definition LOCK_FILE :: string where
  "LOCK_FILE = ''siltad.lock''"

record credentials =
  cr_homeserver_url :: string
  cr_user_id :: string
  cr_password :: string
  cr_device_id :: string
  cr_device_name :: string

text \<open>
  What the code sees of the directory: its owner and mode, the text of \<open>SESSION_FILE\<close>, the
  entries of \<open>STORE_DIR\<close> (\<open>None\<close>: no such directory), and the process that holds the lock.
\<close>

record home =
  hd_present :: bool
  hd_owner :: u32
  hd_mode :: nat
  hd_session :: "string option"
  hd_store :: "string list option"
  hd_lock_file :: bool
  hd_holder :: "nat option"

record prepare_io =
  pi_create_ok :: bool
  pi_meta_ok :: bool
  pi_chmod_ok :: bool
  pi_open_ok :: bool
  pi_lock_ok :: bool

datatype prepare_error =
    Cannot_Create_Dir
  | Cannot_Read_Dir
  | Other_Owner u32 u32
  | Cannot_Chmod
  | Cannot_Open_Lock
  | Lock_Held
  | Cannot_Lock

definition prepare_state_dir :: "prepare_io \<Rightarrow> u32 \<Rightarrow> nat \<Rightarrow> home \<Rightarrow> (prepare_error + unit) \<times> home" where
  "prepare_state_dir io uid pid d =
     (if \<not> pi_create_ok io then (Inl Cannot_Create_Dir, d)
      else let d1 = (if hd_present d then d else d\<lparr>hd_present := True, hd_owner := uid\<rparr>)
           in if \<not> pi_meta_ok io then (Inl Cannot_Read_Dir, d1)
              else if hd_owner d1 \<noteq> uid then (Inl (Other_Owner (hd_owner d1) uid), d1)
              else if \<not> pi_chmod_ok io then (Inl Cannot_Chmod, d1)
              else let d2 = d1\<lparr>hd_mode := 0x1C0\<rparr>
                   in if \<not> pi_open_ok io then (Inl Cannot_Open_Lock, d2)
                      else let d3 = d2\<lparr>hd_lock_file := True\<rparr>
                           in if \<not> pi_lock_ok io then (Inl Cannot_Lock, d3)
                              else if hd_holder d3 \<noteq> None then (Inl Lock_Held, d3)
                              else (Inr (), d3\<lparr>hd_holder := Some pid\<rparr>))"

text \<open>The drop of a \<open>StateDir\<close>, also by the end of its process.\<close>

definition drop_lock :: "nat \<Rightarrow> home \<Rightarrow> home" where
  "drop_lock pid d = (if hd_holder d = Some pid then d\<lparr>hd_holder := None\<rparr> else d)"

section \<open>The client's store\<close>

text \<open>\<open>Path::exists\<close> is false when the file cannot be looked at.\<close>

definition session_exists :: "bool \<Rightarrow> home \<Rightarrow> bool" where
  "session_exists stat_ok d = (stat_ok \<and> hd_session d \<noteq> None)"

text \<open>What \<open>fs::read_dir\<close> and its first entry give; an entry that is an error counts as data.\<close>

datatype store_read = Store_Unreadable | Store_Entry_Error | Store_Listed

definition store_has_data :: "store_read \<Rightarrow> home \<Rightarrow> bool" where
  "store_has_data r d =
     (case hd_store d of
        None \<Rightarrow> False
      | Some entries \<Rightarrow>
          (case r of Store_Unreadable \<Rightarrow> False | Store_Entry_Error \<Rightarrow> True | Store_Listed \<Rightarrow> entries \<noteq> []))"

record build_io =
  bi_stat_ok :: bool
  bi_read :: store_read

datatype build_error = Old_Store | Build_Failed

text \<open>
  \<open>builder\<close> is the SDK's \<open>Client::builder()...build()\<close> with a sqlite store: whether it gives a
  client and what is in the store afterwards.
\<close>

type_synonym builder = "string \<Rightarrow> string list option \<Rightarrow> bool \<times> string list option"

definition build_client :: "builder \<Rightarrow> build_io \<Rightarrow> string \<Rightarrow> home \<Rightarrow> (build_error + unit) \<times> home" where
  "build_client builder io url d =
     (if \<not> session_exists (bi_stat_ok io) d \<and> store_has_data (bi_read io) d then (Inl Old_Store, d)
      else let (ok, store) = builder url (hd_store d); d1 = d\<lparr>hd_store := store\<rparr>
           in (if ok then Inr () else Inl Build_Failed, d1))"

section \<open>Login or restore\<close>

datatype error_kind = EK_UnknownToken | EK_MissingToken | EK_Forbidden | EK_OtherKind string

definition is_token_error :: "error_kind option \<Rightarrow> bool" where
  "is_token_error k = (case k of Some EK_UnknownToken \<Rightarrow> True | Some EK_MissingToken \<Rightarrow> True | _ \<Rightarrow> False)"

record matrix_session =
  ms_user_id :: string
  ms_device_id :: string
  ms_token :: string

record login_response =
  lr_device_id :: string
  lr_well_known :: "string option"

datatype whoami = Who_Ok | Who_Err "error_kind option"

datatype private_write = PW_Not_Opened | PW_Opened write_outcome

text \<open>What the outside gives: the session file's codec (serde_json) and the outcomes.\<close>

record login_io =
  li_parse :: "string \<Rightarrow> matrix_session option"
  li_print :: "matrix_session \<Rightarrow> string option"
  li_stat_ok :: bool
  li_read_ok :: bool
  li_restore_ok :: bool
  li_whoami :: whoami
  li_login :: "login_response option"
  li_session :: "matrix_session option"
  li_write :: private_write

datatype login_error =
    Cannot_Read_Session
  | Cannot_Parse_Session
  | Other_User string string
  | Cannot_Restore
  | Session_Rejected
  | Login_Failed
  | No_Session
  | Cannot_Print_Session
  | Cannot_Write_Session

datatype login_note =
    Keeps_Device string string
  | Restored
  | Not_Confirmed
  | Assigned_Device string string
  | Keeps_Url string string
  | Logged_In

definition trim_slashes :: "string \<Rightarrow> string" where
  "trim_slashes s = rev (dropWhile (\<lambda>c. c = CHR ''/'') (rev s))"

definition write_private :: "private_write \<Rightarrow> string \<Rightarrow> string option \<Rightarrow> bool \<times> string option" where
  "write_private w contents old =
     (case w of
        PW_Not_Opened \<Rightarrow> (False, old)
      | PW_Opened Written \<Rightarrow> (True, Some contents)
      | PW_Opened (Failed_After n) \<Rightarrow> (False, Some (take n contents)))"

definition restore_saved :: "login_io \<Rightarrow> credentials \<Rightarrow> string \<Rightarrow> login_error + login_note list" where
  "restore_saved io cr txt =
     (if \<not> li_read_ok io then Inl Cannot_Read_Session
      else case li_parse io txt of
        None \<Rightarrow> Inl Cannot_Parse_Session
      | Some s \<Rightarrow>
          if ms_user_id s \<noteq> cr_user_id cr then Inl (Other_User (ms_user_id s) (cr_user_id cr))
          else let notes = (if ms_device_id s \<noteq> cr_device_id cr then [Keeps_Device (ms_device_id s) (cr_device_id cr)] else [])
               in if \<not> li_restore_ok io then Inl Cannot_Restore
                  else case li_whoami io of
                    Who_Ok \<Rightarrow> Inr (notes @ [Restored])
                  | Who_Err k \<Rightarrow> if is_token_error k then Inl Session_Rejected else Inr (notes @ [Not_Confirmed]))"

definition login_notes :: "credentials \<Rightarrow> login_response \<Rightarrow> login_note list" where
  "login_notes cr r =
     (if lr_device_id r \<noteq> cr_device_id cr then [Assigned_Device (lr_device_id r) (cr_device_id cr)] else []) @
     (case lr_well_known r of
        None \<Rightarrow> []
      | Some base \<Rightarrow>
          if trim_slashes base \<noteq> trim_slashes (cr_homeserver_url cr)
          then [Keeps_Url (trim_slashes base) (cr_homeserver_url cr)] else [])"

text \<open>The second component lists the login requests sent (at most one), by user and device.\<close>

definition login_or_restore ::
  "login_io \<Rightarrow> credentials \<Rightarrow> home \<Rightarrow> (login_error + login_note list) \<times> (string \<times> string) list \<times> home"
where
  "login_or_restore io cr d =
     (if session_exists (li_stat_ok io) d then (restore_saved io cr (the (hd_session d)), [], d)
      else let asked = [(cr_user_id cr, cr_device_id cr)]
           in case li_login io of
                None \<Rightarrow> (Inl Login_Failed, asked, d)
              | Some r \<Rightarrow>
                  (case li_session io of
                     None \<Rightarrow> (Inl No_Session, asked, d)
                   | Some s \<Rightarrow>
                       (case li_print io s of
                          None \<Rightarrow> (Inl Cannot_Print_Session, asked, d)
                        | Some txt \<Rightarrow>
                            let (ok, f) = write_private (li_write io) txt (hd_session d)
                            in (if ok then Inr (login_notes cr r @ [Logged_In]) else Inl Cannot_Write_Session,
                                asked, d\<lparr>hd_session := f\<rparr>))))"

text \<open>The display name to set, if any; a failure is only logged.\<close>

definition ensure_display_name :: "unit + string option \<Rightarrow> string \<Rightarrow> string option" where
  "ensure_display_name current name =
     (case current of Inl _ \<Rightarrow> None | Inr c \<Rightarrow> if c = Some name then None else Some name)"

section \<open>Signing the device\<close>

text \<open>
  The SDK's encryption calls over a state of its own (the store and the homeserver). A device
  is what \<open>get_own_device\<close> gives; an authorised upload takes some time, and the state left
  behind when it is dropped at the time limit is a function of its own.
\<close>

datatype auth_data = Auth_Password string string "string option" | Auth_OAuth "string option"

datatype reset_auth = Reset_Uiaa "string option" | Reset_OAuth string "string option"

datatype sdk_error = Sdk_Timeout | Sdk_Uiaa "error_kind option" | Sdk_Other

record ('s, 'd) signing =
  sg_init_tasks :: "'s \<Rightarrow> 's"
  sg_user_id :: "'s \<Rightarrow> string option"
  sg_request_identity :: "'s \<Rightarrow> bool \<times> 's"
  sg_own_device :: "'s \<Rightarrow> unit + 'd option"
  sg_cross_signed :: "'d \<Rightarrow> bool"
  sg_status :: "'s \<Rightarrow> bool option"
  sg_verify :: "'d \<Rightarrow> 's \<Rightarrow> bool \<times> 's"
  sg_reset :: "'s \<Rightarrow> (unit + reset_auth option) \<times> 's"
  sg_auth :: "auth_data \<Rightarrow> 's \<Rightarrow> duration \<times> (sdk_error + unit) \<times> 's"
  sg_auth_cut :: "auth_data \<Rightarrow> 's \<Rightarrow> 's"

datatype signing_error =
    Not_Logged_In
  | Cannot_Query_Keys
  | Device_Unreadable
  | Device_Missing
  | Already_Signed
  | Cannot_Sign
  | Cannot_Reset
  | Not_Approved
  | Password_Not_Accepted
  | Password_Refused
  | Keys_Not_Accepted
  | Still_Unsigned

definition own_device :: "('s, 'd) signing \<Rightarrow> 's \<Rightarrow> signing_error + 'd" where
  "own_device sdk s =
     (case sg_own_device sdk s of
        Inl _ \<Rightarrow> Inl Device_Unreadable
      | Inr None \<Rightarrow> Inl Device_Missing
      | Inr (Some dev) \<Rightarrow> Inr dev)"

definition device_signed_on_server :: "('s, 'd) signing \<Rightarrow> 's \<Rightarrow> (signing_error + bool) \<times> 's" where
  "device_signed_on_server sdk s =
     (let s1 = sg_init_tasks sdk s
      in if sg_user_id sdk s1 = None then (Inl Not_Logged_In, s1)
         else let (ok, s2) = sg_request_identity sdk s1
              in if \<not> ok then (Inl Cannot_Query_Keys, s2)
                 else (map_sum id (sg_cross_signed sdk) (own_device sdk s2), s2))"

datatype signing_report = Report_Signed | Report_Unsigned | Report_Unknown signing_error

definition report_cross_signing :: "('s, 'd) signing \<Rightarrow> 's \<Rightarrow> signing_report \<times> 's" where
  "report_cross_signing sdk s =
     (case device_signed_on_server sdk s of
        (Inr True, s1) \<Rightarrow> (Report_Signed, s1)
      | (Inr False, s1) \<Rightarrow> (Report_Unsigned, s1)
      | (Inl e, s1) \<Rightarrow> (Report_Unknown e, s1))"

definition PASSWORD_LIMIT :: duration where
  "PASSWORD_LIMIT = 10000"

definition reset_error :: "bool \<Rightarrow> sdk_error \<Rightarrow> signing_error" where
  "reset_error oauth e =
     (case e of
        Sdk_Timeout \<Rightarrow> if oauth then Not_Approved else Password_Not_Accepted
      | Sdk_Uiaa (Some EK_Forbidden) \<Rightarrow> Password_Refused
      | _ \<Rightarrow> Keys_Not_Accepted)"

definition upload_identity :: "('s, 'd) signing \<Rightarrow> auth_data \<Rightarrow> bool \<Rightarrow> 's \<Rightarrow> (signing_error + unit) \<times> 's" where
  "upload_identity sdk a oauth s =
     (let (took, res, s1) = sg_auth sdk a s
      in if oauth \<or> took \<le> PASSWORD_LIMIT then (map_sum (reset_error oauth) id res, s1)
         else (Inl (reset_error oauth Sdk_Timeout), sg_auth_cut sdk a s))"

definition replace_identity :: "('s, 'd) signing \<Rightarrow> string \<Rightarrow> 's \<Rightarrow> (signing_error + unit) \<times> 's" where
  "replace_identity sdk pw s =
     (case sg_reset sdk s of
        (Inl _, s1) \<Rightarrow> (Inl Cannot_Reset, s1)
      | (Inr None, s1) \<Rightarrow> (Inr (), s1)
      | (Inr (Some (Reset_Uiaa x)), s1) \<Rightarrow>
          (case sg_user_id sdk s1 of
             None \<Rightarrow> (Inl Not_Logged_In, s1)
           | Some u \<Rightarrow> upload_identity sdk (Auth_Password u pw x) False s1)
      | (Inr (Some (Reset_OAuth url x)), s1) \<Rightarrow> upload_identity sdk (Auth_OAuth x) True s1)"

text \<open>The keys of an earlier run, tried first: whether the device is signed with them.\<close>

definition sign_with_stored :: "('s, 'd) signing \<Rightarrow> 's \<Rightarrow> (signing_error + bool) \<times> 's" where
  "sign_with_stored sdk s =
     (if sg_status sdk s = Some True
      then case own_device sdk s of
             Inl e \<Rightarrow> (Inl e, s)
           | Inr dev \<Rightarrow>
               let (ok, s1) = sg_verify sdk dev s
               in if ok then device_signed_on_server sdk s1 else (Inl Cannot_Sign, s1)
      else (Inr False, s))"

definition reset_cross_signing :: "('s, 'd) signing \<Rightarrow> string \<Rightarrow> 's \<Rightarrow> (signing_error + unit) \<times> 's" where
  "reset_cross_signing sdk pw s =
     (case device_signed_on_server sdk s of
        (Inl e, s1) \<Rightarrow> (Inl e, s1)
      | (Inr True, s1) \<Rightarrow> (Inl Already_Signed, s1)
      | (Inr False, s1) \<Rightarrow>
          (case sign_with_stored sdk s1 of
             (Inl e, s2) \<Rightarrow> (Inl e, s2)
           | (Inr True, s2) \<Rightarrow> (Inr (), s2)
           | (Inr False, s2) \<Rightarrow>
               (case replace_identity sdk pw s2 of
                  (Inl e, s3) \<Rightarrow> (Inl e, s3)
                | (Inr _, s3) \<Rightarrow>
                    (case device_signed_on_server sdk s3 of
                       (Inl e, s4) \<Rightarrow> (Inl e, s4)
                     | (Inr good, s4) \<Rightarrow> (if good then Inr () else Inl Still_Unsigned, s4)))))"

section \<open>The lock\<close>

text \<open>
  The contract of the lock over the processes that use a directory: it is taken only when free,
  dropped by its holder alone, and any other use of the directory leaves it.
\<close>

locale store_lock =
  fixes take_lock :: "nat \<Rightarrow> 'd \<Rightarrow> 'd \<Rightarrow> bool"
    and give_up :: "nat \<Rightarrow> 'd \<Rightarrow> 'd"
    and holder :: "'d \<Rightarrow> nat option"
  assumes taken: "take_lock p d d' \<Longrightarrow> holder d = None \<and> holder d' = Some p"
    and given_up: "holder (give_up p d) = (if holder d = Some p then None else holder d)"
begin

definition exclusive :: "nat set \<Rightarrow> 'd \<Rightarrow> bool" where
  "exclusive ps d = (\<forall>p \<in> ps. holder d = Some p)"

lemma exclusive_none: "exclusive {} d"
  by (simp add: exclusive_def)

lemma exclusive_take: "exclusive ps d \<Longrightarrow> take_lock p d d' \<Longrightarrow> ps = {} \<and> exclusive (insert p ps) d'"
  using taken by (fastforce simp: exclusive_def)

lemma exclusive_give_up: "exclusive ps d \<Longrightarrow> exclusive (ps - {p}) (give_up p d)"
  by (auto simp: exclusive_def given_up)

lemma exclusive_frame: "exclusive ps d \<Longrightarrow> holder d' = holder d \<Longrightarrow> exclusive ps d'"
  by (simp add: exclusive_def)

lemma exclusive_one: "exclusive ps d \<Longrightarrow> p \<in> ps \<Longrightarrow> q \<in> ps \<Longrightarrow> p = q"
  by (metis exclusive_def option.inject)

lemma exclusive_card: "exclusive ps d \<Longrightarrow> card ps \<le> 1"
  by (metis exclusive_one card_le_Suc0_iff_eq card.infinite le0 One_nat_def)

end

definition takes_lock :: "nat \<Rightarrow> home \<Rightarrow> home \<Rightarrow> bool" where
  "takes_lock pid d d' = (\<exists>io uid. prepare_state_dir io uid pid d = (Inr (), d'))"

lemma prepare_ok:
  "prepare_state_dir io uid pid d = (Inr (), d') \<Longrightarrow>
     hd_holder d = None \<and> hd_holder d' = Some pid \<and> hd_session d' = hd_session d \<and> hd_store d' = hd_store d \<and>
     hd_owner d' = uid \<and> hd_mode d' = 0x1C0"
  by (auto simp: prepare_state_dir_def Let_def split: if_splits)

lemma prepare_error:
  "prepare_state_dir io uid pid d = (Inl e, d') \<Longrightarrow>
     hd_holder d' = hd_holder d \<and> hd_session d' = hd_session d \<and> hd_store d' = hd_store d"
  by (auto simp: prepare_state_dir_def Let_def split: if_splits)

interpretation flock: store_lock takes_lock drop_lock hd_holder
  by unfold_locales (auto simp: takes_lock_def drop_lock_def dest: prepare_ok)

section \<open>Processes over one directory\<close>

text \<open>
  Starts of \<open>siltad\<close> (the daemon or \<open>reset-cross-signing\<close>) in any interleaving, by any user, with
  any outcome of their operations, and their ends, which may come at any point. A process first
  prepares the directory, then builds the client, then logs in; a start that fails ends the
  process. The administrator may delete \<open>SESSION_FILE\<close> and \<open>STORE_DIR\<close> together while no process
  holds the lock, as the errors ask for. \<open>ho_logins\<close> are the login requests sent since.
\<close>

datatype stage = St_Prepared | St_Built | St_Running

record host =
  ho_dir :: home
  ho_procs :: "nat \<rightharpoonup> stage"
  ho_logins :: "(string \<times> string) list"

definition process_ends :: "nat \<Rightarrow> host \<Rightarrow> host" where
  "process_ends pid h = h\<lparr>ho_dir := drop_lock pid (ho_dir h), ho_procs := (ho_procs h)(pid := None)\<rparr>"

text \<open>
  The store and the session file are looked at without an error: an unreadable store would count
  as empty, and a session file that cannot be looked at as absent.
\<close>

inductive host_step :: "builder \<Rightarrow> host \<Rightarrow> host \<Rightarrow> bool" for builder :: builder where
  hs_prepared:
    "ho_procs h pid = None \<Longrightarrow> prepare_state_dir io uid pid (ho_dir h) = (Inr (), d) \<Longrightarrow>
       host_step builder h (h\<lparr>ho_dir := d, ho_procs := (ho_procs h)(pid \<mapsto> St_Prepared)\<rparr>)"
| hs_not_prepared:
    "ho_procs h pid = None \<Longrightarrow> prepare_state_dir io uid pid (ho_dir h) = (Inl e, d) \<Longrightarrow>
       host_step builder h (h\<lparr>ho_dir := d\<rparr>)"
| hs_built:
    "ho_procs h pid = Some St_Prepared \<Longrightarrow> bi_read io \<noteq> Store_Unreadable \<Longrightarrow>
       build_client builder io url (ho_dir h) = (Inr (), d) \<Longrightarrow>
       host_step builder h (h\<lparr>ho_dir := d, ho_procs := (ho_procs h)(pid \<mapsto> St_Built)\<rparr>)"
| hs_not_built:
    "ho_procs h pid = Some St_Prepared \<Longrightarrow> bi_read io \<noteq> Store_Unreadable \<Longrightarrow>
       build_client builder io url (ho_dir h) = (Inl e, d) \<Longrightarrow>
       host_step builder h (process_ends pid (h\<lparr>ho_dir := d\<rparr>))"
| hs_logged_in:
    "ho_procs h pid = Some St_Built \<Longrightarrow> li_stat_ok io \<Longrightarrow>
       login_or_restore io cr (ho_dir h) = (Inr ns, asked, d) \<Longrightarrow>
       host_step builder h
         (h\<lparr>ho_dir := d, ho_procs := (ho_procs h)(pid \<mapsto> St_Running), ho_logins := ho_logins h @ asked\<rparr>)"
| hs_not_logged_in:
    "ho_procs h pid = Some St_Built \<Longrightarrow> li_stat_ok io \<Longrightarrow>
       login_or_restore io cr (ho_dir h) = (Inl e, asked, d) \<Longrightarrow>
       host_step builder h (process_ends pid (h\<lparr>ho_dir := d, ho_logins := ho_logins h @ asked\<rparr>))"
| hs_ends:
    "ho_procs h pid = Some st \<Longrightarrow> host_step builder h (process_ends pid h)"
| hs_wiped:
    "hd_holder (ho_dir h) = None \<Longrightarrow>
       host_step builder h (h\<lparr>ho_dir := (ho_dir h)\<lparr>hd_session := None, hd_store := None\<rparr>, ho_logins := []\<rparr>)"

definition host_new :: "home \<Rightarrow> host" where
  "host_new d = \<lparr>ho_dir = d, ho_procs = Map.empty, ho_logins = []\<rparr>"

text \<open>What the SDK's documentation says of the sqlite store: it is created where it was not, and data stays.\<close>

definition keeps_store :: "builder \<Rightarrow> bool" where
  "keeps_store builder =
     (\<forall>url store. (fst (builder url store) \<longrightarrow> snd (builder url store) \<notin> {None, Some []}) \<and>
        (store \<notin> {None, Some []} \<longrightarrow> snd (builder url store) \<notin> {None, Some []}))"

definition store_data :: "home \<Rightarrow> bool" where
  "store_data d = (hd_store d \<notin> {None, Some []})"

definition host_inv :: "host \<Rightarrow> bool" where
  "host_inv h =
     (flock.exclusive (dom (ho_procs h)) (ho_dir h) \<and> length (ho_logins h) \<le> 1 \<and>
      (ho_logins h \<noteq> [] \<longrightarrow> store_data (ho_dir h)) \<and>
      ((\<exists>p. ho_procs h p = Some St_Built) \<longrightarrow> store_data (ho_dir h) \<and> (hd_session (ho_dir h) = None \<longrightarrow> ho_logins h = [])))"

lemma store_has_data_iff: "r \<noteq> Store_Unreadable \<Longrightarrow> store_data d \<Longrightarrow> store_has_data r d"
  by (auto simp: store_data_def store_has_data_def split: option.splits store_read.splits)

lemma build_ok:
  assumes "build_client builder io url d = (r, d')" "keeps_store builder" "bi_read io \<noteq> Store_Unreadable"
  shows "hd_holder d' = hd_holder d \<and> hd_session d' = hd_session d \<and> (store_data d \<longrightarrow> store_data d') \<and>
    (r = Inr () \<longrightarrow> store_data d' \<and> (hd_session d = None \<longrightarrow> \<not> store_data d))"
proof (cases "\<not> session_exists (bi_stat_ok io) d \<and> store_has_data (bi_read io) d")
  case True
  then show ?thesis using assms(1) by (auto simp: build_client_def)
next
  case False
  obtain ok store where b: "builder url (hd_store d) = (ok, store)" by (meson surj_pair)
  have st: "d' = d\<lparr>hd_store := store\<rparr>" and r: "r = (if ok then Inr () else Inl Build_Failed)"
    using False b assms(1) by (simp_all only: build_client_def if_False) (simp_all add: Let_def)
  have "(ok \<longrightarrow> store \<notin> {None, Some []}) \<and> (store_data d \<longrightarrow> store \<notin> {None, Some []})"
    using assms(2) b unfolding keeps_store_def store_data_def by (metis fst_conv snd_conv)
  moreover have "hd_session d = None \<longrightarrow> \<not> store_data d"
    using False store_has_data_iff [OF assms(3), of d] by (auto simp: session_exists_def)
  ultimately show ?thesis
    unfolding st r by (simp add: store_data_def)
qed

lemma login_or_restore_ok:
  assumes "login_or_restore io cr d = (r, asked, d')" "li_stat_ok io"
  shows "hd_holder d' = hd_holder d \<and> hd_store d' = hd_store d \<and> length asked \<le> 1 \<and>
    (asked \<noteq> [] \<longrightarrow> hd_session d = None)"
  using assms
  by (auto simp: login_or_restore_def session_exists_def Let_def
      split: if_splits option.splits prod.splits)

lemma host_inv_ends:
  assumes "host_inv h"
  shows "host_inv (process_ends pid h)"
proof -
  have "flock.exclusive (dom ((ho_procs h)(pid := None))) (drop_lock pid (ho_dir h))"
    using assms flock.exclusive_give_up [of "dom (ho_procs h)" "ho_dir h" pid] by (simp add: host_inv_def)
  moreover have "store_data (drop_lock pid (ho_dir h)) = store_data (ho_dir h)"
    "hd_session (drop_lock pid (ho_dir h)) = hd_session (ho_dir h)"
    by (simp_all add: drop_lock_def store_data_def)
  ultimately show ?thesis
    using assms by (auto simp: host_inv_def process_ends_def split: if_splits)
qed

lemma host_inv_dir:
  assumes "host_inv h" "hd_holder d = hd_holder (ho_dir h)" "hd_session d = hd_session (ho_dir h)"
    "store_data (ho_dir h) \<longrightarrow> store_data d"
  shows "host_inv (h\<lparr>ho_dir := d\<rparr>)"
  using assms flock.exclusive_frame [of _ "ho_dir h" d] by (auto simp: host_inv_def)

lemma host_inv_stage:
  assumes "host_inv h" "ho_procs h pid = Some st" "st' \<noteq> St_Built"
  shows "host_inv (h\<lparr>ho_procs := (ho_procs h)(pid \<mapsto> st')\<rparr>)"
proof -
  have "dom ((ho_procs h)(pid \<mapsto> st')) = dom (ho_procs h)" using assms(2) by auto
  then show ?thesis using assms by (auto simp: host_inv_def split: if_splits)
qed

lemma host_inv_login:
  assumes "host_inv h" "ho_procs h pid = Some St_Built" "li_stat_ok io"
    "login_or_restore io cr (ho_dir h) = (r, asked, d)"
  shows "host_inv (h\<lparr>ho_dir := d, ho_procs := (ho_procs h)(pid \<mapsto> St_Running), ho_logins := ho_logins h @ asked\<rparr>)"
proof -
  note k = login_or_restore_ok [OF assms(4,3)]
  have same: "insert pid (dom (ho_procs h)) = dom (ho_procs h)" using assms(2) by auto
  have "ho_procs h p \<noteq> Some St_Built" if "p \<noteq> pid" for p
    using that assms(1,2) flock.exclusive_one [of "dom (ho_procs h)" "ho_dir h" p pid] by (auto simp: host_inv_def)
  moreover have "store_data d" using assms(1,2) k by (auto simp: host_inv_def store_data_def)
  moreover have "length (ho_logins h @ asked) \<le> 1"
    using assms(1,2) k by (cases "asked = []") (auto simp: host_inv_def)
  moreover have "flock.exclusive (dom (ho_procs h)) d"
    using assms(1) k flock.exclusive_frame by (auto simp: host_inv_def)
  ultimately show ?thesis
    unfolding host_inv_def by (auto simp: same)
qed

lemma host_inv_step:
  assumes "host_step builder h h'" "keeps_store builder" "host_inv h"
  shows "host_inv h'"
  using assms
proof (induction rule: host_step.induct)
  case (hs_prepared h pid io uid d)
  have "takes_lock pid (ho_dir h) d" using hs_prepared(2) by (auto simp: takes_lock_def)
  moreover have "flock.exclusive (dom (ho_procs h)) (ho_dir h)" using hs_prepared(4) by (simp add: host_inv_def)
  ultimately have "dom (ho_procs h) = {} \<and> flock.exclusive (insert pid (dom (ho_procs h))) d"
    by (intro flock.exclusive_take)
  then show ?case
    using hs_prepared prepare_ok [OF hs_prepared(2)] by (auto simp: host_inv_def store_data_def split: if_splits)
next
  case (hs_not_prepared h pid io uid e d)
  then show ?case using prepare_error [OF hs_not_prepared(2)] by (intro host_inv_dir) (auto simp: store_data_def)
next
  case (hs_built h pid io url d)
  note k = build_ok [OF hs_built(3,4,2)]
  have "dom ((ho_procs h)(pid \<mapsto> St_Built)) = dom (ho_procs h)" using hs_built(1) by auto
  then show ?case
    using hs_built k flock.exclusive_frame [of _ "ho_dir h" d] by (auto simp: host_inv_def)
next
  case (hs_not_built h pid io url e d)
  then show ?case using build_ok [OF hs_not_built(3,4,2)] by (intro host_inv_ends host_inv_dir) auto
next
  case (hs_logged_in h pid io cr ns asked d)
  then show ?case using host_inv_login by blast
next
  case (hs_not_logged_in h pid io cr e asked d)
  have "process_ends pid (h\<lparr>ho_dir := d, ho_logins := ho_logins h @ asked\<rparr>) =
      process_ends pid (h\<lparr>ho_dir := d, ho_procs := (ho_procs h)(pid \<mapsto> St_Running), ho_logins := ho_logins h @ asked\<rparr>)"
    by (simp add: process_ends_def)
  then show ?case using hs_not_logged_in host_inv_login host_inv_ends by metis
next
  case (hs_ends h pid st)
  then show ?case using host_inv_ends by blast
next
  case (hs_wiped h)
  then have "dom (ho_procs h) = {}" by (auto simp: host_inv_def flock.exclusive_def)
  then show ?case by (auto simp: host_inv_def flock.exclusive_none)
qed

lemma host_inv_reachable:
  assumes "(host_step builder)\<^sup>*\<^sup>* (host_new d) h" "keeps_store builder"
  shows "host_inv h"
  using assms
proof (induction rule: rtranclp_induct)
  case base
  show ?case by (simp add: host_new_def host_inv_def flock.exclusive_none)
next
  case (step g h)
  then show ?case using host_inv_step by blast
qed

section \<open>Signing\<close>

text \<open>The SDK calls that only look at the keys or sign the device leave the account's identity.\<close>

definition leaves_identity :: "('s, 'd) signing \<Rightarrow> ('s \<Rightarrow> 'i) \<Rightarrow> bool" where
  "leaves_identity sdk ident =
     (\<forall>s dev. ident (sg_init_tasks sdk s) = ident s \<and> ident (snd (sg_request_identity sdk s)) = ident s \<and>
        ident (snd (sg_verify sdk dev s)) = ident s)"

lemma device_signed_keeps:
  assumes "leaves_identity sdk ident" "device_signed_on_server sdk s = (r, s')"
  shows "ident s' = ident s"
  using assms unfolding leaves_identity_def device_signed_on_server_def Let_def
  by (auto split: if_splits prod.splits) (metis snd_conv)+

lemma sign_with_stored_keeps:
  assumes "leaves_identity sdk ident" "sign_with_stored sdk s = (r, s')"
  shows "ident s' = ident s"
proof -
  have "ident s1 = ident s" if "sg_verify sdk dev s = (ok, s1)" for dev ok s1
    using assms(1) that unfolding leaves_identity_def by (metis snd_conv)
  then show ?thesis
    using assms(2) device_signed_keeps [OF assms(1)] unfolding sign_with_stored_def Let_def
    by (fastforce split: if_splits prod.splits sum.splits)
qed

lemma sign_with_stored_True:
  "sign_with_stored sdk s = (Inr True, s') \<Longrightarrow> \<exists>t. device_signed_on_server sdk t = (Inr True, s')"
  by (auto simp: sign_with_stored_def Let_def split: if_splits prod.splits sum.splits)

section \<open>Properties\<close>


text \<open>A first start that logs in, for the witness.\<close>

definition demo_home :: home where
  "demo_home = \<lparr>hd_present = False, hd_owner = 0, hd_mode = 0, hd_session = None, hd_store = None,
     hd_lock_file = False, hd_holder = None\<rparr>"

definition demo_builder :: builder where
  "demo_builder url store = (True, Some [''matrix-sdk-state.sqlite3''])"

definition demo_login_io :: login_io where
  "demo_login_io = \<lparr>li_parse = \<lambda>_. None, li_print = \<lambda>_. Some ''{}'', li_stat_ok = True, li_read_ok = True,
     li_restore_ok = True, li_whoami = Who_Ok, li_login = Some \<lparr>lr_device_id = ''D'', lr_well_known = None\<rparr>,
     li_session = Some \<lparr>ms_user_id = ''@bot:x'', ms_device_id = ''D'', ms_token = ''t''\<rparr>, li_write = PW_Opened Written\<rparr>"

definition demo_cred :: credentials where
  "demo_cred = \<lparr>cr_homeserver_url = ''h'', cr_user_id = ''@bot:x'', cr_password = ''p'', cr_device_id = ''D'',
     cr_device_name = ''Silta''\<rparr>"

definition demo_started :: home where
  "demo_started = \<lparr>hd_present = True, hd_owner = 7, hd_mode = 0x1C0, hd_session = Some ''{}'',
     hd_store = Some [''matrix-sdk-state.sqlite3''], hd_lock_file = True, hd_holder = Some 1\<rparr>"

lemma demo_start:
  "(host_step demo_builder)\<^sup>*\<^sup>* (host_new demo_home)
     \<lparr>ho_dir = demo_started, ho_procs = [1 \<mapsto> St_Running], ho_logins = [(''@bot:x'', ''D'')]\<rparr>"
proof -
  let ?h1 = "\<lparr>ho_dir = demo_started\<lparr>hd_session := None, hd_store := None\<rparr>, ho_procs = [1 \<mapsto> St_Prepared], ho_logins = []\<rparr>"
  let ?h2 = "\<lparr>ho_dir = demo_started\<lparr>hd_session := None\<rparr>, ho_procs = [1 \<mapsto> St_Built], ho_logins = []\<rparr>"
  have 1: "host_step demo_builder (host_new demo_home) ?h1"
    using host_step.hs_prepared [of "host_new demo_home" 1
        "\<lparr>pi_create_ok = True, pi_meta_ok = True, pi_chmod_ok = True, pi_open_ok = True, pi_lock_ok = True\<rparr>" 7]
    by (simp add: host_new_def prepare_state_dir_def demo_home_def demo_started_def)
  have 2: "host_step demo_builder ?h1 ?h2"
    using host_step.hs_built [of ?h1 1 "\<lparr>bi_stat_ok = True, bi_read = Store_Listed\<rparr>" demo_builder "''h''"]
    by (simp add: build_client_def session_exists_def store_has_data_def demo_builder_def demo_started_def)
  have 3: "host_step demo_builder ?h2
      \<lparr>ho_dir = demo_started, ho_procs = [1 \<mapsto> St_Running], ho_logins = [(''@bot:x'', ''D'')]\<rparr>"
    using host_step.hs_logged_in [of ?h2 1 demo_login_io demo_cred]
    by (simp add: login_or_restore_def session_exists_def demo_login_io_def demo_cred_def write_private_def demo_started_def)
  show ?thesis
    using 1 2 3 by (meson rtranclp.rtrancl_refl rtranclp.rtrancl_into_rtrancl)
qed



text \<open>
  A small account: the identity on the server, the identity whose keys are in the store, and the
  one the device is signed by. Fetched keys drop stored ones that differ.
\<close>

definition demo_signing :: "(nat \<times> nat option \<times> nat option, bool) signing" where
  "demo_signing =
     \<lparr>sg_init_tasks = id, sg_user_id = \<lambda>_. Some ''@bot:x'',
      sg_request_identity = \<lambda>(i, st, sg). (True, i, if st = Some i then st else None, sg),
      sg_own_device = \<lambda>(i, st, sg). Inr (Some (sg = Some i)), sg_cross_signed = id,
      sg_status = \<lambda>(i, st, sg). Some (st \<noteq> None), sg_verify = \<lambda>dev (i, st, sg). (True, i, st, st),
      sg_reset = \<lambda>s. (Inr (Some (Reset_Uiaa None)), s),
      sg_auth = \<lambda>a (i, st, sg). (100, Inr (), i + 1, Some (i + 1), Some (i + 1)), sg_auth_cut = \<lambda>a s. s\<rparr>"

lemmas demo_signing_defs = demo_signing_def reset_cross_signing_def device_signed_on_server_def sign_with_stored_def
  own_device_def replace_identity_def upload_identity_def PASSWORD_LIMIT_def


text \<open>
  The other side of the one login: a first login that the homeserver refuses leaves the store the
  client was built with and no session file, and the next start takes it for the store of an old
  login.
\<close>

theorem failed_login_blocks_next_start:
  assumes "keeps_store builder" "bi_read io \<noteq> Store_Unreadable" "bi_read io' \<noteq> Store_Unreadable"
    "build_client builder io url d = (Inr (), d1)" "hd_session d = None"
    "login_or_restore li cr d1 = (Inl Login_Failed, asked, d2)"
  shows "build_client builder io' url d2 = (Inl Old_Store, d2)"
proof -
  note b = build_ok [OF assms(4,1,2)]
  have "d2 = d1"
    using assms(6) by (auto simp: login_or_restore_def Let_def split: if_splits option.splits prod.splits)
  then have "hd_session d2 = None" "store_data d2" using b assms(5) by simp_all
  then show ?thesis
    using store_has_data_iff [OF assms(3), of d2] by (simp add: build_client_def session_exists_def)
qed

end
