(* ===== verification/Daemon_Start.thy ===== *)
theory Daemon_Start
  imports Login Inbound Server Backup
begin

text \<open>
  The daemon's program (\<open>crates/siltad/src/main.rs\<close>): its commands, the order of a start, the
  directories of the spool and its sweeper (\<open>spool.rs\<close>), the socket (\<open>run\<close> of \<open>server.rs\<close>) and the
  result of the process. The parts are those of \<open>Config\<close>, \<open>Login\<close>, \<open>Daemon_State\<close>, \<open>Server\<close>,
  \<open>Inbound\<close> and \<open>Backup\<close>; what the system answers is the input record \<open>main_io\<close>. Parsing of the
  command line (clap), logging and the delivery of signals are left out: a signal is the
  cancellation the loops see.
\<close>

section \<open>The spool's directories\<close>

definition SWEEP_EVERY :: duration where
  "SWEEP_EVERY = 24 * 3600 * 1000"

definition LEFTOVER_MAX_AGE :: duration where
  "LEFTOVER_MAX_AGE = 24 * 3600 * 1000"

text \<open>The modes of the directories that exist; \<open>fresh\<close> is the mode a new one gets from the umask.\<close>

type_synonym modes = "string \<rightharpoonup> nat"

fun prepare_dirs :: "(string \<Rightarrow> bool) \<Rightarrow> (string \<Rightarrow> bool) \<Rightarrow> nat \<Rightarrow> string list \<Rightarrow> modes \<Rightarrow> bool \<times> modes" where
  "prepare_dirs create_ok chmod_ok fresh [] m = (True, m)"
| "prepare_dirs create_ok chmod_ok fresh (dir # dirs) m =
     (if \<not> create_ok dir then (False, m)
      else let m1 = (if m dir = None then m(dir \<mapsto> fresh) else m)
           in if \<not> chmod_ok dir then (False, m1)
              else prepare_dirs create_ok chmod_ok fresh dirs (m1(dir \<mapsto> 0x1C0)))"

definition spool_prepare :: "(string \<Rightarrow> bool) \<Rightarrow> (string \<Rightarrow> bool) \<Rightarrow> nat \<Rightarrow> spool \<Rightarrow> modes \<Rightarrow> bool \<times> modes" where
  "spool_prepare create_ok chmod_ok fresh sp m = prepare_dirs create_ok chmod_ok fresh [sp_inbox sp, sp_outbox sp] m"

text \<open>
  The sweeper: a round is the time, the listings of the two directories and whether the wait
  after it was cancelled. The result is what each sweep gave.
\<close>

fun sweeper :: "spool \<Rightarrow> (nat \<times> (string \<Rightarrow> dir_listing) \<times> bool) list \<Rightarrow> (string \<times> (unit + nat) \<times> string list) list" where
  "sweeper sp [] = []"
| "sweeper sp ((now, listing, cancelled) # rs) =
     map (\<lambda>dir. (dir, sweep now LEFTOVER_MAX_AGE (listing dir))) [sp_inbox sp, sp_outbox sp] @
     (if cancelled then [] else sweeper sp rs)"

section \<open>The socket\<close>

datatype at_path = Nothing_There | Socket_There | Other_There

record bind_io =
  bo_meta_ok :: bool
  bo_remove_ok :: bool
  bo_parent_ok :: bool
  bo_bind_ok :: bool
  bo_chmod_ok :: bool
  bo_unlink_ok :: bool

datatype socket_error = Not_A_Socket | Cannot_Remove_Socket | Cannot_Create_Parent | Cannot_Bind | Cannot_Chmod_Socket

text \<open>Binding fails where something is in place.\<close>

definition bind_socket :: "bind_io \<Rightarrow> at_path \<Rightarrow> (socket_error + unit) \<times> at_path" where
  "bind_socket io p =
     (if bo_meta_ok io \<and> p = Other_There then (Inl Not_A_Socket, p)
      else if bo_meta_ok io \<and> p = Socket_There \<and> \<not> bo_remove_ok io then (Inl Cannot_Remove_Socket, p)
      else let p1 = (if bo_meta_ok io then Nothing_There else p)
           in if \<not> bo_parent_ok io then (Inl Cannot_Create_Parent, p1)
              else if \<not> bo_bind_ok io \<or> p1 \<noteq> Nothing_There then (Inl Cannot_Bind, p1)
              else if \<not> bo_chmod_ok io then (Inl Cannot_Chmod_Socket, Socket_There)
              else (Inr (), Socket_There))"

datatype 'c accepted = Ac_Stream 'c | Ac_Error | Ac_Cancelled

fun accept_loop :: "'c accepted list \<Rightarrow> 'c list \<times> bool" where
  "accept_loop [] = ([], False)"
| "accept_loop (Ac_Cancelled # es) = ([], True)"
| "accept_loop (Ac_Error # es) = accept_loop es"
| "accept_loop (Ac_Stream c # es) = (let (cs, ended) = accept_loop es in (c # cs, ended))"

text \<open>The connections given to \<open>handle\<close>, and the result, \<open>None\<close> while the loop goes on.\<close>

definition server_run :: "bind_io \<Rightarrow> 'c accepted list \<Rightarrow> at_path \<Rightarrow> (socket_error + unit) option \<times> 'c list \<times> at_path" where
  "server_run io es p =
     (case bind_socket io p of
        (Inl e, p1) \<Rightarrow> (Some (Inl e), [], p1)
      | (Inr _, p1) \<Rightarrow>
          let (cs, ended) = accept_loop es
          in if ended then (Some (Inr ()), cs, if bo_unlink_ok io then Nothing_There else p1) else (None, cs, p1))"

section \<open>The start\<close>

datatype user_error = Cannot_Look_Up string string | No_Such_User string string

fun resolve_loop :: "(string \<Rightarrow> unit + u32 option) \<Rightarrow> (string \<times> string) list \<Rightarrow> (string \<rightharpoonup> u32) \<Rightarrow> user_error + (string \<rightharpoonup> u32)" where
  "resolve_loop from_name [] users = Inr users"
| "resolve_loop from_name ((session, user) # rest) users =
     (case from_name user of
        Inl _ \<Rightarrow> Inl (Cannot_Look_Up session user)
      | Inr None \<Rightarrow> Inl (No_Such_User session user)
      | Inr (Some uid) \<Rightarrow> resolve_loop from_name rest (users(session \<mapsto> uid)))"

definition resolve_users :: "(string \<Rightarrow> unit + u32 option) \<Rightarrow> routing \<Rightarrow> user_error + (string \<rightharpoonup> u32)" where
  "resolve_users from_name r = resolve_loop from_name (session_users r) Map.empty"

definition credentials_of :: "config \<Rightarrow> credentials" where
  "credentials_of c =
     \<lparr>cr_homeserver_url = homeserver_url (matrix c), cr_user_id = user_id (matrix c), cr_password = password (matrix c),
      cr_device_id = device_id (matrix c), cr_device_name = device_name (matrix c)\<rparr>"

record start_io =
  so_uid :: u32
  so_pid :: nat
  so_prepare :: prepare_io
  so_build :: build_io
  so_login :: login_io
  so_create_ok :: "string \<Rightarrow> bool"
  so_chmod_ok :: "string \<Rightarrow> bool"
  so_fresh :: nat
  so_now :: u64
  so_hostname :: "string option"
  so_marks_from :: "string \<Rightarrow> (string \<rightharpoonup> watermark) option"
  so_marks_file :: "string option"
  so_disk :: fs
  so_display :: "unit + string option"

datatype start_error =
    Start_User user_error
  | Start_State prepare_error
  | Start_Client build_error
  | Start_Login login_error
  | Start_Spool

text \<open>The steps that the daemon and \<open>reset-cross-signing\<close> share: the lock, the client, the session.\<close>

definition open_session ::
  "builder \<Rightarrow> start_io \<Rightarrow> config \<Rightarrow> home \<Rightarrow> (start_error + login_note list) \<times> (string \<times> string) list \<times> home"
where
  "open_session builder io c d =
     (case prepare_state_dir (so_prepare io) (so_uid io) (so_pid io) d of
        (Inl e, d1) \<Rightarrow> (Inl (Start_State e), [], d1)
      | (Inr _, d1) \<Rightarrow>
          (case build_client builder (so_build io) (homeserver_url (matrix c)) d1 of
             (Inl e, d2) \<Rightarrow> (Inl (Start_Client e), [], d2)
           | (Inr _, d2) \<Rightarrow>
               (case login_or_restore (so_login io) (credentials_of c) d2 of
                  (Inl e, asked, d3) \<Rightarrow> (Inl (Start_Login e), asked, d3)
                | (Inr notes, asked, d3) \<Rightarrow> (Inr notes, asked, d3))))"

text \<open>What a started daemon has: its state, the spool's directories and a display name to set.\<close>

record running =
  ru_daemon :: daemon
  ru_modes :: modes
  ru_display :: "string option"

definition start_daemon ::
  "(string \<Rightarrow> unit + u32 option) \<Rightarrow> builder \<Rightarrow> start_io \<Rightarrow> config \<Rightarrow> modes \<Rightarrow> home \<Rightarrow>
     (start_error + running) \<times> (string \<times> string) list \<times> home"
where
  "start_daemon from_name builder io c m d =
     (let rt = routing_new c
      in case resolve_users from_name rt of
           Inl e \<Rightarrow> (Inl (Start_User e), [], d)
         | Inr users \<Rightarrow>
             (case open_session builder io c d of
                (Inl e, asked, d1) \<Rightarrow> (Inl e, asked, d1)
              | (Inr notes, asked, d1) \<Rightarrow>
                  let sp = spool_new (state_dir c) (saturating_mul (attachment_max_mb c) (1024 * 1024));
                      (ok, m1) = spool_prepare (so_create_ok io) (so_chmod_ok io) (so_fresh io) sp m;
                      st = \<lparr>st_replay_window_secs = replay_window_secs c, st_inbox_max_age_days = inbox_max_age_days c,
                            st_alert_grace_secs = alert_grace_secs c\<rparr>
                  in if \<not> ok then (Inl Start_Spool, asked, d1)
                     else (Inr \<lparr>ru_daemon = daemon_new rt sp users st (so_now io) (so_hostname io)
                                   (marks_load (so_marks_from io) (so_marks_file io)) (so_disk io),
                                ru_modes = m1,
                                ru_display = (case display_name (matrix c) of
                                   None \<Rightarrow> None | Some n \<Rightarrow> ensure_display_name (so_display io) n)\<rparr>, asked, d1)))"

section \<open>The commands\<close>

datatype siltad_command = Backup_To string nat | ResetCrossSigning

record siltad_args =
  sa_config :: string
  sa_command :: "siltad_command option"

record ('s, 'd) main_io =
  mi_from_str :: "string \<Rightarrow> string + config"
  mi_read_file :: "string \<Rightarrow> string + string"
  mi_stdin :: "string + string"
  mi_from_name :: "string \<Rightarrow> unit + u32 option"
  mi_builder :: builder
  mi_start :: start_io
  mi_store :: "string \<Rightarrow> store_view"
  mi_backup :: backup_io
  mi_backups :: "string \<Rightarrow> dir_entries"
  mi_try_exists_ok :: bool
  mi_signing :: "('s, 'd) signing"
  mi_account :: 's
  mi_server :: "unit + (socket_error + unit)"
  mi_sync :: sync_exit

datatype run_error =
    Run_Config config_error
  | Run_Backup backup_error
  | Run_Cannot_Read_Session
  | Run_No_Saved_Session
  | Run_Start start_error
  | Run_Signing signing_error
  | Run_Server_Panicked
  | Run_Socket socket_error
  | Run_Token_Rejected

text \<open>How both tasks of the daemon ended; the server's error is reported first.\<close>

definition daemon_end :: "unit + (socket_error + unit) \<Rightarrow> sync_exit \<Rightarrow> run_error + unit" where
  "daemon_end server sync =
     (case server of
        Inl _ \<Rightarrow> Inl Run_Server_Panicked
      | Inr (Inl e) \<Rightarrow> Inl (Run_Socket e)
      | Inr (Inr _) \<Rightarrow> (case sync of Exit_Ok \<Rightarrow> Inr () | Exit_Token_Rejected \<Rightarrow> Inl Run_Token_Rejected))"

text \<open>What the process leaves behind: the directory without its lock, the logins, the copies, the account.\<close>

record 's left =
  lf_home :: home
  lf_logins :: "(string \<times> string) list"
  lf_backups :: dir_entries
  lf_account :: 's

definition reset_command :: "('s, 'd) main_io \<Rightarrow> config \<Rightarrow> home \<Rightarrow> (run_error + unit) \<times> (string \<times> string) list \<times> home \<times> 's" where
  "reset_command io c d =
     (if \<not> mi_try_exists_ok io then (Inl Run_Cannot_Read_Session, [], d, mi_account io)
      else if hd_session d = None then (Inl Run_No_Saved_Session, [], d, mi_account io)
      else case open_session (mi_builder io) (mi_start io) c d of
        (Inl e, asked, d1) \<Rightarrow> (Inl (Run_Start e), asked, d1, mi_account io)
      | (Inr _, asked, d1) \<Rightarrow>
          let (r, s) = Login.reset_cross_signing (mi_signing io) (password (matrix c)) (mi_account io)
          in (map_sum Run_Signing id r, asked, d1, s))"

definition siltad_run :: "('s, 'd) main_io \<Rightarrow> siltad_args \<Rightarrow> modes \<Rightarrow> home \<Rightarrow> (run_error + unit) \<times> 's left" where
  "siltad_run io args m d =
     (let quiet = \<lparr>lf_home = d, lf_logins = [], lf_backups = [], lf_account = mi_account io\<rparr>;
          unlocked = drop_lock (so_pid (mi_start io))
      in case config_load (mi_from_str io) (mi_read_file io) (mi_stdin io) (sa_config args) of
           Inl e \<Rightarrow> (Inl (Run_Config e), quiet)
         | Inr c \<Rightarrow>
             (case sa_command args of
                Some (Backup_To to keep) \<Rightarrow>
                  let (entries, r) = run_backup (mi_store io (state_dir c)) (mi_backup io) (mi_backups io to) keep
                        (stamp (so_now (mi_start io)))
                  in (map_sum Run_Backup (\<lambda>_. ()) r, quiet\<lparr>lf_backups := entries\<rparr>)
              | Some ResetCrossSigning \<Rightarrow>
                  let (r, asked, d1, s) = reset_command io c d
                  in (r, quiet\<lparr>lf_home := unlocked d1, lf_logins := asked, lf_account := s\<rparr>)
              | None \<Rightarrow>
                  (case start_daemon (mi_from_name io) (mi_builder io) (mi_start io) c m d of
                     (Inl e, asked, d1) \<Rightarrow> (Inl (Run_Start e), quiet\<lparr>lf_home := unlocked d1, lf_logins := asked\<rparr>)
                   | (Inr _, asked, d1) \<Rightarrow>
                       (daemon_end (mi_server io) (mi_sync io), quiet\<lparr>lf_home := unlocked d1, lf_logins := asked\<rparr>))))"

definition exit_code :: "run_error + unit \<Rightarrow> nat" where
  "exit_code r = (case r of Inr _ \<Rightarrow> 0 | Inl _ \<Rightarrow> 1)"

section \<open>Lemmas\<close>

lemma resolve_loop_others: "resolve_loop f us m = Inr users \<Longrightarrow> s \<notin> fst ` set us \<Longrightarrow> users s = m s"
  by (induction f us m rule: resolve_loop.induct) (auto split: sum.splits option.splits)

lemma resolve_loop_users:
  "resolve_loop f us m = Inr users \<Longrightarrow> distinct (map fst us) \<Longrightarrow> (s, u) \<in> set us \<Longrightarrow>
     \<exists>uid. f u = Inr (Some uid) \<and> users s = Some uid"
proof (induction f us m rule: resolve_loop.induct)
  case (2 f q v rest m)
  then obtain uid where f: "f v = Inr (Some uid)" "resolve_loop f rest (m(q \<mapsto> uid)) = Inr users"
    by (auto split: sum.splits option.splits)
  show ?case
  proof (cases "(s, u) = (q, v)")
    case True
    then show ?thesis using f resolve_loop_others [OF f(2), of q] 2(3) by simp
  next
    case False
    then show ?thesis using 2(1) [OF f(1) refl f(2)] 2(3,4) by auto
  qed
qed simp

lemma open_session_kept:
  assumes "open_session builder io c d = (r, asked, d')"
  shows "(hd_holder d \<noteq> None \<longrightarrow>
            hd_holder d' = hd_holder d \<and> asked = [] \<and> hd_session d' = hd_session d \<and> hd_store d' = hd_store d \<and> r \<notin> range Inr) \<and>
    (hd_holder d = None \<longrightarrow> hd_holder d' \<in> {None, Some (so_pid io)}) \<and>
    (r \<in> range Inr \<longrightarrow> hd_holder d' = Some (so_pid io) \<and> hd_owner d' = so_uid io \<and> hd_mode d' = 0x1C0)"
proof -
  obtain r1 d1 where p: "prepare_state_dir (so_prepare io) (so_uid io) (so_pid io) d = (r1, d1)" by (meson surj_pair)
  obtain r2 d2 where b: "build_client builder (so_build io) (homeserver_url (matrix c)) d1 = (r2, d2)" by (meson surj_pair)
  obtain r3 as d3 where l: "login_or_restore (so_login io) (credentials_of c) d2 = (r3, as, d3)" by (metis prod_cases3)
  have b': "hd_holder d2 = hd_holder d1 \<and> hd_owner d2 = hd_owner d1 \<and> hd_mode d2 = hd_mode d1"
    using b by (auto simp: build_client_def Let_def split: if_splits prod.splits)
  have l': "hd_holder d3 = hd_holder d2 \<and> hd_owner d3 = hd_owner d2 \<and> hd_mode d3 = hd_mode d2"
    using l by (auto simp: login_or_restore_def Let_def split: if_splits prod.splits option.splits)
  show ?thesis
  proof (cases r1)
    case (Inl e)
    then show ?thesis using assms p prepare_error [of _ _ _ d e d1] by (auto simp: open_session_def)
  next
    case (Inr u)
    with p have "prepare_state_dir (so_prepare io) (so_uid io) (so_pid io) d = (Inr (), d1)" by simp
    from prepare_ok [OF this] assms p Inr b b' l l' show ?thesis
      by (cases r2; cases r3) (auto simp: open_session_def)
  qed
qed

lemma start_daemon_started:
  assumes "start_daemon from_name builder io c m d = (Inr ru, asked, d')"
  shows "resolve_users from_name (routing_new c) = Inr (dm_users (ru_daemon ru))"
    and "\<exists>ns. open_session builder io c d = (Inr ns, asked, d')"
    and "spool_prepare (so_create_ok io) (so_chmod_ok io) (so_fresh io) (dm_spool (ru_daemon ru)) m = (True, ru_modes ru)"
    and "dm_routing (ru_daemon ru) = routing_new c"
  using assms
  by (auto simp: start_daemon_def daemon_new_def Let_def split: sum.splits prod.splits if_splits)

lemma start_daemon_error:
  assumes "start_daemon from_name builder io c m d = (Inl e, asked, d')"
  shows "(asked = [] \<and> d' = d) \<or> (\<exists>r. open_session builder io c d = (r, asked, d'))"
  using assms
  by (auto simp: start_daemon_def Let_def split: sum.splits prod.splits if_splits)

lemma prepare_dirs_modes:
  "prepare_dirs create_ok chmod_ok fresh dirs m = (True, m') \<Longrightarrow> dir \<in> set dirs \<or> m dir = Some 0x1C0 \<Longrightarrow> m' dir = Some 0x1C0"
  by (induction create_ok chmod_ok fresh dirs m rule: prepare_dirs.induct) (auto simp: Let_def split: if_splits)

lemma sweep_entries_old:
  "n \<in> set (snd (sweep_entries cutoff es k gone)) \<Longrightarrow>
     n \<in> set gone \<or> (\<exists>f. Some f \<in> set es \<and> df_name f = n \<and> df_is_file f \<and> df_modified f < cutoff)"
  by (induction cutoff es k gone rule: sweep_entries.induct) (auto split: if_splits)

lemma sweeper_old_only:
  "(dir, r, gone) \<in> set (sweeper sp rs) \<Longrightarrow> n \<in> set gone \<Longrightarrow>
     \<exists>round \<in> set rs. \<exists>es f. fst (snd round) dir = DL_Entries es \<and> Some f \<in> set es \<and> df_name f = n \<and>
       df_is_file f \<and> df_modified f + LEFTOVER_MAX_AGE < fst round"
proof (induction sp rs rule: sweeper.induct)
  case (2 sp now listing cancelled rs)
  from 2(2) consider (here) "sweep now LEFTOVER_MAX_AGE (listing dir) = (r, gone)"
    | (later) "\<not> cancelled" "(dir, r, gone) \<in> set (sweeper sp rs)"
    by (auto split: if_splits)
  then show ?case
  proof cases
    case here
    then obtain es where "listing dir = DL_Entries es" "gone = snd (sweep_entries (now - LEFTOVER_MAX_AGE) es 0 [])"
      using 2(3) by (cases "listing dir") (auto simp: sweep_def)
    with 2(3) sweep_entries_old [of n "now - LEFTOVER_MAX_AGE" es 0 "[]"] obtain f where
      "listing dir = DL_Entries es" "Some f \<in> set es" "df_name f = n" "df_is_file f"
      "df_modified f < now - LEFTOVER_MAX_AGE" by auto
    then show ?thesis by (intro bexI [of _ "(now, listing, cancelled)"]) (auto simp: less_diff_conv)
  next
    case later
    show ?thesis by (rule bexE [OF 2(1) [OF later 2(3)]], rule bexI, assumption, rule list.set_intros(2))
  qed
qed simp

text \<open>What a process leaves in a directory that it opened, or failed to open, for its session.\<close>

definition respects_lock :: "nat \<Rightarrow> home \<Rightarrow> home \<Rightarrow> (string \<times> string) list \<Rightarrow> bool" where
  "respects_lock pid d d' asked =
     (hd_holder d' = hd_holder d \<and>
      (hd_holder d \<noteq> None \<longrightarrow> hd_session d' = hd_session d \<and> hd_store d' = hd_store d \<and> asked = []))"

lemma open_session_respects:
  assumes "open_session builder io c d = (x, asked, d')" "hd_holder d \<noteq> Some (so_pid io)"
  shows "respects_lock (so_pid io) d (drop_lock (so_pid io) d') asked \<and> (hd_holder d \<noteq> None \<longrightarrow> x \<notin> range Inr)"
  using open_session_kept [OF assms(1)] assms(2)
  by (cases "hd_holder d") (auto simp: respects_lock_def drop_lock_def)

lemma respects_lock_same: "hd_holder d \<noteq> Some pid \<Longrightarrow> respects_lock pid d (drop_lock pid d) []"
  by (simp add: respects_lock_def drop_lock_def)

lemma reset_command_respects:
  assumes "reset_command io c d = (r, asked, d', s)" "hd_holder d \<noteq> Some (so_pid (mi_start io))"
  shows "respects_lock (so_pid (mi_start io)) d (drop_lock (so_pid (mi_start io)) d') asked \<and>
    (hd_holder d \<noteq> None \<longrightarrow> s = mi_account io) \<and>
    (hd_session d = None \<longrightarrow> r \<noteq> Inr () \<and> d' = d \<and> asked = [] \<and> s = mi_account io)"
proof (cases "mi_try_exists_ok io \<and> hd_session d \<noteq> None")
  case True
  obtain x as d1 where o: "open_session (mi_builder io) (mi_start io) c d = (x, as, d1)" by (metis prod_cases3)
  show ?thesis
    using open_session_respects [OF o assms(2)] True o assms(1)
    by (auto simp: reset_command_def split: sum.splits prod.splits)
next
  case False
  then show ?thesis
    using assms respects_lock_same by (auto simp: reset_command_def split: if_splits)
qed

lemma start_daemon_respects:
  assumes "start_daemon from_name builder io c m d = (x, asked, d')" "hd_holder d \<noteq> Some (so_pid io)"
  shows "respects_lock (so_pid io) d (drop_lock (so_pid io) d') asked"
proof (cases x)
  case (Inl e)
  with assms start_daemon_error [of from_name builder io c m d e asked d'] show ?thesis
    using open_session_respects respects_lock_same by metis
next
  case (Inr ru)
  with assms start_daemon_started [of from_name builder io c m d ru asked d'] show ?thesis
    using open_session_respects by metis
qed

section \<open>Properties\<close>

text \<open>
  C18: a daemon that started knows the user of every configured session, and as long as its
  table of users and its routing are those of the start, a process is served as a session only
  if the kernel reports the uid of the user that the configuration names for that session.
\<close>

theorem started_daemon_admits_users:
  assumes "validate c = Inr ()" "start_daemon from_name builder io c m home = (Inr ru, asked, home')"
    "dm_users d = dm_users (ru_daemon ru)" "dm_routing d = dm_routing (ru_daemon ru)"
  shows "(\<forall>sc \<in> set (config.sessions c). \<exists>uid. from_name (sc_user sc) = Inr (Some uid) \<and> dm_users d (sc_name sc) = Some uid) \<and>
    (fst (connect parse peer input welcome_ok queue_ok now d) = Cn_Serving al q n \<longrightarrow>
      (\<exists>line h sc uid. input = Hello_Line line \<and> parse line = Some (In_Message (CM_Hello h)) \<and> sc \<in> set (config.sessions c) \<and>
         hello_session h = sc_name sc \<and> from_name (sc_user sc) = Inr (Some uid) \<and> peer = Some uid))"
proof -
  have "distinct (map sc_name (config.sessions c))"
    using assms(1) by (simp add: validate_ok_iff config_ok_def sessions_ok_def)
  then have users: "\<exists>uid. from_name (sc_user sc) = Inr (Some uid) \<and> dm_users d (sc_name sc) = Some uid"
    if "sc \<in> set (config.sessions c)" for sc
    using that assms(3) start_daemon_started [OF assms(2)]
      resolve_loop_users [of from_name "session_users (routing_new c)" Map.empty _ "sc_name sc" "sc_user sc"]
    by (force simp: resolve_users_def session_users_def comp_def)
  have "\<exists>h. handshake parse input = HS_Hello h \<and> entitled d peer h"
    if "fst (connect parse peer input welcome_ok queue_ok now d) = Cn_Serving al q n"
    using that connect_not_entitled [of parse input d peer welcome_ok queue_ok now] by auto
  moreover have "\<exists>sc \<in> set (config.sessions c). sc_name sc = hello_session h" if "entitled d peer h" for h
    using that validated_tables(2) [OF assms(1)] start_daemon_started [OF assms(2)] assms(4)
    by (auto simp: entitled_def rt_session_def)
  ultimately show ?thesis
    using users unfolding handshake_Hello entitled_def by (metis option.inject)
qed


text \<open>
  A daemon that started holds the lock of a state directory that belongs to its user, and
  that directory and both directories of the spool can be entered by that user alone.
\<close>

theorem started_daemon_is_private:
  assumes "start_daemon from_name builder io c m d = (Inr ru, asked, d')"
  shows "hd_holder d = None \<and> hd_holder d' = Some (so_pid io) \<and> hd_owner d' = so_uid io \<and> hd_mode d' = 0x1C0 \<and>
    ru_modes ru (sp_inbox (dm_spool (ru_daemon ru))) = Some 0x1C0 \<and> ru_modes ru (sp_outbox (dm_spool (ru_daemon ru))) = Some 0x1C0"
proof -
  obtain ns where "open_session builder io c d = (Inr ns, asked, d')" using start_daemon_started(2) [OF assms] ..
  from open_session_kept [OF this] show ?thesis
    using prepare_dirs_modes [OF start_daemon_started(3) [OF assms, unfolded spool_prepare_def]] by auto
qed

text \<open>A first start with the two sessions of the demonstration configuration.\<close>

definition demo_start_io :: start_io where
  "demo_start_io =
     \<lparr>so_uid = 7, so_pid = 1,
      so_prepare = \<lparr>pi_create_ok = True, pi_meta_ok = True, pi_chmod_ok = True, pi_open_ok = True, pi_lock_ok = True\<rparr>,
      so_build = \<lparr>bi_stat_ok = True, bi_read = Store_Listed\<rparr>, so_login = demo_login_io,
      so_create_ok = \<lambda>_. True, so_chmod_ok = \<lambda>_. True, so_fresh = 493, so_now = 0, so_hostname = None,
      so_marks_from = \<lambda>_. None, so_marks_file = None,
      so_disk = \<lparr>fs_inodes = \<lambda>_. [], fs_paths = Map.empty, fs_next = 0\<rparr>, so_display = Inr None\<rparr>"

definition demo_lookup :: "string \<Rightarrow> unit + u32 option" where
  "demo_lookup u = Inr (if u = ''u1'' then Some 11 else if u = ''u2'' then Some 12 else None)"

lemmas start_demo_defs = demo_start_io_def demo_login_io_def demo_home_def demo_builder_def demo_lookup_def demo_config_def

lemma demo_users: "\<exists>users. resolve_users demo_lookup (routing_new demo_config) = Inr users"
  by (simp add: resolve_users_def session_users_def demo_lookup_def demo_config_def)

lemma demo_started_daemon:
  "\<exists>ru. start_daemon demo_lookup demo_builder demo_start_io demo_config Map.empty demo_home =
     (Inr ru, [(''@bot:x'', ''D'')], demo_started)"
proof -
  have o: "\<exists>ns. open_session demo_builder demo_start_io demo_config demo_home = (Inr ns, [(''@bot:x'', ''D'')], demo_started)"
    by (simp add: open_session_def prepare_state_dir_def build_client_def session_exists_def store_has_data_def
        login_or_restore_def write_private_def credentials_of_def start_demo_defs demo_started_def)
  from demo_users o show ?thesis
    by (auto simp: start_daemon_def spool_prepare_def demo_start_io_def Let_def)
qed

theorem started_daemon_admits_users_witness:
  "\<exists>ru. start_daemon demo_lookup demo_builder demo_start_io demo_config Map.empty demo_home =
       (Inr ru, [(''@bot:x'', ''D'')], demo_started) \<and> dm_users (ru_daemon ru) ''hub'' = Some 12"
proof -
  obtain ru where ru: "start_daemon demo_lookup demo_builder demo_start_io demo_config Map.empty demo_home =
     (Inr ru, [(''@bot:x'', ''D'')], demo_started)" using demo_started_daemon ..
  have "dm_users (ru_daemon ru) ''hub'' = Some 12"
    using started_daemon_admits_users [OF demo_config_valid ru refl refl] by (simp add: demo_config_def demo_lookup_def)
  with ru show ?thesis by blast
qed

theorem started_daemon_is_private_witness:
  "\<exists>ru. ru_modes ru (sp_inbox (dm_spool (ru_daemon ru))) = Some 0x1C0 \<and> hd_mode demo_started = 0x1C0 \<and>
     start_daemon demo_lookup demo_builder demo_start_io demo_config Map.empty demo_home =
       (Inr ru, [(''@bot:x'', ''D'')], demo_started)"
proof -
  obtain ru where ru: "start_daemon demo_lookup demo_builder demo_start_io demo_config Map.empty demo_home =
     (Inr ru, [(''@bot:x'', ''D'')], demo_started)" using demo_started_daemon ..
  with started_daemon_is_private [OF ru] show ?thesis by blast
qed

text \<open>A second start of the daemon while process 9 holds the lock.\<close>

definition demo_main_io :: "(unit, unit) main_io" where
  "demo_main_io =
     \<lparr>mi_from_str = \<lambda>_. Inr demo_config, mi_read_file = \<lambda>_. Inr ''x'', mi_stdin = Inl ''x'', mi_from_name = demo_lookup,
      mi_builder = demo_builder, mi_start = demo_start_io,
      mi_store = \<lambda>_. \<lparr>store_entries = Listing [], plain_files = []\<rparr>, mi_backup = demo_backup_io, mi_backups = \<lambda>_. [],
      mi_try_exists_ok = True,
      mi_signing = \<lparr>sg_init_tasks = id, sg_user_id = \<lambda>_. None, sg_request_identity = \<lambda>s. (False, s),
        sg_own_device = \<lambda>_. Inl (), sg_cross_signed = \<lambda>_. False, sg_status = \<lambda>_. None, sg_verify = \<lambda>_ s. (False, s),
        sg_reset = \<lambda>s. (Inl (), s), sg_auth = \<lambda>_ s. (0, Inl Sdk_Other, s), sg_auth_cut = \<lambda>_ s. s\<rparr>,
      mi_account = (), mi_server = Inr (Inr ()), mi_sync = Exit_Ok\<rparr>"


end
