(* ===== verification/Connection.thy ===== *)
theory Connection
  imports Delivery
begin

text \<open>
  The two tasks of a served connection and the queue between them (\<open>handle\<close>, \<open>write_loop\<close> of
  \<open>crates/siltad/src/server.rs\<close>, \<open>deliver\<close> of \<open>daemon.rs\<close>). The reading task serves lines and puts
  its results into the bounded queue, waiting for room; the handlers of room events put events
  into the same queue without waiting; the writing task takes from it in order until a write
  fails. Their steps interleave freely. The record \<open>link\<close> also keeps what went through: the
  results produced, the messages put into the queue, the events delivered and acknowledged, and
  each message written with the lines it became.
\<close>

section \<open>The steps\<close>

definition SESSION_QUEUE :: nat where
  "SESSION_QUEUE = 256"

record link =
  lk_conn :: conn
  lk_world :: world
  lk_queue :: "daemon_message list"
  lk_waiting :: "cmd_result option"
  lk_reading :: bool
  lk_writing :: bool
  lk_results :: "cmd_result list"
  lk_sent :: "daemon_message list"
  lk_delivered :: "stamped list"
  lk_acked :: "stamped list"
  lk_out :: "(daemon_message \<times> daemon_message list) list"

datatype link_op =
    Op_Line conn_env "incoming option"
  | Op_Push
  | Op_Deliver bool event u64
  | Op_Write bool
  | Op_Notice

definition acked_by :: "incoming option \<Rightarrow> string \<Rightarrow> registry \<Rightarrow> stamped list" where
  "acked_by line s r =
     (case line of
        Some (In_Message (CM_Ack a)) \<Rightarrow> (case snd (registry_ack s (ack_event_id a) r) of Some x \<Rightarrow> [x] | None \<Rightarrow> [])
      | _ \<Rightarrow> [])"

text \<open>One line; no other is read while a result waits for room in the queue.\<close>

definition link_line :: "sdk \<Rightarrow> conn_params \<Rightarrow> conn_env \<Rightarrow> incoming option \<Rightarrow> link \<Rightarrow> link" where
  "link_line sdk p e line L =
     (if \<not> lk_reading L \<or> lk_waiting L \<noteq> None then L
      else let (x, c, w) = serve_line sdk p e line (lk_conn L) (lk_world L);
               L1 = L\<lparr>lk_conn := c, lk_world := w,
                      lk_acked := lk_acked L @ acked_by line (cn_session (lk_conn L)) (dm_registry (wd_daemon (lk_world L)))\<rparr>
           in case x of
                Sv_Result r \<Rightarrow> L1\<lparr>lk_waiting := Some r, lk_results := lk_results L @ [r]\<rparr>
              | Sv_Quiet \<Rightarrow> L1
              | Sv_Close \<Rightarrow> L1\<lparr>lk_reading := False\<rparr>
              | Sv_Panic \<Rightarrow> L1\<lparr>lk_reading := False\<rparr>)"

text \<open>\<open>results.send\<close>: it fails once the writing task is gone, which ends the reading.\<close>

definition link_push :: "link \<Rightarrow> link" where
  "link_push L =
     (case lk_waiting L of
        None \<Rightarrow> L
      | Some r \<Rightarrow>
          if \<not> lk_writing L then L\<lparr>lk_waiting := None, lk_reading := False\<rparr>
          else if length (lk_queue L) < SESSION_QUEUE
          then L\<lparr>lk_waiting := None, lk_queue := lk_queue L @ [DM_Result r], lk_sent := lk_sent L @ [DM_Result r]\<rparr>
          else L)"

text \<open>\<open>try_send\<close>: a free place may already be promised to the result that waits for one.\<close>

definition try_outcome :: "bool \<Rightarrow> link \<Rightarrow> try_send" where
  "try_outcome promised L =
     (if \<not> lk_writing L then SendClosed
      else if length (lk_queue L) + (if promised \<and> lk_waiting L \<noteq> None then 1 else 0) < SESSION_QUEUE then Sent
      else SendFull)"

definition link_deliver :: "bool \<Rightarrow> event \<Rightarrow> u64 \<Rightarrow> link \<Rightarrow> link" where
  "link_deliver promised ev ts L =
     (let d = wd_daemon (lk_world L);
          (r, x) = registry_deliver (try_outcome promised L) (cn_session (lk_conn L)) ev ts (dm_registry d);
          L1 = L\<lparr>lk_world := (lk_world L)\<lparr>wd_daemon := d\<lparr>dm_registry := r\<rparr>\<rparr>\<rparr>
      in if x = Inr ()
         then L1\<lparr>lk_queue := lk_queue L @ [DM_Event ev], lk_sent := lk_sent L @ [DM_Event ev],
                 lk_delivered := lk_delivered L @ [(ts, ev)]\<rparr>
         else L1)"

text \<open>One message of the writing task; a write that fails ends it, and the queue closes.\<close>

definition write_message :: "(string \<Rightarrow> string) \<Rightarrow> daemon \<Rightarrow> daemon_message \<Rightarrow> daemon_message list" where
  "write_message encode d m = (case m of DM_Event ev \<Rightarrow> write_event encode d ev | _ \<Rightarrow> [m])"

definition link_write :: "(string \<Rightarrow> string) \<Rightarrow> bool \<Rightarrow> link \<Rightarrow> link" where
  "link_write encode ok L =
     (if \<not> lk_writing L then L
      else case lk_queue L of
        [] \<Rightarrow> L
      | m # q \<Rightarrow>
          if ok then L\<lparr>lk_queue := q, lk_out := lk_out L @ [(m, write_message encode (wd_daemon (lk_world L)) m)]\<rparr>
          else L\<lparr>lk_writing := False\<rparr>)"

text \<open>The reading task sees that the writing task ended.\<close>

definition link_notice :: "link \<Rightarrow> link" where
  "link_notice L = (if lk_writing L \<or> lk_waiting L \<noteq> None then L else L\<lparr>lk_reading := False\<rparr>)"

fun link_step :: "sdk \<Rightarrow> conn_params \<Rightarrow> (string \<Rightarrow> string) \<Rightarrow> link_op \<Rightarrow> link \<Rightarrow> link" where
  "link_step sdk p encode (Op_Line e line) = link_line sdk p e line"
| "link_step sdk p encode Op_Push = link_push"
| "link_step sdk p encode (Op_Deliver promised ev ts) = link_deliver promised ev ts"
| "link_step sdk p encode (Op_Write ok) = link_write encode ok"
| "link_step sdk p encode Op_Notice = link_notice"

definition link_run :: "sdk \<Rightarrow> conn_params \<Rightarrow> (string \<Rightarrow> string) \<Rightarrow> link_op list \<Rightarrow> link \<Rightarrow> link" where
  "link_run sdk p encode ops L = fold (link_step sdk p encode) ops L"

text \<open>The two tasks begin; the queue holds the events delivered since the claim.\<close>

definition link_start :: "conn \<Rightarrow> world \<Rightarrow> event list \<Rightarrow> link" where
  "link_start c w evs =
     \<lparr>lk_conn = c, lk_world = w, lk_queue = map DM_Event evs, lk_waiting = None, lk_reading = True, lk_writing = True,
      lk_results = [], lk_sent = map DM_Event evs, lk_delivered = [], lk_acked = [], lk_out = []\<rparr>"

section \<open>The registry under a command\<close>

lemma on_typing_registry [simp]:
  "dm_registry (wd_daemon (on_typing f w)) = dm_registry (wd_daemon w)"
  "dm_registry (wd_daemon (stop_typing room w)) = dm_registry (wd_daemon w)"
  "dm_registry (wd_daemon (after_send s room m now w)) = dm_registry (wd_daemon w)"
  by (simp_all add: on_typing_def stop_typing_def after_send_def)

lemma post_registry: "post sdk room x w = (a, w') \<Longrightarrow> dm_registry (wd_daemon w') = dm_registry (wd_daemon w)"
  by (auto simp: post_def Let_def)

lemma reply_loop_registry:
  "reply_loop sdk room config n i l t chunks w = (x, w') \<Longrightarrow> dm_registry (wd_daemon w') = dm_registry (wd_daemon w)"
  by (induction chunks arbitrary: i l t w)
     (auto split: option.splits sum.splits prod.splits if_splits dest!: post_registry)

lemmas registry_kept = post_registry reply_loop_registry

lemma commands_keep_registry:
  "do_reply sdk s now r w = (x, w') \<Longrightarrow> dm_registry (wd_daemon w') = dm_registry (wd_daemon w)"
  "do_react sdk s now r2 w = (x2, w') \<Longrightarrow> dm_registry (wd_daemon w') = dm_registry (wd_daemon w)"
  "do_edit sdk s now r3 w = (x3, w') \<Longrightarrow> dm_registry (wd_daemon w') = dm_registry (wd_daemon w)"
  "do_send_file sdk s now f rf w = (x4, w') \<Longrightarrow> dm_registry (wd_daemon w') = dm_registry (wd_daemon w)"
  by (auto simp: do_reply_def do_react_def do_edit_def do_send_file_def Let_def
      split: if_splits sum.splits option.splits prod.splits dest: registry_kept)

lemma execute_registry: "execute sdk s now c w = (x, w') \<Longrightarrow> dm_registry (wd_daemon w') = dm_registry (wd_daemon w)"
  by (auto simp: execute_def Let_def out_reply_def out_react_def out_edit_def out_typing_def map_prod_def
      split: cmd_kind.splits sum.splits prod.splits dest: commands_keep_registry)

lemma serve_cmd_registry:
  "serve_cmd sdk p e k c w = (x, c', w') \<Longrightarrow> dm_registry (wd_daemon w') = dm_registry (wd_daemon w)"
  by (auto simp: serve_cmd_def serve_send_file_def out_send_file_def Let_def
      split: cmd_kind.splits option.splits prod.splits dest: execute_registry commands_keep_registry)

lemma on_disk_registry [simp]: "dm_registry (wd_daemon (on_disk s w)) = dm_registry (wd_daemon w)"
  by (simp add: on_disk_def)

lemma daemon_acked_registry [simp]: "dm_registry (daemon_acked sdk ts ok s ev t now d) = dm_registry d"
  by (auto simp: daemon_acked_def mark_read_def Let_def split: option.splits)

lemma serve_ack_registry:
  "dm_registry (wd_daemon (serve_ack sdk p e a c w)) = fst (registry_ack (cn_session c) (ack_event_id a) (dm_registry (wd_daemon w)))"
  by (auto simp: serve_ack_def Let_def split: prod.splits option.splits)

lemma serve_files_registry:
  "dm_registry (wd_daemon (snd (serve_file sdk e h c w))) = dm_registry (wd_daemon w)"
  "dm_registry (wd_daemon (snd (serve_chunk p e k c w))) = dm_registry (wd_daemon w)"
  "dm_registry (wd_daemon (snd (serve_file_end e n c w))) = dm_registry (wd_daemon w)"
  by (auto simp: serve_file_def serve_chunk_def serve_file_end_def split: prod.splits sum.splits)

definition registry_after :: "incoming option \<Rightarrow> string \<Rightarrow> registry \<Rightarrow> registry" where
  "registry_after line s r =
     (case line of Some (In_Message (CM_Ack a)) \<Rightarrow> fst (registry_ack s (ack_event_id a) r) | _ \<Rightarrow> r)"

lemma registry_after_moves:
  "backlog_of t (registry_after line s r) = backlog_of t r"
  "mset (inflight_of s (registry_after line s r)) + mset (acked_by line s r) = mset (inflight_of s r)"
proof -
  have k: "backlog_of t (fst (registry_ack s eid r)) = backlog_of t r \<and>
      mset (inflight_of s r) = (case snd (registry_ack s eid r) of None \<Rightarrow> {#} | Some x \<Rightarrow> {#x#}) + mset (inflight_of s (fst (registry_ack s eid r)))"
    for eid using ack_moves [OF surjective_pairing [of "registry_ack s eid r"], of t] by blast
  then show "backlog_of t (registry_after line s r) = backlog_of t r"
    by (simp add: registry_after_def split: option.split incoming.split client_message.split)
  show "mset (inflight_of s (registry_after line s r)) + mset (acked_by line s r) = mset (inflight_of s r)"
  proof (cases "\<exists>a. line = Some (In_Message (CM_Ack a))")
    case True
    then obtain a where "line = Some (In_Message (CM_Ack a))" ..
    with k [of "ack_event_id a"] show ?thesis
      by (cases "snd (registry_ack s (ack_event_id a) r)") (simp_all add: registry_after_def acked_by_def)
  next
    case False
    then show ?thesis
      by (simp add: registry_after_def acked_by_def split: option.split incoming.split client_message.split)
  qed
qed

lemma serve_cmd_registry_snd: "dm_registry (wd_daemon (snd (snd (serve_cmd sdk p e k c w)))) = dm_registry (wd_daemon w)"
  using serve_cmd_registry [of sdk p e k c w] by (metis prod.collapse)

lemma serve_line_registry:
  "dm_registry (wd_daemon (snd (snd (serve_line sdk p e line c w)))) = registry_after line (cn_session c) (dm_registry (wd_daemon w))"
  by (simp add: serve_line_def registry_after_def serve_cmd_registry_snd serve_files_registry serve_ack_registry
      split: option.split incoming.split client_message.split)

lemma serve_line_session: "cn_session (fst (snd (serve_line sdk p e line c w))) = cn_session c"
  using serve_line_policy [of sdk c w p e line] by (simp add: within_policy_def)

section \<open>Invariants of a connection\<close>

text \<open>What each step keeps holds after any interleaving of steps.\<close>

locale link_invariant =
  fixes sdk :: sdk and p :: conn_params and encode :: "string \<Rightarrow> string" and inv :: "link \<Rightarrow> bool"
  assumes line: "inv L \<Longrightarrow> inv (link_line sdk p e x L)"
    and push: "inv L \<Longrightarrow> inv (link_push L)"
    and deliver: "inv L \<Longrightarrow> inv (link_deliver promised ev ts L)"
    and wrote: "inv L \<Longrightarrow> inv (link_write encode ok L)"
    and notice: "inv L \<Longrightarrow> inv (link_notice L)"
begin

lemma step_keeps: "inv L \<Longrightarrow> inv (link_step sdk p encode op L)"
  by (cases op) (simp_all add: line push deliver wrote notice)

lemma run_keeps: "inv L \<Longrightarrow> inv (link_run sdk p encode ops L)"
  unfolding link_run_def by (induction ops arbitrary: L) (simp_all add: step_keeps)

end

definition is_result :: "daemon_message \<Rightarrow> bool" where
  "is_result m = (case m of DM_Result _ \<Rightarrow> True | _ \<Rightarrow> False)"

definition is_event :: "daemon_message \<Rightarrow> bool" where
  "is_event m = (case m of DM_Event _ \<Rightarrow> True | _ \<Rightarrow> False)"

lemma message_kinds [simp]:
  "is_result (DM_Result r)" "\<not> is_result (DM_Event ev)" "is_event (DM_Event ev)" "\<not> is_event (DM_Result r)"
  by (simp_all add: is_result_def is_event_def)

text \<open>The queue: what was taken and what is left is what was put in, in order.\<close>

definition order_inv :: "event list \<Rightarrow> link \<Rightarrow> bool" where
  "order_inv evs L =
     (map fst (lk_out L) @ lk_queue L = lk_sent L \<and>
      (lk_waiting L \<noteq> None \<longrightarrow> lk_reading L) \<and>
      (\<exists>rest. map DM_Result (lk_results L) = filter is_result (lk_sent L) @ map DM_Result rest \<and> length rest \<le> 1 \<and>
         (lk_reading L \<longrightarrow> rest = (case lk_waiting L of None \<Rightarrow> [] | Some r \<Rightarrow> [r]))) \<and>
      filter is_event (lk_sent L) = map DM_Event (evs @ map snd (lk_delivered L)) \<and>
      (length evs \<le> SESSION_QUEUE \<longrightarrow> length (lk_queue L) \<le> SESSION_QUEUE) \<and>
      (\<forall>(m, ls) \<in> set (lk_out L). \<exists>files. ls = files @ [m]))"

lemma write_message_ends: "\<exists>files. write_message encode d m = files @ [m]"
  by (cases m) (auto simp: write_message_def write_event_def)

lemma order_inv_line: "order_inv evs L \<Longrightarrow> order_inv evs (link_line sdk p e x L)"
  unfolding link_line_def by (auto simp: order_inv_def Let_def split: prod.splits served.splits)

lemma order_inv_push: "order_inv evs L \<Longrightarrow> order_inv evs (link_push L)"
  unfolding link_push_def by (auto simp: order_inv_def split: option.splits)

lemma order_inv_notice: "order_inv evs L \<Longrightarrow> order_inv evs (link_notice L)"
  unfolding link_notice_def by (auto simp: order_inv_def)

lemma order_inv_write: "order_inv evs L \<Longrightarrow> order_inv evs (link_write encode ok L)"
  unfolding link_write_def using write_message_ends by (auto simp: order_inv_def split: list.splits)

lemma order_inv_deliver:
  assumes "order_inv evs L"
  shows "order_inv evs (link_deliver promised ev ts L)"
proof -
  obtain r x where d: "registry_deliver (try_outcome promised L) (cn_session (lk_conn L)) ev ts (dm_registry (wd_daemon (lk_world L))) = (r, x)"
    by (meson surj_pair)
  have "x = Inr () \<longrightarrow> length (lk_queue L) < SESSION_QUEUE"
    using d by (auto simp: registry_deliver_def try_outcome_def Let_def split: if_splits)
  then show ?thesis
    using assms by (cases "x = Inr ()") (simp_all add: link_deliver_def d order_inv_def Let_def)
qed

interpretation in_order: link_invariant sdk p encode "order_inv evs" for sdk p encode evs
  by unfold_locales (simp_all add: order_inv_line order_inv_push order_inv_deliver order_inv_write order_inv_notice)

text \<open>The ledger: what is in flight and what was acknowledged is what was in flight and what was delivered.\<close>

definition ledger_inv :: "string \<Rightarrow> registry \<Rightarrow> link \<Rightarrow> bool" where
  "ledger_inv s r L =
     (cn_session (lk_conn L) = s \<and>
      (let r' = dm_registry (wd_daemon (lk_world L))
       in backlog_of s r' = backlog_of s r \<and>
          mset (inflight_of s r') + mset (lk_acked L) = mset (inflight_of s r) + mset (lk_delivered L)))"

lemma ledger_inv_line:
  assumes "ledger_inv s r L"
  shows "ledger_inv s r (link_line sdk p e x L)"
proof -
  obtain y c w where sv: "serve_line sdk p e x (lk_conn L) (lk_world L) = (y, c, w)" by (metis prod_cases3)
  let ?r = "dm_registry (wd_daemon (lk_world L))"
  have "cn_session c = s" "dm_registry (wd_daemon w) = registry_after x s ?r"
    using serve_line_session [of sdk p e x "lk_conn L" "lk_world L"] serve_line_registry [of sdk p e x "lk_conn L" "lk_world L"]
      assms by (simp_all add: sv ledger_inv_def)
  then show ?thesis
    using assms registry_after_moves(1) [of s x s ?r] registry_after_moves(2) [of s x ?r]
    by (auto simp: link_line_def sv ledger_inv_def Let_def split: served.splits)
       (metis (no_types, lifting) add.assoc add.commute)+
qed

lemma ledger_inv_deliver:
  assumes "ledger_inv s r L"
  shows "ledger_inv s r (link_deliver promised ev ts L)"
proof -
  obtain r1 x where d: "registry_deliver (try_outcome promised L) (cn_session (lk_conn L)) ev ts (dm_registry (wd_daemon (lk_world L))) = (r1, x)"
    by (meson surj_pair)
  have "cn_session (lk_conn L) = s" using assms by (simp add: ledger_inv_def)
  note d' = d [unfolded this]
  show ?thesis
    using deliver_moves [OF d', of s] assms by (simp add: link_deliver_def d' ledger_inv_def Let_def)
qed

lemma ledger_inv_rest:
  assumes "ledger_inv s r L"
  shows "ledger_inv s r (link_push L)" "ledger_inv s r (link_write encode ok L)" "ledger_inv s r (link_notice L)"
  using assms by (auto simp: link_push_def link_write_def link_notice_def ledger_inv_def split: option.splits list.splits)

interpretation ledger: link_invariant sdk p encode "ledger_inv s r" for sdk p encode s r
  by unfold_locales (simp_all add: ledger_inv_line ledger_inv_deliver ledger_inv_rest)

section \<open>Properties\<close>



text \<open>
  A session that is sent an event, once written and once not: the writing task fails, the
  reading task ends, and the event waits for the next connection.
\<close>

definition demo_link :: link where
  "demo_link = link_start (conn_new demo_connected ''mind'') \<lparr>wd_daemon = demo_connected, wd_posts = []\<rparr> []"

definition demo_conn_params :: conn_params where
  "demo_conn_params = \<lparr>cp_marks = \<lambda>_. [], cp_decode = Some, cp_show = \<lambda>_. []\<rparr>"

lemmas demo_link_defs = link_run_def link_deliver_def link_write_def link_notice_def try_outcome_def demo_link_def link_start_def
  conn_new_def demo_connected_def demo_daemon_def daemon_new_def registry_new_def registry_deliver_def inflight_of_def
  SESSION_QUEUE_def Let_def



text \<open>
  The order across connections: an event delivered between the claim and the taking of the
  backlog is in flight before the older messages. When that connection ends, the next one gets
  them in this order, the newer message first.
\<close>

theorem overtaking_after_reconnect:
  "let r0 = fst (registry_enqueue ''s'' 5 (demo_event ''$1'') 6 (registry_new 1000));
       r1 = the (registry_claim ''s'' r0);
       r2 = fst (registry_deliver Sent ''s'' (demo_event ''$2'') 9 r1);
       r3 = fst (take_backlog ''s'' 10 r2);
       r4 = fst (claim_drop ''s'' 11 r3)
   in fst (snd (take_backlog ''s'' 12 r4)) = [(9, demo_event ''$2''), (5, demo_event ''$1'')]"
proof -
  let ?r0 = "fst (registry_enqueue ''s'' 5 (demo_event ''$1'') 6 (registry_new 1000))"
  let ?r3 = "\<lparr>inner = {''s''}, backlogs = [''s'' \<mapsto> \<lparr>items = [], backlog.max_len = 100, max_age_ms = 1000\<rparr>],
    inflight = [''s'' \<mapsto> [(9, demo_event ''$2''), (5, demo_event ''$1'')]], rg_max_age_ms = 1000\<rparr>"
  have r0: "?r0 = \<lparr>inner = {}, backlogs = [''s'' \<mapsto> \<lparr>items = [(5, demo_event ''$1'')], backlog.max_len = 100, max_age_ms = 1000\<rparr>],
    inflight = Map.empty, rg_max_age_ms = 1000\<rparr>"
    by (simp add: registry_eval)
  have r3: "fst (take_backlog ''s'' 10 (fst (registry_deliver Sent ''s'' (demo_event ''$2'') 9 (the (registry_claim ''s'' ?r0))))) = ?r3"
    unfolding r0 by (simp add: registry_eval)
  have r4: "fst (snd (take_backlog ''s'' 12 (fst (claim_drop ''s'' 11 ?r3)))) = [(9, demo_event ''$2''), (5, demo_event ''$1'')]"
    by (simp add: claim_drop_def registry_eval)
  show ?thesis unfolding Let_def r3 r4 ..
qed

end
