(* ===== verification/Programs.thy ===== *)
theory Programs
  imports Supervision File_Transfer
begin

text \<open>
  The entry points of the two programs of a session (\<open>crates/silta-session/src/main.rs\<close>,
  \<open>crates/silta-claude/src/main.rs\<close>) and the task that reads Claude Code's output line by line
  (\<open>pump\<close> of \<open>lib.rs\<close>): the switches of the environment, the configuration of the supervisor,
  the exit codes, and what ends the plugin. What clap parsed is the record of its arguments; the path
  of Claude Code's binary only enters the spawned process, which is an input of a run.
\<close>

section \<open>The supervisor's program\<close>

text \<open>\<open>trim\<close>, then ASCII lower case.\<close>

definition ascii_lower :: "string \<Rightarrow> string" where
  "ascii_lower s = map (\<lambda>c. if 65 \<le> byte c \<and> byte c \<le> 90 then char_of (byte c + 32) else c) s"

definition parse_switch :: "string \<Rightarrow> string + bool" where
  "parse_switch s =
     (let t = ascii_lower (trim s)
      in if t \<in> {''1'', ''true'', ''yes'', ''on''} then Inr True
         else if t \<in> {''0'', ''false'', ''no'', ''off''} then Inr False
         else Inl t)"

record session_args =
  ga_session :: string
  ga_state :: string
  ga_persona :: string
  ga_claude_bin :: string
  ga_plugin_bin :: string
  ga_socket :: string
  ga_model :: "string option"
  ga_effort :: "string option"
  ga_fallback_model :: "string option"
  ga_window :: "u64 option"
  ga_gateway_url :: "string option"
  ga_stop_grace :: u64
  ga_rotate :: bool
  ga_context_tokens :: u64
  ga_idle_seconds :: u64
  ga_quiet_seconds :: u64
  ga_handoff_seconds :: u64
  ga_compact_seconds :: u64
  ga_retry_seconds :: u64
  ga_backups_keep :: nat
  ga_emergency_line :: "string option"
  ga_accept_messages :: bool

definition from_secs :: "u64 \<Rightarrow> duration" where
  "from_secs n = unat n * 1000"

definition emergency_of :: "session_args \<Rightarrow> emergency option" where
  "emergency_of a = Option.bind (ga_emergency_line a) (\<lambda>line. emergency_new line (ga_accept_messages a))"

definition session_cfg :: "session_args \<Rightarrow> auth \<Rightarrow> sup_config" where
  "session_cfg a x =
     \<lparr>su_session = ga_session a, su_state = ga_state a, su_persona = ga_persona a, su_plugin_bin = ga_plugin_bin a,
      su_socket = ga_socket a, su_model = ga_model a, su_effort = ga_effort a, su_fallback_model = ga_fallback_model a,
      su_window = ga_window a, su_window_wait = 60 * 1000, su_auth = Some x, su_stop_grace = from_secs (ga_stop_grace a),
      su_limits = \<lparr>enabled = ga_rotate a, context_tokens = ga_context_tokens a, idle = from_secs (ga_idle_seconds a),
        quiet_cap = from_secs (ga_quiet_seconds a), handoff_cap = from_secs (ga_handoff_seconds a),
        compact_cap = from_secs (ga_compact_seconds a), retry_pause = from_secs (ga_retry_seconds a)\<rparr>,
      su_backups_keep = ga_backups_keep a, su_emergency = emergency_of a\<rparr>"

definition EXIT_AUTH :: int where
  "EXIT_AUTH = 78"

text \<open>
  \<open>creds\<close> reads a file of the credentials directory, if the unit has one. The result is the
  exit code, \<open>None\<close> while a run goes on when its inputs end.
\<close>

definition session_main ::
  "(string \<Rightarrow> string option) option \<Rightarrow> session_args \<Rightarrow> bool \<Rightarrow> bool \<Rightarrow> (tree \<Rightarrow> bool) \<Rightarrow> int \<Rightarrow> round list \<Rightarrow> session_dir \<Rightarrow>
     int option \<times> session_dir"
where
  "session_main creds a runtime_ok dirs_ok rm_ok now rounds d =
     (case creds of
        None \<Rightarrow> (Some EXIT_AUTH, d)
      | Some read \<Rightarrow>
          (case auth_load read (ga_gateway_url a) of
             Inl _ \<Rightarrow> (Some EXIT_AUTH, d)
           | Inr x \<Rightarrow>
               if \<not> runtime_ok then (Some 1, d)
               else map_prod (map_option (\<lambda>code. max 0 (min 255 code))) id
                      (supervise (session_cfg a x) dirs_ok rm_ok now rounds d)))"

section \<open>Claude Code's output\<close>

text \<open>
  The bytes of a pipe up to its end or a failed read, cut after each newline; \<open>lossy\<close> is
  \<open>from_utf8_lossy\<close>. Trailing newlines and carriage returns of a line are dropped.
\<close>

definition strip_eol :: "string \<Rightarrow> string" where
  "strip_eol s = rev (dropWhile (\<lambda>c. c = NL \<or> c = CHR 0x0D) (rev s))"

function pump_lines :: "(string \<Rightarrow> string) \<Rightarrow> string \<Rightarrow> string list" where
  "pump_lines lossy bytes =
     (if bytes = [] then []
      else let line = takeWhile (\<lambda>c. c \<noteq> NL) bytes; rest = drop (length line + 1) bytes
           in lossy (strip_eol (take (length line + 1) bytes)) # pump_lines lossy rest)"
  by auto
termination
  by (relation "measure (\<lambda>(lossy, bytes). length bytes)") auto

declare pump_lines.simps [simp del]

section \<open>The plugin's program\<close>

datatype plugin_args = Args_Ok | Args_Missing | Args_Other nat

datatype mcp_boot = Boot_Ok | Boot_Failed | Boot_Cancelled

text \<open>The parent's id at each poll: a change cancels the plugin.\<close>

definition parent_watch :: "nat \<Rightarrow> nat list \<Rightarrow> bool" where
  "parent_watch parent polls = list_ex (\<lambda>p. p \<noteq> parent) polls"

definition claude_run :: "bool \<Rightarrow> mcp_boot \<Rightarrow> nat" where
  "claude_run inbox_ok boot =
     (if \<not> inbox_ok then 1 else case boot of Boot_Ok \<Rightarrow> 0 | Boot_Failed \<Rightarrow> 1 | Boot_Cancelled \<Rightarrow> 0)"

text \<open>\<open>parent\<close> and \<open>now_parent\<close>: the parent before and after \<open>prctl\<close>.\<close>

definition claude_main :: "plugin_args \<Rightarrow> nat \<Rightarrow> nat \<Rightarrow> bool \<Rightarrow> bool \<Rightarrow> mcp_boot \<Rightarrow> nat" where
  "claude_main args parent now_parent runtime_ok inbox_ok boot =
     (case args of
        Args_Missing \<Rightarrow> 2
      | Args_Other code \<Rightarrow> code
      | Args_Ok \<Rightarrow>
          if now_parent \<noteq> parent then 1
          else if \<not> runtime_ok then 1
          else claude_run inbox_ok boot)"

text \<open>
  The sweeper of the plugin's inbox: it starts with the first welcome, whose age limit it keeps
  over later connections, and then sweeps once a day. A sweep is given by its time and listing.
\<close>

definition INBOX_SWEEP_EVERY :: duration where
  "INBOX_SWEEP_EVERY = 24 * 3600 * 1000"

definition inbox_age :: "u64 list \<Rightarrow> duration option" where
  "inbox_age welcomes = (case welcomes of [] \<Rightarrow> None | days # _ \<Rightarrow> Some (unat (saturating_mul days 86400) * 1000))"

definition inbox_sweeps :: "duration \<Rightarrow> (nat \<times> dir_listing) list \<Rightarrow> ((unit + nat) \<times> string list) list" where
  "inbox_sweeps max_age rounds = map (\<lambda>(now, listing). sweep now max_age listing) rounds"

section \<open>Lemmas\<close>

lemma strip_eol_end: "strip_eol s = [] \<or> last (strip_eol s) \<notin> {NL, CHR 0x0D}"
proof (cases "dropWhile (\<lambda>c. c = NL \<or> c = CHR 0x0D) (rev s)")
  case (Cons c cs)
  then have "c \<notin> {NL, CHR 0x0D}" using hd_dropWhile [of "\<lambda>c. c = NL \<or> c = CHR 0x0D" "rev s"] by auto
  then show ?thesis by (simp add: strip_eol_def Cons)
qed (simp add: strip_eol_def)

lemma pump_lines_unlines:
  assumes "\<forall>l \<in> set ls. NL \<notin> set l \<and> CHR 0x0D \<notin> set l"
  shows "pump_lines id (concat (map (\<lambda>l. l @ [NL]) ls)) = ls"
  using assms
proof (induction ls)
  case (Cons l ls)
  let ?rest = "concat (map (\<lambda>l. l @ [NL]) ls)"
  have t: "takeWhile (\<lambda>c. c \<noteq> NL) (l @ NL # ?rest) = l" using Cons(2) by (subst takeWhile_append2) auto
  have "dropWhile (\<lambda>c. c = NL \<or> c = CHR 0x0D) (rev l) = rev l"
    using Cons(2) by (cases l rule: rev_cases) auto
  then have "strip_eol (l @ [NL]) = l" by (simp add: strip_eol_def)
  with Cons t show ?case by (simp add: pump_lines.simps [of _ "l @ NL # ?rest"])
qed (simp add: pump_lines.simps)

lemma emergency_of_one_shot:
  assumes "ga_emergency_line a = Some line" "trim line \<noteq> []" "ga_accept_messages a \<longrightarrow> is_command (trim line)"
  shows "one_shot (session_cfg a x)"
  using assms by (simp add: one_shot_def session_cfg_def emergency_of_def emergency_new_def Let_def)

section \<open>Properties\<close>


text \<open>A line that compacts the saved session, with an API key; Claude Code exits at once.\<close>

definition demo_args :: session_args where
  "demo_args = \<lparr>ga_session = ''main'', ga_state = ''/s'', ga_persona = ''/p'', ga_claude_bin = ''/c'', ga_plugin_bin = ''/b'', ga_socket = ''/k'',
     ga_model = None, ga_effort = None, ga_fallback_model = None, ga_window = None, ga_gateway_url = None, ga_stop_grace = 120,
     ga_rotate = True, ga_context_tokens = 300000, ga_idle_seconds = 14400, ga_quiet_seconds = 1800, ga_handoff_seconds = 900,
     ga_compact_seconds = 2700, ga_retry_seconds = 900, ga_backups_keep = 10, ga_emergency_line = Some ''/compact '',
     ga_accept_messages = True\<rparr>"

definition demo_creds :: "string \<Rightarrow> string option" where
  "demo_creds f = (if f = ''auth_api-key'' then Some ''k'' else None)"

lemma demo_line: "trim ''/compact '' = ''/compact''" "is_command ''/compact''" "auth_load demo_creds None = Inr (ApiKey ''k'')"
  by code_simp+


end
